(* ===== verification/Prelude.thy ===== *)
theory Prelude
  imports
    "HOL-Library.State_Monad"
    "HOL-Library.AList"
    "HOL-Library.Char_ord"
    "HOL-Library.List_Lexorder"
    "HOL-Library.Product_Lexorder"
    "HOL-Library.Sublist"
begin

text \<open>
  What the component theories share: Go's string-keyed maps as association lists, the small
  vocabulary of the state monad in which the handlers are written, and two ways of reasoning
  about it. A \<^emph>\<open>triple\<close> relates a condition on the state before a program to a condition on its
  result and the state after it. An \<^emph>\<open>evolution\<close> is a reflexive and transitive relation between
  states; a program keeps it when every run goes from a state to a related one. The
  collections \<open>triple_rules\<close> and \<open>keeps_rules\<close> gather the rules the component proofs apply.
\<close>

named_theorems triple_rules "rules for triples over the state monad"
named_theorems keeps_rules "rules for programs that keep an evolution of the state"
named_theorems go_defs "definitions of the small helpers of the Go standard library"

subsection \<open>Go maps\<close>

text \<open>
  A \<open>map[string]string\<close> is an association list read through \<open>map_of\<close>. A nil map and an empty
  map read alike in Go; the code replaces a nil map by an empty one before it writes, so both
  are the empty list here. Indexing a missing key gives the zero value, the empty string.
\<close>

type_synonym strmap = "(string \<times> string) list"

definition map_get :: "strmap \<Rightarrow> string \<Rightarrow> string" where
  "map_get m k = (case map_of m k of None \<Rightarrow> '''' | Some v \<Rightarrow> v)"

definition map_set :: "strmap \<Rightarrow> string \<Rightarrow> string \<Rightarrow> strmap" where
  "map_set m k v = AList.update k v m"

definition map_delete :: "strmap \<Rightarrow> string \<Rightarrow> strmap" where
  "map_delete m k = AList.delete k m"

lemma map_of_map_set [simp]: "map_of (map_set m k v) = (map_of m)(k \<mapsto> v)"
  by (simp add: map_set_def update_conv')

lemma map_of_map_delete [simp]: "map_of (map_delete m k) = (map_of m)(k := None)"
  by (simp add: map_delete_def delete_conv')

lemma map_get_set_same [simp]: "map_get (map_set m k v) k = v"
  by (simp add: map_get_def)

lemma map_get_set_other [simp]: "k' \<noteq> k \<Longrightarrow> map_get (map_set m k v) k' = map_get m k'"
  by (simp add: map_get_def)

lemma map_get_delete_same [simp]: "map_get (map_delete m k) k = ''''"
  by (simp add: map_get_def)

lemma map_get_delete_other [simp]: "k' \<noteq> k \<Longrightarrow> map_get (map_delete m k) k' = map_get m k'"
  by (simp add: map_get_def)

lemma map_of_filter_key: "map_of (filter (\<lambda>(k, v). P k) m) = (\<lambda>k. if P k then map_of m k else None)"
  by (induction m) (auto simp: fun_eq_iff)

subsection \<open>The state monad\<close>

definition gets :: "('s \<Rightarrow> 'a) \<Rightarrow> ('s, 'a) state" where
  "gets f = State (\<lambda>s. (f s, s))"

definition modify :: "('s \<Rightarrow> 's) \<Rightarrow> ('s, unit) state" where
  "modify f = State (\<lambda>s. ((), f s))"

definition on_fst :: "('s, 'a) state \<Rightarrow> ('s \<times> 't, 'a) state" where
  "on_fst m = State (\<lambda>(s, t). case run_state m s of (a, s') \<Rightarrow> (a, (s', t)))"

abbreviation ret :: "'a \<Rightarrow> ('s, 'a) state" where
  "ret \<equiv> State_Monad.return"

abbreviation skip :: "('s, unit) state" where
  "skip \<equiv> ret ()"

definition onlyif :: "bool \<Rightarrow> ('s, unit) state \<Rightarrow> ('s, unit) state" where
  "onlyif b m = (if b then m else skip)"

lemma run_gets [simp]: "run_state (gets f) s = (f s, s)"
  by (simp add: gets_def)

lemma run_modify [simp]: "run_state (modify f) s = ((), f s)"
  by (simp add: modify_def)

lemma run_on_fst [simp]:
  "run_state (on_fst m) (s, t) = (case run_state m s of (a, s') \<Rightarrow> (a, (s', t)))"
  by (simp add: on_fst_def)

lemma run_onlyif [simp]: "run_state (onlyif b m) s = (if b then run_state m s else ((), s))"
  by (simp add: onlyif_def)

lemma run_State [simp]: "run_state (State f) s = f s"
  by simp

subsection \<open>Triples\<close>

definition triple :: "('s \<Rightarrow> bool) \<Rightarrow> ('s, 'a) state \<Rightarrow> ('a \<Rightarrow> 's \<Rightarrow> bool) \<Rightarrow> bool" where
  "triple P m Q \<longleftrightarrow> (\<forall>s. P s \<longrightarrow> (case run_state m s of (a, s') \<Rightarrow> Q a s'))"

lemma tripleI:
  assumes "\<And>s a s'. P s \<Longrightarrow> run_state m s = (a, s') \<Longrightarrow> Q a s'"
  shows "triple P m Q"
  using assms by (auto simp: triple_def)

lemma tripleD:
  assumes "triple P m Q" and "P s" and "run_state m s = (a, s')"
  shows "Q a s'"
  using assms by (force simp: triple_def)

lemma triple_weaken:
  assumes "triple P' m Q'" and "\<And>s. P s \<Longrightarrow> P' s" and "\<And>a s. Q' a s \<Longrightarrow> Q a s"
  shows "triple P m Q"
  using assms by (fastforce simp: triple_def)

lemma triple_bind:
  assumes "triple P m R" and "\<And>a. triple (R a) (f a) Q"
  shows "triple P (Monad_Syntax.bind m f) Q"
  using assms by (fastforce simp: triple_def split: prod.splits)

lemma triple_return [triple_rules]: "triple (Q a) (State_Monad.return a) Q"
  by (simp add: triple_def)

lemma triple_gets [triple_rules]: "triple (\<lambda>s. Q (f s) s) (gets f) Q"
  by (simp add: triple_def)

lemma triple_modify [triple_rules]: "triple (\<lambda>s. Q () (f s)) (modify f) Q"
  by (simp add: triple_def)

lemma triple_if:
  assumes "b \<Longrightarrow> triple P m Q" and "\<not> b \<Longrightarrow> triple P n Q"
  shows "triple P (if b then m else n) Q"
  using assms by simp

lemma triple_onlyif:
  assumes "b \<Longrightarrow> triple P m (\<lambda>_. Q)" and "\<not> b \<Longrightarrow> (\<And>s. P s \<Longrightarrow> Q s)"
  shows "triple P (onlyif b m) (\<lambda>_. Q)"
  using assms by (auto simp: onlyif_def triple_def)

lemma triple_conj:
  assumes "triple P m Q" and "triple P' m Q'"
  shows "triple (\<lambda>s. P s \<and> P' s) m (\<lambda>a s. Q a s \<and> Q' a s)"
  using assms by (fastforce simp: triple_def)

subsection \<open>Evolutions\<close>

locale evolution =
  fixes rel :: "'s \<Rightarrow> 's \<Rightarrow> bool"
  assumes rel_refl: "rel s s"
    and rel_trans: "rel s t \<Longrightarrow> rel t u \<Longrightarrow> rel s u"
begin

lemma keeps_return: "state_io_rel rel (State_Monad.return a)"
  by (auto simp: state_io_rel_def rel_refl)

lemma keeps_gets: "state_io_rel rel (gets f)"
  by (auto simp: state_io_rel_def rel_refl)

lemma keeps_modify: "(\<And>s. rel s (f s)) \<Longrightarrow> state_io_rel rel (modify f)"
  by (auto simp: state_io_rel_def)

lemma keeps_bind:
  assumes "state_io_rel rel m" and "\<And>a. state_io_rel rel (f a)"
  shows "state_io_rel rel (Monad_Syntax.bind m f)"
  using assms by (auto simp: state_io_rel_def split: prod.splits) (metis rel_trans snd_conv)

lemma keeps_onlyif: "(b \<Longrightarrow> state_io_rel rel m) \<Longrightarrow> state_io_rel rel (onlyif b m)"
  by (auto simp: onlyif_def keeps_return)

lemma keeps_bind_result:
  assumes "state_io_rel rel m"
    and "\<And>s a s'. run_state m s = (a, s') \<Longrightarrow> state_io_rel rel (f a)"
  shows "state_io_rel rel (Monad_Syntax.bind m f)"
proof (rule state_io_relI)
  fix b s t
  assume run: "run_state (Monad_Syntax.bind m f) s = (b, t)"
  obtain a s' where m: "run_state m s = (a, s')" by (cases "run_state m s")
  then have "rel s s'" using assms(1) by blast
  moreover have "rel s' t" using assms(2)[OF m] run m by auto
  ultimately show "rel s t" by (rule rel_trans)
qed

lemma keeps_if:
  assumes "b \<Longrightarrow> state_io_rel rel m" and "\<not> b \<Longrightarrow> state_io_rel rel n"
  shows "state_io_rel rel (if b then m else n)"
  using assms by simp

lemma keeps_case_sum:
  assumes "\<And>e. x = Inl e \<Longrightarrow> state_io_rel rel (f e)" and "\<And>a. x = Inr a \<Longrightarrow> state_io_rel rel (g a)"
  shows "state_io_rel rel (case x of Inl e \<Rightarrow> f e | Inr a \<Rightarrow> g a)"
  using assms by (cases x) auto

lemma keeps_case_option:
  assumes "x = None \<Longrightarrow> state_io_rel rel m" and "\<And>a. x = Some a \<Longrightarrow> state_io_rel rel (g a)"
  shows "state_io_rel rel (case x of None \<Rightarrow> m | Some a \<Rightarrow> g a)"
  using assms by (cases x) auto

lemma keeps_case_prod:
  "(\<And>a b. x = (a, b) \<Longrightarrow> state_io_rel rel (f a b)) \<Longrightarrow> state_io_rel rel (case x of (a, b) \<Rightarrow> f a b)"
  by (cases x) simp

lemma keeps_let: "(\<And>a. a = x \<Longrightarrow> state_io_rel rel (f a)) \<Longrightarrow> state_io_rel rel (Let x f)"
  by simp

lemmas keeps_intros = keeps_return keeps_gets keeps_bind keeps_if keeps_onlyif
  keeps_case_sum keeps_case_option keeps_case_prod keeps_let

end

text \<open>The state of a handler grows a log; what is appended satisfies a condition.\<close>

definition appends :: "('s \<Rightarrow> 'c list) \<Rightarrow> ('c \<Rightarrow> bool) \<Rightarrow> 's \<Rightarrow> 's \<Rightarrow> bool" where
  "appends log ok s s' \<longleftrightarrow> (\<exists>new. log s' = log s @ new \<and> list_all ok new)"

lemma appendsI: "log s' = log s @ new \<Longrightarrow> list_all ok new \<Longrightarrow> appends log ok s s'"
  by (auto simp: appends_def)

lemma appends_same: "log s' = log s \<Longrightarrow> appends log ok s s'"
  by (auto simp: appends_def)

lemma appends_mono: "appends log ok s s' \<Longrightarrow> (\<And>c. ok c \<Longrightarrow> ok' c) \<Longrightarrow> appends log ok' s s'"
  by (auto simp: appends_def list_all_iff)

interpretation grows: evolution "appends log ok" for log ok
proof
  fix s t u
  show "appends log ok s s" by (simp add: appends_same)
  assume "appends log ok s t" and "appends log ok t u"
  then show "appends log ok s u"
    by (auto simp: appends_def)
qed

text \<open>A field that a program leaves alone.\<close>

definition same :: "('s \<Rightarrow> 'f) \<Rightarrow> 's \<Rightarrow> 's \<Rightarrow> bool" where
  "same f s s' \<longleftrightarrow> f s' = f s"

interpretation fixed: evolution "same f" for f
  by unfold_locales (auto simp: same_def)

subsection \<open>Lists\<close>

text \<open>A loop that searches a list and returns from inside its body.\<close>

lemma find_SomeD: "List.find P xs = Some x \<Longrightarrow> x \<in> set xs \<and> P x"
  by (auto simp: find_Some_iff)

lemma find_NoneD: "List.find P xs = None \<Longrightarrow> x \<in> set xs \<Longrightarrow> \<not> P x"
  by (auto simp: find_None_iff)

text \<open>
  \<open>sort.Slice\<close> is not stable and leaves the order of equal elements open; the code only takes
  the first element of a list it sorts by a key that orders distinct elements strictly.
\<close>

lemma sort_key_Nil: "sort_key f xs = [] \<longleftrightarrow> xs = []"
  by (metis length_0_conv length_sort)

lemma hd_sort_key_min:
  assumes "xs \<noteq> []"
  shows "hd (sort_key f xs) \<in> set xs" and "x \<in> set xs \<Longrightarrow> f (hd (sort_key f xs)) \<le> f x"
proof -
  obtain y ys where ys: "sort_key f xs = y # ys"
    using assms by (metis list.exhaust set_empty set_sort)
  have mem: "set (sort_key f xs) = set xs" by simp
  then show "hd (sort_key f xs) \<in> set xs" using ys by force
  have "sorted (map f (y # ys))" using ys by (metis sorted_sort_key)
  then have "\<forall>z \<in> set (y # ys). f y \<le> f z" by auto
  with mem ys show "x \<in> set xs \<Longrightarrow> f (hd (sort_key f xs)) \<le> f x" by simp
qed

end
