(* ===== verification/GoStd.thy ===== *)
theory GoStd
  imports Prelude
begin

text \<open>
  What the program uses of Go's standard library: \<^verbatim>\<open>time.ParseDuration\<close>, the arithmetic of
  \<^verbatim>\<open>time.Time\<close> and \<^verbatim>\<open>time.Duration\<close>, decimal printing and \<^verbatim>\<open>strings.TrimSpace\<close>. Strings are
  byte strings, as in Go. A \<^verbatim>\<open>time.Time\<close> is its number of nanoseconds since a fixed instant (the
  value 0 stands for the unset time in objects the program creates), a \<^verbatim>\<open>time.Duration\<close> a number of
  nanoseconds in the range of a 64-bit integer.
\<close>

subsection \<open>Times and durations\<close>

type_synonym go_time = int
type_synonym duration = int

abbreviation nanosecond :: duration where "nanosecond \<equiv> 1"
abbreviation millisecond :: duration where "millisecond \<equiv> 1000000"
abbreviation second :: duration where "second \<equiv> 1000000000"

definition max_duration :: duration where "max_duration = 2 ^ 63 - 1"
definition min_duration :: duration where "min_duration = - (2 ^ 63)"

text \<open>\<^verbatim>\<open>t.Sub(u)\<close> saturates at the extreme durations.\<close>

definition time_Sub :: "go_time \<Rightarrow> go_time \<Rightarrow> duration" where
  "time_Sub t u = max min_duration (min max_duration (t - u))"

lemma time_Sub_in_range: "min_duration \<le> time_Sub t u \<and> time_Sub t u \<le> max_duration"
  by (auto simp: time_Sub_def min_duration_def max_duration_def)

lemma time_Sub_exact:
  "min_duration \<le> t - u \<Longrightarrow> t - u \<le> max_duration \<Longrightarrow> time_Sub t u = t - u"
  by (simp add: time_Sub_def)

lemma time_Sub_less_iff: "d \<le> max_duration \<Longrightarrow> min_duration < d \<Longrightarrow> time_Sub t u < d \<longleftrightarrow> t - u < d"
  by (auto simp: time_Sub_def)

definition is_digit :: "char \<Rightarrow> bool" where
  "is_digit c \<longleftrightarrow> 48 \<le> (of_char c :: nat) \<and> (of_char c :: nat) \<le> 57"

definition digit_val :: "char \<Rightarrow> int" where
  "digit_val c = int (of_char c - 48)"

text \<open>\<^verbatim>\<open>leadingInt\<close>: the leading decimal digits, \<open>None\<close> on overflow past \<open>2 ^ 63\<close>.\<close>

fun leadingInt :: "int \<Rightarrow> string \<Rightarrow> (int \<times> string) option" where
  "leadingInt x [] = Some (x, [])"
| "leadingInt x (c # s) =
     (if \<not> is_digit c then Some (x, c # s)
      else if x > 2 ^ 63 div 10 then None
      else let x' = x * 10 + digit_val c in if x' > 2 ^ 63 then None else leadingInt x' s)"

text \<open>
  \<^verbatim>\<open>leadingFraction\<close>: the digits after the point as a numerator and a power of ten. Digits past
  the range of the numerator are consumed and ignored.
\<close>

fun leadingFraction :: "bool \<Rightarrow> int \<Rightarrow> int \<Rightarrow> string \<Rightarrow> int \<times> int \<times> string" where
  "leadingFraction ovf x scale [] = (x, scale, [])"
| "leadingFraction ovf x scale (c # s) =
     (if \<not> is_digit c then (x, scale, c # s)
      else if ovf \<or> x > (2 ^ 63 - 1) div 10 then leadingFraction True x scale s
      else let y = x * 10 + digit_val c in
        if y > 2 ^ 63 then leadingFraction True x scale s
        else leadingFraction False y (scale * 10) s)"

definition unitMap :: "(string \<times> int) list" where
  "unitMap = [(''ns'', 1), (''us'', 1000), ([CHR 0xC2, CHR 0xB5, CHR ''s''], 1000),
     ([CHR 0xCE, CHR 0xBC, CHR ''s''], 1000), (''ms'', 1000000), (''s'', 1000000000),
     (''m'', 60000000000), (''h'', 3600000000000)]"

lemma leadingInt_length: "leadingInt x s = Some (v, r) \<Longrightarrow> length r \<le> length s"
  by (induction x s rule: leadingInt.induct) (fastforce simp: Let_def split: if_splits)+

lemma leadingFraction_length: "leadingFraction b x sc s = (f, sc', r) \<Longrightarrow> length r \<le> length s"
  by (induction b x sc s rule: leadingFraction.induct) (fastforce simp: Let_def split: if_splits)+

text \<open>
  One value-unit pair: its nanoseconds and the text after it. \<open>frac f unit scale\<close> is the number
  \<^verbatim>\<open>uint64(float64(f) * (float64(unit) / scale))\<close> that the machine's double arithmetic gives
  for the digits after the point.
\<close>

definition parse_unit :: "(int \<Rightarrow> int \<Rightarrow> int \<Rightarrow> nat) \<Rightarrow> string \<Rightarrow> (int \<times> string) option" where
  "parse_unit frac s =
     (case leadingInt 0 s of None \<Rightarrow> None
      | Some (v, s1) \<Rightarrow>
        let pre = (length s1 \<noteq> length s);
            (f, scale, s2, post) =
              (case s1 of
                 p # r \<Rightarrow> if p = CHR ''.''
                   then (case leadingFraction False 0 1 r of (f, scale, r') \<Rightarrow>
                           (f, scale, r', length r' \<noteq> length r))
                   else (0, 1, s1, False)
               | [] \<Rightarrow> (0, 1, s1, False))
        in if \<not> pre \<and> \<not> post then None
           else let u = takeWhile (\<lambda>c. \<not> (c = CHR ''.'' \<or> is_digit c)) s2;
                    s3 = dropWhile (\<lambda>c. \<not> (c = CHR ''.'' \<or> is_digit c)) s2
                in if u = [] then None
                   else case map_of unitMap u of None \<Rightarrow> None
                   | Some unit \<Rightarrow>
                       if v > 2 ^ 63 div unit then None
                       else let v' = v * unit + (if f > 0 then int (frac f unit scale) else 0)
                            in if v' > 2 ^ 63 then None else Some (v', s3))"

lemma parse_unit_shorter:
  assumes "parse_unit frac s = Some (v, r)"
  shows "length r < length s"
proof -
  have drop: "length (dropWhile P xs) < length xs" if "takeWhile P xs \<noteq> []" for P and xs :: string
    using that by (metis length_0_conv length_append less_add_same_cancel2 neq0_conv takeWhile_dropWhile_id)
  show ?thesis using assms
    by (auto simp: parse_unit_def Let_def split: if_splits option.splits prod.splits list.splits
        dest!: leadingInt_length leadingFraction_length dest: drop[THEN less_le_trans])
      (meson Suc_le_lessD le_less_trans length_dropWhile_le)
qed

text \<open>
  The loop over the pairs. Every round consumes text, so the length of the text is enough
  rounds; \<open>parse_units_enough\<close> shows that more change nothing.
\<close>

fun parse_units :: "(int \<Rightarrow> int \<Rightarrow> int \<Rightarrow> nat) \<Rightarrow> nat \<Rightarrow> int \<Rightarrow> string \<Rightarrow> int option" where
  "parse_units frac n d [] = Some d"
| "parse_units frac 0 d (c # s) = None"
| "parse_units frac (Suc n) d (c # s) =
     (if \<not> (c = CHR ''.'' \<or> is_digit c) then None
      else case parse_unit frac (c # s) of None \<Rightarrow> None
      | Some (v, r) \<Rightarrow> if d + v > 2 ^ 63 then None else parse_units frac n (d + v) r)"

lemma parse_units_enough:
  "length s \<le> n \<Longrightarrow> length s \<le> m \<Longrightarrow> parse_units frac n d s = parse_units frac m d s"
proof (induction frac n d s arbitrary: m rule: parse_units.induct)
  case (3 frac n d c s)
  then obtain k where m: "m = Suc k" by (cases m) auto
  show ?case
  proof (cases "parse_unit frac (c # s)")
    case (Some a)
    then obtain v r where a: "a = (v, r)" by (cases a)
    have shorter: "length r < length (c # s)" using Some a parse_unit_shorter by blast
    show ?thesis
    proof (cases "\<not> (c = CHR ''.'' \<or> is_digit c) \<or> d + v > 2 ^ 63")
      case False
      then have "parse_units frac n (d + v) r = parse_units frac k (d + v) r"
        using "3.IH"[OF _ Some a[symmetric], of k] shorter "3.prems" m by simp
      with False show ?thesis by (simp only: parse_units.simps m Some a option.case prod.case if_False de_Morgan_disj)
    next
      case True
      then show ?thesis
        by (elim disjE) (simp_all only: parse_units.simps m Some a option.case prod.case
          not_True_eq_False not_False_eq_True if_True if_False if_cancel)
    qed
  qed (simp only: parse_units.simps m option.case)
qed auto

definition ParseDuration :: "(int \<Rightarrow> int \<Rightarrow> int \<Rightarrow> nat) \<Rightarrow> string \<Rightarrow> duration option" where
  "ParseDuration frac s =
     (let neg = (case s of c # _ \<Rightarrow> c = CHR ''-'' | [] \<Rightarrow> False);
          s' = (case s of c # r \<Rightarrow> if c = CHR ''-'' \<or> c = CHR ''+'' then r else s | [] \<Rightarrow> s)
      in if s' = ''0'' then Some 0
         else if s' = [] then None
         else case parse_units frac (length s') 0 s' of None \<Rightarrow> None
         | Some d \<Rightarrow> if neg then Some (- d)
                     else if d > 2 ^ 63 - 1 then None else Some d)"

lemma leadingInt_nonneg: "leadingInt x s = Some (v, r) \<Longrightarrow> 0 \<le> x \<Longrightarrow> 0 \<le> v"
  by (induction x s rule: leadingInt.induct)
    (auto simp: Let_def digit_val_def split: if_splits)

lemma parse_unit_nonneg: "parse_unit frac s = Some (v, r) \<Longrightarrow> 0 \<le> v"
  by (auto simp: parse_unit_def Let_def unitMap_def
      split: if_splits option.splits prod.splits list.splits dest!: leadingInt_nonneg)

lemma parse_units_bound:
  "parse_units frac n d s = Some r \<Longrightarrow> 0 \<le> d \<Longrightarrow> d \<le> 2 ^ 63 \<Longrightarrow> 0 \<le> r \<and> r \<le> 2 ^ 63"
  by (induction frac n d s rule: parse_units.induct)
    (auto split: if_splits option.splits prod.splits dest!: parse_unit_nonneg)

lemma ParseDuration_in_range:
  assumes "ParseDuration frac s = Some d"
  shows "min_duration \<le> d \<and> d \<le> max_duration"
  using assms
  by (auto simp: ParseDuration_def min_duration_def max_duration_def Let_def
      split: if_splits option.splits dest!: parse_units_bound)

subsection \<open>Decimal text\<close>

text \<open>\<^verbatim>\<open>fmt.Sprintf("%d", n)\<close> for a non-negative \<open>n\<close>.\<close>

fun decimal :: "nat \<Rightarrow> string" where
  "decimal n =
     (if n < 10 then [char_of (48 + n)] else decimal (n div 10) @ [char_of (48 + n mod 10)])"

declare decimal.simps [simp del]

subsection \<open>strings.TrimSpace\<close>

text \<open>The UTF-8 encodings of the characters \<^verbatim>\<open>unicode.IsSpace\<close> accepts.\<close>

definition go_spaces :: "string list" where
  "go_spaces = [[CHR 0x09], [CHR 0x0A], [CHR 0x0B], [CHR 0x0C], [CHR 0x0D], [CHR 0x20],
     [CHR 0xC2, CHR 0x85], [CHR 0xC2, CHR 0xA0], [CHR 0xE1, CHR 0x9A, CHR 0x80],
     [CHR 0xE2, CHR 0x80, CHR 0x80], [CHR 0xE2, CHR 0x80, CHR 0x81],
     [CHR 0xE2, CHR 0x80, CHR 0x82], [CHR 0xE2, CHR 0x80, CHR 0x83],
     [CHR 0xE2, CHR 0x80, CHR 0x84], [CHR 0xE2, CHR 0x80, CHR 0x85],
     [CHR 0xE2, CHR 0x80, CHR 0x86], [CHR 0xE2, CHR 0x80, CHR 0x87],
     [CHR 0xE2, CHR 0x80, CHR 0x88], [CHR 0xE2, CHR 0x80, CHR 0x89],
     [CHR 0xE2, CHR 0x80, CHR 0x8A], [CHR 0xE2, CHR 0x80, CHR 0xA8],
     [CHR 0xE2, CHR 0x80, CHR 0xA9], [CHR 0xE2, CHR 0x80, CHR 0xAF],
     [CHR 0xE2, CHR 0x81, CHR 0x9F], [CHR 0xE3, CHR 0x80, CHR 0x80]]"

fun trim_front :: "string list \<Rightarrow> nat \<Rightarrow> string \<Rightarrow> string" where
  "trim_front ws 0 s = s"
| "trim_front ws (Suc n) s =
     (case List.find (\<lambda>w. prefix w s) ws of
        None \<Rightarrow> s
      | Some w \<Rightarrow> trim_front ws n (drop (length w) s))"

definition TrimSpace :: "string \<Rightarrow> string" where
  "TrimSpace s =
     (let l = trim_front go_spaces (length s) s
      in rev (trim_front (map rev go_spaces) (length l) (rev l)))"

lemma trim_front_suffix: "suffix (trim_front ws n s) s"
proof (induction ws n s rule: trim_front.induct)
  case (2 ws n s)
  show ?case
  proof (cases "List.find (\<lambda>w. prefix w s) ws")
    case (Some w)
    then have "suffix (trim_front ws n (drop (length w) s)) (drop (length w) s)"
      using 2 by simp
    then have "suffix (trim_front ws n (drop (length w) s)) s"
      using suffix_drop suffix_order.trans by blast
    then show ?thesis using Some by simp
  qed simp
qed simp

lemma trim_front_idle:
  "(\<And>w. w \<in> set ws \<Longrightarrow> \<not> prefix w s) \<Longrightarrow> trim_front ws n s = s"
  by (cases n) (auto split: option.splits dest: find_SomeD)

subsection \<open>Quoted text\<close>

text \<open>
  \<^verbatim>\<open>fmt.Sprintf("%q", s)\<close> for a byte string. The bytes of characters past ASCII are kept, as they
  are for the printable ones.
\<close>

definition hex_digit :: "nat \<Rightarrow> char" where
  "hex_digit n = char_of (if n < 10 then 48 + n else 87 + n)"

definition quote_escapes :: "(char \<times> char) list" where
  "quote_escapes = [(CHR 0x22, CHR 0x22), (CHR 0x5C, CHR 0x5C), (CHR 0x07, CHR ''a''),
     (CHR 0x08, CHR ''b''), (CHR 0x0C, CHR ''f''), (CHR 0x0A, CHR ''n''), (CHR 0x0D, CHR ''r''),
     (CHR 0x09, CHR ''t''), (CHR 0x0B, CHR ''v'')]"

definition quote_char :: "char \<Rightarrow> string" where
  "quote_char c =
     (case map_of quote_escapes c of
        Some e \<Rightarrow> [CHR 0x5C, e]
      | None \<Rightarrow>
          let n = (of_char c :: nat) in
            if n < 32 \<or> n = 127 then [CHR 0x5C, CHR ''x'', hex_digit (n div 16), hex_digit (n mod 16)]
            else [c])"

definition go_quote :: "string \<Rightarrow> string" where
  "go_quote s = CHR 0x22 # concat (map quote_char s) @ [CHR 0x22]"

end
