(* ===== verification/Objects.thy ===== *)
theory Objects
  imports GoStd
begin

text \<open>
  The Kubernetes objects the program reads and writes, with the fields it uses. Every kind
  embeds the object metadata, as the Go structs do: the kinds are record extensions of
  \<open>object_meta\<close>. A pointer field is an \<open>option\<close>. The constants of the \<^verbatim>\<open>const\<close> block of
  \<^verbatim>\<open>service_director.go\<close> and those the code takes from the Kubernetes API packages follow.
\<close>

record owner_reference =
  OwnerAPIVersion :: string
  OwnerKind :: string
  OwnerName :: string
  OwnerUID :: string
  OwnerController :: "bool option"

record object_meta =
  Name :: string
  Namespace :: string
  UID :: string
  ResourceVersion :: string
  Labels :: strmap
  Annotations :: strmap
  OwnerReferences :: "owner_reference list"
  CreationTimestamp :: go_time
  DeletionTimestamp :: "go_time option"

text \<open>\<^verbatim>\<open>types.NamespacedName\<close>: a namespace and a name.\<close>

type_synonym nsname = "string \<times> string"

definition object_key :: "('a) object_meta_scheme \<Rightarrow> nsname" where
  "object_key ob = (Namespace ob, Name ob)"

subsection \<open>Services\<close>

text \<open>\<^verbatim>\<open>intstr.IntOrString\<close>: a numeric or a named port.\<close>

datatype int_or_string = IntPort int | NamedPort string

record service_port =
  PortName :: string
  PortProtocol :: string
  Port :: int
  TargetPort :: int_or_string
  NodePort :: int

record service = object_meta +
  Selector :: strmap
  Ports :: "service_port list"
  ServiceType :: string
  ClusterIP :: string

subsection \<open>Pods\<close>

record container_port =
  ContainerPortName :: string
  ContainerPort :: int

record container =
  ContainerPorts :: "container_port list"

record pod_condition =
  ConditionType :: string
  ConditionStatus :: string
  LastTransitionTime :: go_time

record pod = object_meta +
  NodeName :: string
  Containers :: "container list"
  Phase :: string
  PodIP :: string
  Conditions :: "pod_condition list"

subsection \<open>EndpointSlices\<close>

record object_reference =
  RefKind :: string
  RefNamespace :: string
  RefName :: string
  RefUID :: string

record endpoint =
  Addresses :: "string list"
  Ready :: "bool option"
  EndpointNodeName :: "string option"
  TargetRef :: "object_reference option"

record endpoint_port =
  EndpointPortName :: "string option"
  EndpointPortNumber :: "int option"
  EndpointPortProtocol :: "string option"

record endpoint_slice = object_meta +
  AddressType :: string
  Endpoints :: "endpoint list"
  EndpointPorts :: "endpoint_port list"

subsection \<open>Constants\<close>

definition AnnotationEnabledService :: string where
  "AnnotationEnabledService = ''zen-lead.io/enabled''"
definition AnnotationLeaderServiceNameService :: string where
  "AnnotationLeaderServiceNameService = ''zen-lead.io/leader-service-name''"
definition AnnotationStickyService :: string where
  "AnnotationStickyService = ''zen-lead.io/sticky''"
definition AnnotationMinReadyDurationService :: string where
  "AnnotationMinReadyDurationService = ''zen-lead.io/min-ready-duration''"
definition ServiceSuffixService :: string where
  "ServiceSuffixService = ''-leader''"
definition AnnotationLeaderPodName :: string where
  "AnnotationLeaderPodName = ''zen-lead.io/leader-pod-name''"
definition AnnotationLeaderPodUID :: string where
  "AnnotationLeaderPodUID = ''zen-lead.io/leader-pod-uid''"
definition AnnotationLeaderLastSwitchTime :: string where
  "AnnotationLeaderLastSwitchTime = ''zen-lead.io/leader-last-switch-time''"
definition AnnotationCurrentLeader :: string where
  "AnnotationCurrentLeader = ''zen-lead.io/current-leader''"
definition LabelManagedBy :: string where
  "LabelManagedBy = ''app.kubernetes.io/managed-by''"
definition LabelManagedByValue :: string where
  "LabelManagedByValue = ''zen-lead''"
definition LabelSourceService :: string where
  "LabelSourceService = ''zen-lead.io/source-service''"
definition LabelEndpointSliceManagedBy :: string where
  "LabelEndpointSliceManagedBy = ''endpointslice.kubernetes.io/managed-by''"
definition LabelEndpointSliceManagedByValue :: string where
  "LabelEndpointSliceManagedByValue = ''zen-lead''"

text \<open>Constants of the packages \<^verbatim>\<open>corev1\<close> and \<^verbatim>\<open>discoveryv1\<close>.\<close>

abbreviation "PodRunning \<equiv> ''Running''"
abbreviation "PodFailed \<equiv> ''Failed''"
abbreviation "PodSucceeded \<equiv> ''Succeeded''"
abbreviation "PodReady \<equiv> ''Ready''"
abbreviation "ConditionTrue \<equiv> ''True''"
abbreviation "ConditionFalse \<equiv> ''False''"
abbreviation "ClusterIPNone \<equiv> ''None''"
abbreviation "ServiceTypeClusterIP \<equiv> ''ClusterIP''"
abbreviation "EventTypeNormal \<equiv> ''Normal''"
abbreviation "EventTypeWarning \<equiv> ''Warning''"
abbreviation "AddressTypeIPv4 \<equiv> ''IPv4''"
abbreviation "AddressTypeIPv6 \<equiv> ''IPv6''"
abbreviation "LabelServiceName \<equiv> ''kubernetes.io/service-name''"

lemmas annotation_keys =
  AnnotationEnabledService_def AnnotationLeaderServiceNameService_def AnnotationStickyService_def
  AnnotationMinReadyDurationService_def AnnotationLeaderPodName_def AnnotationLeaderPodUID_def
  AnnotationLeaderLastSwitchTime_def AnnotationCurrentLeader_def

lemmas label_keys =
  LabelManagedBy_def LabelManagedByValue_def LabelSourceService_def
  LabelEndpointSliceManagedBy_def LabelEndpointSliceManagedByValue_def

text \<open>The cache key \<^verbatim>\<open>fmt.Sprintf("%s/%s", ns, name)\<close>.\<close>

definition service_key :: "string \<Rightarrow> string \<Rightarrow> string" where
  "service_key ns n = ns @ ''/'' @ n"

lemma service_key_inj:
  "CHR ''/'' \<notin> set ns \<Longrightarrow> CHR ''/'' \<notin> set ns' \<Longrightarrow>
   service_key ns n = service_key ns' n' \<longleftrightarrow> ns = ns' \<and> n = n'"
proof (induction ns arbitrary: ns')
  case Nil
  then show ?case by (cases ns') (auto simp: service_key_def)
next
  case (Cons c ns)
  then show ?case by (cases ns') (auto simp: service_key_def)
qed

end
