(* ===== verification/Metrics.thy ===== *)
theory Metrics
  imports GoStd
begin

text \<open>
  The recorder of \<^verbatim>\<open>pkg/metrics/metrics.go\<close>. The Prometheus client library keeps the series;
  the recorder only calls it, so a recorder method is the list of the calls it makes: an
  increment of a counter, a new value of a gauge, an observation of a histogram, or a call of the
  embedded zen-sdk recorder. Durations are in nanoseconds. What a counter or gauge shows after a
  list of calls is read off by \<open>counter_value\<close> and \<open>gauge_value\<close>, the documented meaning of
  \<^verbatim>\<open>Inc\<close> and \<^verbatim>\<open>Set\<close>.
\<close>

datatype metric_value = Seconds duration | Amount int

datatype metric_op =
    Inc string "string list"
  | Set_Gauge string "string list" metric_value
  | Observe string "string list" metric_value
  | SdkSuccess duration
  | SdkFailure duration
  | SdkError string

subsection \<open>The Record methods\<close>

definition RecordLeaderDuration :: "string \<Rightarrow> string \<Rightarrow> duration \<Rightarrow> metric_op list" where
  "RecordLeaderDuration namespace service d =
     [Set_Gauge ''zen_lead_leader_duration_seconds'' [namespace, service] (Seconds d)]"

definition RecordFailover :: "string \<Rightarrow> string \<Rightarrow> string \<Rightarrow> metric_op list" where
  "RecordFailover namespace service reason =
     [Inc ''zen_lead_failover_count_total'' [namespace, service, reason]]"

definition RecordReconciliationDuration ::
  "string \<Rightarrow> string \<Rightarrow> string \<Rightarrow> duration \<Rightarrow> metric_op list" where
  "RecordReconciliationDuration namespace service result d =
     (if result = ''success'' then [SdkSuccess d] else [SdkFailure d]) @
     [Observe ''zen_lead_reconciliation_duration_seconds'' [namespace, service, result] (Seconds d)]"

definition RecordPodsAvailable :: "string \<Rightarrow> string \<Rightarrow> nat \<Rightarrow> metric_op list" where
  "RecordPodsAvailable namespace service n =
     [Set_Gauge ''zen_lead_pods_available'' [namespace, service] (Amount (int n))]"

definition RecordPortResolutionFailure :: "string \<Rightarrow> string \<Rightarrow> string \<Rightarrow> metric_op list" where
  "RecordPortResolutionFailure namespace service portName =
     [Inc ''zen_lead_port_resolution_failures_total'' [namespace, service, portName]]"

definition RecordReconciliationError :: "string \<Rightarrow> string \<Rightarrow> string \<Rightarrow> metric_op list" where
  "RecordReconciliationError namespace service errorType =
     [SdkError ''reconciliation'',
      Inc ''zen_lead_reconciliation_errors_total'' [namespace, service, errorType]]"

definition ResetLeaderDuration :: "string \<Rightarrow> string \<Rightarrow> metric_op list" where
  "ResetLeaderDuration namespace service =
     [Set_Gauge ''zen_lead_leader_duration_seconds'' [namespace, service] (Seconds 0)]"

definition RecordLeaderServicesTotal :: "string \<Rightarrow> nat \<Rightarrow> metric_op list" where
  "RecordLeaderServicesTotal namespace n =
     [Set_Gauge ''zen_lead_leader_services_total'' [namespace] (Amount (int n))]"

definition RecordEndpointSlicesTotal :: "string \<Rightarrow> nat \<Rightarrow> metric_op list" where
  "RecordEndpointSlicesTotal namespace n =
     [Set_Gauge ''zen_lead_endpointslices_total'' [namespace] (Amount (int n))]"

definition RecordStickyLeaderHit :: "string \<Rightarrow> string \<Rightarrow> metric_op list" where
  "RecordStickyLeaderHit namespace service =
     [Inc ''zen_lead_sticky_leader_hits_total'' [namespace, service]]"

definition RecordStickyLeaderMiss :: "string \<Rightarrow> string \<Rightarrow> metric_op list" where
  "RecordStickyLeaderMiss namespace service =
     [Inc ''zen_lead_sticky_leader_misses_total'' [namespace, service]]"

definition RecordLeaderSelectionAttempt :: "string \<Rightarrow> string \<Rightarrow> metric_op list" where
  "RecordLeaderSelectionAttempt namespace service =
     [Inc ''zen_lead_leader_selection_attempts_total'' [namespace, service]]"

definition RecordLeaderPodAge :: "string \<Rightarrow> string \<Rightarrow> duration \<Rightarrow> metric_op list" where
  "RecordLeaderPodAge namespace service d =
     [Set_Gauge ''zen_lead_leader_pod_age_seconds'' [namespace, service] (Seconds d)]"

definition RecordLeaderServiceWithoutEndpoints ::
  "string \<Rightarrow> string \<Rightarrow> bool \<Rightarrow> metric_op list" where
  "RecordLeaderServiceWithoutEndpoints namespace service hasNoEndpoints =
     [Set_Gauge ''zen_lead_leader_service_without_endpoints'' [namespace, service]
        (Amount (if hasNoEndpoints then 1 else 0))]"

definition RecordReconciliation :: "string \<Rightarrow> string \<Rightarrow> string \<Rightarrow> metric_op list" where
  "RecordReconciliation namespace service result =
     [Inc ''zen_lead_reconciliations_total'' [namespace, service, result]]"

definition RecordLeaderStable :: "string \<Rightarrow> string \<Rightarrow> bool \<Rightarrow> metric_op list" where
  "RecordLeaderStable namespace service isStable =
     [Set_Gauge ''zen_lead_leader_stable'' [namespace, service] (Amount (if isStable then 1 else 0))]"

definition RecordEndpointWriteError :: "string \<Rightarrow> string \<Rightarrow> metric_op list" where
  "RecordEndpointWriteError namespace service =
     [Inc ''zen_lead_endpoint_write_errors_total'' [namespace, service]]"

definition RecordRetryAttempt ::
  "string \<Rightarrow> string \<Rightarrow> string \<Rightarrow> string \<Rightarrow> metric_op list" where
  "RecordRetryAttempt namespace service operation attempt =
     [Inc ''zen_lead_retry_attempts_total'' [namespace, service, operation, attempt]]"

definition RecordRetrySuccessAfterRetry :: "string \<Rightarrow> string \<Rightarrow> string \<Rightarrow> metric_op list" where
  "RecordRetrySuccessAfterRetry namespace service operation =
     [Inc ''zen_lead_retry_success_after_retry_total'' [namespace, service, operation]]"

definition RecordCacheSize :: "string \<Rightarrow> nat \<Rightarrow> metric_op list" where
  "RecordCacheSize namespace n =
     [Set_Gauge ''zen_lead_cache_size'' [namespace] (Amount (int n))]"

definition RecordCacheUpdateDuration :: "string \<Rightarrow> duration \<Rightarrow> metric_op list" where
  "RecordCacheUpdateDuration namespace d =
     [Observe ''zen_lead_cache_update_duration_seconds'' [namespace] (Seconds d)]"

definition RecordCacheHit :: "string \<Rightarrow> metric_op list" where
  "RecordCacheHit namespace = [Inc ''zen_lead_cache_hits_total'' [namespace]]"

definition RecordCacheMiss :: "string \<Rightarrow> metric_op list" where
  "RecordCacheMiss namespace = [Inc ''zen_lead_cache_misses_total'' [namespace]]"

definition RecordTimeout :: "string \<Rightarrow> string \<Rightarrow> metric_op list" where
  "RecordTimeout namespace operation =
     [Inc ''zen_lead_timeout_occurrences_total'' [namespace, operation]]"

definition RecordFailoverLatency ::
  "string \<Rightarrow> string \<Rightarrow> string \<Rightarrow> duration \<Rightarrow> metric_op list" where
  "RecordFailoverLatency namespace service reason d =
     [Observe ''zen_lead_failover_latency_seconds'' [namespace, service, reason] (Seconds d)]"

definition RecordAPICallDuration ::
  "string \<Rightarrow> string \<Rightarrow> string \<Rightarrow> string \<Rightarrow> duration \<Rightarrow> metric_op list" where
  "RecordAPICallDuration namespace service operation result d =
     [Observe ''zen_lead_api_call_duration_seconds'' [namespace, service, operation, result]
        (Seconds d)]"

lemmas record_defs =
  RecordLeaderDuration_def RecordFailover_def RecordReconciliationDuration_def
  RecordPodsAvailable_def RecordPortResolutionFailure_def RecordReconciliationError_def
  ResetLeaderDuration_def RecordLeaderServicesTotal_def RecordEndpointSlicesTotal_def
  RecordStickyLeaderHit_def RecordStickyLeaderMiss_def RecordLeaderSelectionAttempt_def
  RecordLeaderPodAge_def RecordLeaderServiceWithoutEndpoints_def RecordReconciliation_def
  RecordLeaderStable_def RecordEndpointWriteError_def RecordRetryAttempt_def
  RecordRetrySuccessAfterRetry_def RecordCacheSize_def RecordCacheUpdateDuration_def
  RecordCacheHit_def RecordCacheMiss_def RecordTimeout_def RecordFailoverLatency_def
  RecordAPICallDuration_def

subsection \<open>What the series show\<close>

fun counter_value :: "metric_op list \<Rightarrow> string \<Rightarrow> string list \<Rightarrow> nat" where
  "counter_value [] n ls = 0"
| "counter_value (Inc n' ls' # ops) n ls =
     (if n' = n \<and> ls' = ls then 1 else 0) + counter_value ops n ls"
| "counter_value (op # ops) n ls = counter_value ops n ls"

fun gauge_value :: "metric_op list \<Rightarrow> string \<Rightarrow> string list \<Rightarrow> metric_value option" where
  "gauge_value [] n ls = None"
| "gauge_value (Set_Gauge n' ls' v # ops) n ls =
     (case gauge_value ops n ls of
        Some w \<Rightarrow> Some w
      | None \<Rightarrow> if n' = n \<and> ls' = ls then Some v else None)"
| "gauge_value (op # ops) n ls = gauge_value ops n ls"

lemma counter_value_append [simp]:
  "counter_value (xs @ ys) n ls = counter_value xs n ls + counter_value ys n ls"
  by (induction xs n ls rule: counter_value.induct) auto

lemma gauge_value_append [simp]:
  "gauge_value (xs @ ys) n ls =
     (case gauge_value ys n ls of Some v \<Rightarrow> Some v | None \<Rightarrow> gauge_value xs n ls)"
  by (induction xs n ls rule: gauge_value.induct) (auto split: option.splits)

subsection \<open>The declared series\<close>

text \<open>
  \<^verbatim>\<open>NewRecorder\<close> declares each series with its kind and label names. The client library
  panics when \<^verbatim>\<open>WithLabelValues\<close> gets another number of values than the series has labels, so
  a call is well labelled when its series is declared with its kind and that many labels.
\<close>

datatype vec_kind = GaugeVec | CounterVec | HistogramVec

type_synonym series = "string \<times> vec_kind \<times> string list"

definition leader_series :: "series list" where
  "leader_series =
    [(''zen_lead_leader_duration_seconds'', GaugeVec, [''namespace'', ''service'']),
     (''zen_lead_failover_count_total'', CounterVec, [''namespace'', ''service'', ''reason'']),
     (''zen_lead_reconciliation_duration_seconds'', HistogramVec, [''namespace'', ''service'', ''result'']),
     (''zen_lead_pods_available'', GaugeVec, [''namespace'', ''service'']),
     (''zen_lead_port_resolution_failures_total'', CounterVec, [''namespace'', ''service'', ''port_name'']),
     (''zen_lead_reconciliation_errors_total'', CounterVec, [''namespace'', ''service'', ''error_type'']),
     (''zen_lead_leader_services_total'', GaugeVec, [''namespace'']),
     (''zen_lead_endpointslices_total'', GaugeVec, [''namespace'']),
     (''zen_lead_sticky_leader_hits_total'', CounterVec, [''namespace'', ''service'']),
     (''zen_lead_sticky_leader_misses_total'', CounterVec, [''namespace'', ''service'']),
     (''zen_lead_leader_selection_attempts_total'', CounterVec, [''namespace'', ''service'']),
     (''zen_lead_leader_pod_age_seconds'', GaugeVec, [''namespace'', ''service''])]"

definition api_series :: "series list" where
  "api_series =
    [(''zen_lead_leader_service_without_endpoints'', GaugeVec, [''namespace'', ''service'']),
     (''zen_lead_reconciliations_total'', CounterVec, [''namespace'', ''service'', ''result'']),
     (''zen_lead_leader_stable'', GaugeVec, [''namespace'', ''service'']),
     (''zen_lead_endpoint_write_errors_total'', CounterVec, [''namespace'', ''service'']),
     (''zen_lead_retry_attempts_total'', CounterVec, [''namespace'', ''service'', ''operation'', ''attempt'']),
     (''zen_lead_retry_success_after_retry_total'', CounterVec, [''namespace'', ''service'', ''operation'']),
     (''zen_lead_cache_size'', GaugeVec, [''namespace'']),
     (''zen_lead_cache_update_duration_seconds'', HistogramVec, [''namespace'']),
     (''zen_lead_cache_hits_total'', CounterVec, [''namespace'']),
     (''zen_lead_cache_misses_total'', CounterVec, [''namespace'']),
     (''zen_lead_timeout_occurrences_total'', CounterVec, [''namespace'', ''operation'']),
     (''zen_lead_failover_latency_seconds'', HistogramVec, [''namespace'', ''service'', ''reason'']),
     (''zen_lead_api_call_duration_seconds'', HistogramVec, [''namespace'', ''service'', ''operation'', ''result''])]"

definition declared_series :: "series list" where
  "declared_series = leader_series @ api_series"

definition well_labelled_as :: "vec_kind \<Rightarrow> string \<Rightarrow> string list \<Rightarrow> bool" where
  "well_labelled_as k n ls =
     (case map_of declared_series n of
        None \<Rightarrow> False
      | Some (k', names) \<Rightarrow> k' = k \<and> length names = length ls)"

fun well_labelled :: "metric_op \<Rightarrow> bool" where
  "well_labelled (Inc n ls) = well_labelled_as CounterVec n ls"
| "well_labelled (Set_Gauge n ls v) = well_labelled_as GaugeVec n ls"
| "well_labelled (Observe n ls v) = well_labelled_as HistogramVec n ls"
| "well_labelled (SdkSuccess d) = True"
| "well_labelled (SdkFailure d) = True"
| "well_labelled (SdkError e) = True"

lemma distinct_series: "distinct (map fst declared_series)"
  by (simp add: declared_series_def leader_series_def api_series_def)

lemma declared_lookup:
  "(n, k, names) \<in> set declared_series \<Longrightarrow> well_labelled_as k n ls \<longleftrightarrow> length names = length ls"
  using map_of_is_SomeI[OF distinct_series] by (fastforce simp: well_labelled_as_def)

lemma well_labelled_Nil: "list_all well_labelled []"
  by simp

lemma well_labelled_append:
  "list_all well_labelled xs \<Longrightarrow> list_all well_labelled ys \<Longrightarrow> list_all well_labelled (xs @ ys)"
  by simp

lemma records_well_labelled [simp]:
  "list_all well_labelled (RecordLeaderDuration namespace service d)"
  "list_all well_labelled (RecordFailover namespace service reason)"
  "list_all well_labelled (RecordReconciliationDuration namespace service result d)"
  "list_all well_labelled (RecordPodsAvailable namespace service n)"
  "list_all well_labelled (RecordPortResolutionFailure namespace service portName)"
  "list_all well_labelled (RecordReconciliationError namespace service errorType)"
  "list_all well_labelled (ResetLeaderDuration namespace service)"
  "list_all well_labelled (RecordLeaderServicesTotal namespace n)"
  "list_all well_labelled (RecordEndpointSlicesTotal namespace n)"
  "list_all well_labelled (RecordStickyLeaderHit namespace service)"
  "list_all well_labelled (RecordStickyLeaderMiss namespace service)"
  "list_all well_labelled (RecordLeaderSelectionAttempt namespace service)"
  "list_all well_labelled (RecordLeaderPodAge namespace service d)"
  "list_all well_labelled (RecordLeaderServiceWithoutEndpoints namespace service hasNoEndpoints)"
  "list_all well_labelled (RecordReconciliation namespace service result)"
  "list_all well_labelled (RecordLeaderStable namespace service isStable)"
  "list_all well_labelled (RecordEndpointWriteError namespace service)"
  "list_all well_labelled (RecordRetryAttempt namespace service operation attempt)"
  "list_all well_labelled (RecordRetrySuccessAfterRetry namespace service operation)"
  "list_all well_labelled (RecordCacheSize namespace n)"
  "list_all well_labelled (RecordCacheUpdateDuration namespace d)"
  "list_all well_labelled (RecordCacheHit namespace)"
  "list_all well_labelled (RecordCacheMiss namespace)"
  "list_all well_labelled (RecordTimeout namespace operation)"
  "list_all well_labelled (RecordFailoverLatency namespace service reason d)"
  "list_all well_labelled (RecordAPICallDuration namespace service operation result d)"
  by (simp_all add: record_defs well_labelled_as_def declared_series_def leader_series_def
      api_series_def)

subsection \<open>The getters\<close>

text \<open>The vectors the recorder hands to tests, each known by its declaration.\<close>

definition PodsAvailable :: series where
  "PodsAvailable = (''zen_lead_pods_available'', GaugeVec, [''namespace'', ''service''])"

definition ReconciliationsTotal :: series where
  "ReconciliationsTotal =
     (''zen_lead_reconciliations_total'', CounterVec, [''namespace'', ''service'', ''result''])"

definition LeaderSelectionAttemptsTotal :: series where
  "LeaderSelectionAttemptsTotal =
     (''zen_lead_leader_selection_attempts_total'', CounterVec, [''namespace'', ''service''])"

definition FailoverCountTotal :: series where
  "FailoverCountTotal =
     (''zen_lead_failover_count_total'', CounterVec, [''namespace'', ''service'', ''reason''])"

definition FailoverLatencySeconds :: series where
  "FailoverLatencySeconds =
     (''zen_lead_failover_latency_seconds'', HistogramVec, [''namespace'', ''service'', ''reason''])"

definition APICallDurationSeconds :: series where
  "APICallDurationSeconds =
     (''zen_lead_api_call_duration_seconds'', HistogramVec,
      [''namespace'', ''service'', ''operation'', ''result''])"

definition PortResolutionFailuresTotal :: series where
  "PortResolutionFailuresTotal =
     (''zen_lead_port_resolution_failures_total'', CounterVec, [''namespace'', ''service'', ''port_name''])"

lemmas getter_defs = PodsAvailable_def ReconciliationsTotal_def LeaderSelectionAttemptsTotal_def
  FailoverCountTotal_def FailoverLatencySeconds_def APICallDurationSeconds_def
  PortResolutionFailuresTotal_def

text \<open>Each one is registered, and is the vector that its Record method writes to.\<close>

fun writes_to :: "series \<Rightarrow> metric_op \<Rightarrow> bool" where
  "writes_to (n, k, names) (Inc n' ls) = (n' = n \<and> k = CounterVec \<and> length ls = length names)"
| "writes_to (n, k, names) (Set_Gauge n' ls v) = (n' = n \<and> k = GaugeVec \<and> length ls = length names)"
| "writes_to (n, k, names) (Observe n' ls v) = (n' = n \<and> k = HistogramVec \<and> length ls = length names)"
| "writes_to s op = False"

lemma getters_declared:
  "set [PodsAvailable, ReconciliationsTotal, LeaderSelectionAttemptsTotal, FailoverCountTotal,
     FailoverLatencySeconds, APICallDurationSeconds, PortResolutionFailuresTotal] \<subseteq> set declared_series"
  by (simp add: getter_defs declared_series_def leader_series_def api_series_def)

lemma getters_written:
  "list_all (writes_to PodsAvailable) (RecordPodsAvailable ns svc n)"
  "list_all (writes_to ReconciliationsTotal) (RecordReconciliation ns svc result)"
  "list_all (writes_to LeaderSelectionAttemptsTotal) (RecordLeaderSelectionAttempt ns svc)"
  "list_all (writes_to FailoverCountTotal) (RecordFailover ns svc reason)"
  "list_all (writes_to FailoverLatencySeconds) (RecordFailoverLatency ns svc reason d)"
  "list_all (writes_to APICallDurationSeconds) (RecordAPICallDuration ns svc operation result d)"
  "list_all (writes_to PortResolutionFailuresTotal) (RecordPortResolutionFailure ns svc port)"
  by (simp_all add: getter_defs record_defs)

end
