(* ===== verification/Kube.thy ===== *)
theory Kube
  imports Objects Metrics
begin

text \<open>
  The world the controller runs in. The API server, the clock and the helpers of the zen-sdk and
  apimachinery packages are not part of the program: they are the fields of a record \<open>kube\<close> over an
  arbitrary type of worlds, and every handler takes that record as an argument. An operation of
  the API server maps its arguments and the world to its answer and the next world, so the
  answers can be anything the server may say, faults and stale reads included.

  The state of a run holds the world, the log of the API calls with their answers, the events and
  metrics emitted so far, and the reconciler's two caches. Log lines and tracing spans are left
  out; they change nothing the program reads.
\<close>

subsection \<open>The parameters\<close>

datatype api_err = NotFound | AlreadyExists | Conflict | ApiFailure string

text \<open>\<^verbatim>\<open>client.IgnoreNotFound(err) == nil\<close> for a non-nil error.\<close>

definition is_not_found :: "api_err \<Rightarrow> bool" where
  "is_not_found e \<longleftrightarrow> e = NotFound"

text \<open>\<^verbatim>\<open>retry.Config\<close>, without the predicate of retryable errors, which stays in the zen-sdk.\<close>

record retry_config =
  MaxAttempts :: int
  InitialDelay :: duration
  MaxDelay :: duration
  Multiplier :: int

record cached_service =
  cs_name :: string
  cs_selector :: strmap
  cs_lastAccess :: go_time

text \<open>
  \<^verbatim>\<open>retry.Do\<close> of the zen-sdk is known by what it may do with the function it gets: call it, and see
  the error; look at the world; let something happen to the world, such as time passing; and give up
  with an error. It returns nil when a call of the function returns nil, and never otherwise. How
  often it calls the function, which errors it retries, what it waits for and what it looks at are
  open: a value of this type is any program of this kind that ends.
\<close>

datatype 'w retrier =
    GiveUp api_err
  | Attempt "api_err \<Rightarrow> 'w retrier"
  | Observe "'w \<Rightarrow> 'w retrier"
  | Wait "'w \<Rightarrow> 'w" "'w retrier"

text \<open>What it may do to the world between two calls.\<close>

primrec waits :: "'w retrier \<Rightarrow> ('w \<Rightarrow> 'w) set" where
  "waits (GiveUp e) = {}"
| "waits (Attempt f) = (\<Union>e. waits (f e))"
| "waits (Observe g) = (\<Union>w. waits (g w))"
| "waits (Wait h p) = insert h (waits p)"

text \<open>
  \<open>SortTies\<close> orders what \<^verbatim>\<open>sort.Slice\<close> finds equal: any result that it may have is the one for some
  value of this field.
\<close>

record 'w kube =
  GetService :: "nsname \<Rightarrow> 'w \<Rightarrow> (api_err + service) \<times> 'w"
  GetPod :: "nsname \<Rightarrow> 'w \<Rightarrow> (api_err + pod) \<times> 'w"
  GetSlice :: "nsname \<Rightarrow> 'w \<Rightarrow> (api_err + endpoint_slice) \<times> 'w"
  ListPods :: "string \<Rightarrow> strmap \<Rightarrow> 'w \<Rightarrow> (api_err + pod list) \<times> 'w"
  ListServices :: "string \<Rightarrow> strmap \<Rightarrow> 'w \<Rightarrow> (api_err + service list) \<times> 'w"
  ListSlices :: "string \<Rightarrow> strmap \<Rightarrow> 'w \<Rightarrow> (api_err + endpoint_slice list) \<times> 'w"
  CreateService :: "service \<Rightarrow> 'w \<Rightarrow> (api_err + unit) \<times> 'w"
  PatchService :: "service \<Rightarrow> service \<Rightarrow> 'w \<Rightarrow> (api_err + unit) \<times> 'w"
  DeleteService :: "service \<Rightarrow> 'w \<Rightarrow> (api_err + unit) \<times> 'w"
  CreateSlice :: "endpoint_slice \<Rightarrow> 'w \<Rightarrow> (api_err + unit) \<times> 'w"
  PatchSlice :: "endpoint_slice \<Rightarrow> endpoint_slice \<Rightarrow> 'w \<Rightarrow> (api_err + unit) \<times> 'w"
  DeleteSlice :: "endpoint_slice \<Rightarrow> 'w \<Rightarrow> (api_err + unit) \<times> 'w"
  Now :: "'w \<Rightarrow> go_time \<times> 'w"
  RetryDo :: "retry_config \<Rightarrow> 'w retrier"
  DefaultRetry :: retry_config
  DeadlineExceeded :: "'w \<Rightarrow> bool"
  SelectorMatches :: "strmap \<Rightarrow> strmap \<Rightarrow> bool"
  IsDNS1123Label :: "string \<Rightarrow> string list"
  IsDNS1123Subdomain :: "string \<Rightarrow> string list"
  FormatRFC3339 :: "go_time \<Rightarrow> string"
  FracUnits :: "int \<Rightarrow> int \<Rightarrow> int \<Rightarrow> nat"
  SortTies :: "cached_service list \<Rightarrow> cached_service \<Rightarrow> nat"

subsection \<open>The state of a run\<close>

datatype api_call =
    CallGetService nsname "api_err + service"
  | CallGetPod nsname "api_err + pod"
  | CallGetSlice nsname "api_err + endpoint_slice"
  | CallListPods string strmap "api_err + pod list"
  | CallListServices string strmap "api_err + service list"
  | CallListSlices string strmap "api_err + endpoint_slice list"
  | CallCreateService service "api_err + unit"
  | CallPatchService service service "api_err + unit"
  | CallDeleteService service "api_err + unit"
  | CallCreateSlice endpoint_slice "api_err + unit"
  | CallPatchSlice endpoint_slice endpoint_slice "api_err + unit"
  | CallDeleteSlice endpoint_slice "api_err + unit"

text \<open>An event names its object, its type and its reason; the message text is left out.\<close>

datatype kube_event = Event nsname string string

record cached_leader_pod =
  clp_pod :: pod
  clp_expiresAt :: go_time
  clp_serviceKey :: string

text \<open>
  \<open>Metrics\<close> and \<open>leaderPodCache\<close> are \<open>None\<close> for the nil recorder and the nil map of a reconciler
  without metrics or without the leader pod cache.
\<close>

record 'w sys =
  world :: 'w
  calls :: "api_call list"
  events :: "kube_event list"
  Metrics :: "metric_op list option"
  optedInServicesCache :: "(string \<times> cached_service list) list"
  leaderPodCache :: "(string \<times> cached_leader_pod) list option"

text \<open>The configuration fields of \<^verbatim>\<open>ServiceDirectorReconciler\<close>, fixed when it is built.\<close>

record director_config =
  maxCacheSizePerNamespace :: int
  maxConcurrentReconciles :: int
  cacheUpdateTimeout :: duration
  metricsCollectionTimeout :: duration
  fastRetryConfig :: retry_config
  enableParallelAPICalls :: bool
  leaderPodCacheTTL :: duration

subsection \<open>Elementary effects\<close>

definition perform :: "('w \<Rightarrow> 'r \<times> 'w) \<Rightarrow> ('r \<Rightarrow> api_call list) \<Rightarrow> ('w sys, 'r) state" where
  "perform f log = State (\<lambda>s. case f (world s) of
     (r, w) \<Rightarrow> (r, s\<lparr>world := w, calls := calls s @ log r\<rparr>))"

definition now :: "'w kube \<Rightarrow> ('w sys, go_time) state" where
  "now K = perform (Now K) (\<lambda>_. [])"

definition since :: "'w kube \<Rightarrow> go_time \<Rightarrow> ('w sys, duration) state" where
  "since K t = do { u \<leftarrow> now K; ret (time_Sub u t) }"

text \<open>A call of the recorder behind the test \<^verbatim>\<open>if r.Metrics != nil\<close>.\<close>

definition metric :: "metric_op list \<Rightarrow> ('w sys, unit) state" where
  "metric ops = modify (\<lambda>s. s\<lparr>Metrics := map_option (\<lambda>l. l @ ops) (Metrics s)\<rparr>)"

definition emit_event ::
  "('a) object_meta_scheme \<Rightarrow> string \<Rightarrow> string \<Rightarrow> ('w sys, unit) state" where
  "emit_event ob ty reason = modify (\<lambda>s. s\<lparr>events := events s @ [Event (object_key ob) ty reason]\<rparr>)"

definition elapse :: "('w \<Rightarrow> 'w) \<Rightarrow> ('w sys, unit) state" where
  "elapse h = modify (\<lambda>s. s\<lparr>world := h (world s)\<rparr>)"

lemma run_perform [simp]:
  "run_state (perform f log) s =
     (fst (f (world s)), s\<lparr>world := snd (f (world s)), calls := calls s @ log (fst (f (world s)))\<rparr>)"
  by (simp add: perform_def split: prod.splits)

lemma run_elapse [simp]: "run_state (elapse h) s = ((), s\<lparr>world := h (world s)\<rparr>)"
  by (simp add: elapse_def)

lemma run_now: "run_state (now K) s = (fst (Now K (world s)), s\<lparr>world := snd (Now K (world s))\<rparr>)"
  by (simp add: now_def)

lemma run_metric [simp]:
  "run_state (metric ops) s = ((), s\<lparr>Metrics := map_option (\<lambda>l. l @ ops) (Metrics s)\<rparr>)"
  by (simp add: metric_def)

lemma run_emit_event [simp]:
  "run_state (emit_event ob ty reason) s =
     ((), s\<lparr>events := events s @ [Event (object_key ob) ty reason]\<rparr>)"
  by (simp add: emit_event_def)

subsection \<open>Background steps\<close>

text \<open>
  Reading the clock, waiting between two attempts and recording a metric happen around every API
  call. They touch the world and the metrics only, and what they record is well labelled.
\<close>

inductive background :: "'w kube \<Rightarrow> 'w sys \<Rightarrow> 'w sys \<Rightarrow> bool" for K :: "'w kube" where
  clock: "background K s (s\<lparr>world := snd (Now K (world s))\<rparr>)"
| wait: "h \<in> waits (RetryDo K cfg) \<Longrightarrow> background K s (s\<lparr>world := h (world s)\<rparr>)"
| count: "list_all well_labelled ops \<Longrightarrow>
    background K s (s\<lparr>Metrics := map_option (\<lambda>l. l @ ops) (Metrics s)\<rparr>)"

inductive_cases backgroundE: "background K s t"

lemma background_fields:
  assumes "background K s t"
  shows "calls t = calls s" and "events t = events s"
    and "optedInServicesCache t = optedInServicesCache s"
    and "leaderPodCache t = leaderPodCache s"
  using assms by (auto elim: backgroundE)

text \<open>A condition that background steps keep.\<close>

definition steady :: "'w kube \<Rightarrow> ('w sys \<Rightarrow> bool) \<Rightarrow> bool" where
  "steady K I \<longleftrightarrow> (\<forall>s t. background K s t \<longrightarrow> I s \<longrightarrow> I t)"

lemma steadyI: "(\<And>s t. background K s t \<Longrightarrow> I s \<Longrightarrow> I t) \<Longrightarrow> steady K I"
  by (auto simp: steady_def)

lemma steadyD: "steady K I \<Longrightarrow> background K s t \<Longrightarrow> I s \<Longrightarrow> I t"
  by (auto simp: steady_def)

lemma steady_conj: "steady K I \<Longrightarrow> steady K J \<Longrightarrow> steady K (\<lambda>s. I s \<and> J s)"
  by (auto simp: steady_def)

lemma steady_now: "steady K I \<Longrightarrow> triple I (now K) (\<lambda>_. I)"
  by (auto simp: steady_def triple_def run_now intro: background.clock)

lemma steady_wait:
  "steady K I \<Longrightarrow> h \<in> waits (RetryDo K cfg) \<Longrightarrow> triple I (elapse h) (\<lambda>_. I)"
  by (auto simp: steady_def triple_def intro: background.wait)

lemma steady_metric:
  "steady K I \<Longrightarrow> list_all well_labelled ops \<Longrightarrow> triple I (metric ops) (\<lambda>_. I)"
  by (auto simp: steady_def triple_def intro: background.count)

lemma steady_since: "steady K I \<Longrightarrow> triple I (since K t) (\<lambda>_. I)"
  unfolding since_def by (rule triple_bind[OF steady_now]) (auto simp: triple_def)

text \<open>An evolution of the state that contains the background steps.\<close>

locale system_evolution = evolution rel
  for rel :: "'w sys \<Rightarrow> 'w sys \<Rightarrow> bool" +
  fixes K :: "'w kube"
  assumes rel_background: "background K s t \<Longrightarrow> rel s t"
begin

lemma keeps_now: "state_io_rel rel (now K)"
  by (auto simp: state_io_rel_def run_now intro: rel_background background.clock)

lemma keeps_metric: "list_all well_labelled ops \<Longrightarrow> state_io_rel rel (metric ops)"
  by (auto simp: state_io_rel_def intro: rel_background background.count)

lemma keeps_since: "state_io_rel rel (since K t)"
  by (auto simp: since_def intro: keeps_bind keeps_now keeps_return)

lemmas keeps_effects = keeps_now keeps_metric keeps_since

end

text \<open>The API log and the events only grow, and the caches change only where the code writes them.\<close>

interpretation call_log: system_evolution "appends calls ok" K for ok K
  by unfold_locales (auto intro: appends_same dest: background_fields)

interpretation event_log: system_evolution "appends events ok" K for ok K
  by unfold_locales (auto intro: appends_same dest: background_fields)

interpretation opted_in_same: system_evolution "same optedInServicesCache" K for K
  by unfold_locales (auto simp: same_def dest: background_fields)

interpretation leader_cache_same: system_evolution "same leaderPodCache" K for K
  by unfold_locales (auto simp: same_def dest: background_fields)

text \<open>The recorder only ever gets calls that its series accept.\<close>

definition records_ok :: "'w sys \<Rightarrow> 'w sys \<Rightarrow> bool" where
  "records_ok s t \<longleftrightarrow>
     (case Metrics s of
        None \<Rightarrow> Metrics t = None
      | Some ops \<Rightarrow> \<exists>new. Metrics t = Some (ops @ new) \<and> list_all well_labelled new)"

interpretation recorded: system_evolution records_ok K for K
proof
  fix s t u :: "'a sys" and K :: "'a kube"
  show "records_ok s s" by (auto simp: records_ok_def split: option.splits)
  show "records_ok s u" if "records_ok s t" "records_ok t u"
    using that by (auto simp: records_ok_def split: option.splits)
  show "records_ok s t" if "background K s t"
    using that by (cases rule: background.cases) (auto simp: records_ok_def split: option.splits)
qed

end
