(* ===== verification/Retry.thy ===== *)
theory Retry
  imports Kube
begin

text \<open>
  \<^verbatim>\<open>retryDoWithMetrics\<close> of \<^verbatim>\<open>pkg/director/retry_metrics.go\<close> around \<^verbatim>\<open>retry.Do\<close> of the zen-sdk, which
  is the parameter \<open>RetryDo\<close> of theory Kube: any program that may call the function it gets.
  \<open>run_retrier\<close> lets such a program run: \<open>look\<close> and \<open>wait\<close> are its access to the world in a state, and
  \<open>fn\<close> is the function.

  The function is a state transformer with an error or a value as its result, the value being
  what the Go closure stores in a captured variable. The local variables of
  \<^verbatim>\<open>retryDoWithMetrics\<close> which its closure updates are a second component of the state.
\<close>

primrec run_retrier ::
  "('s \<Rightarrow> 'w) \<Rightarrow> (('w \<Rightarrow> 'w) \<Rightarrow> ('s, unit) state) \<Rightarrow> ('s, api_err + 'a) state \<Rightarrow>
   'w retrier \<Rightarrow> ('s, api_err + 'a) state" where
  "run_retrier look wait fn (GiveUp e) = ret (Inl e)"
| "run_retrier look wait fn (Attempt f) =
     do { r \<leftarrow> fn;
          case r of
            Inr a \<Rightarrow> ret (Inr a)
          | Inl e \<Rightarrow> run_retrier look wait fn (f e) }"
| "run_retrier look wait fn (Observe g) = do { w \<leftarrow> gets look; run_retrier look wait fn (g w) }"
| "run_retrier look wait fn (Wait h p) = do { wait h; run_retrier look wait fn p }"

record retry_locals =
  attemptCount :: nat
  succeededAfterRetry :: bool

definition is_error :: "api_err + 'a \<Rightarrow> bool" where
  "is_error r = (case r of Inl e \<Rightarrow> True | Inr a \<Rightarrow> False)"

lemma is_error_simps [simp]: "is_error (Inl e)" "\<not> is_error (Inr a)"
  by (simp_all add: is_error_def)

definition wrappedFn ::
  "retry_config \<Rightarrow> ('w sys, api_err + 'a) state \<Rightarrow> string \<Rightarrow> string \<Rightarrow> string \<Rightarrow>
   ('w sys \<times> retry_locals, api_err + 'a) state" where
  "wrappedFn cfg fn ns service operation =
     do { modify (\<lambda>(s, l). (s, l\<lparr>attemptCount := attemptCount l + 1\<rparr>));
          r \<leftarrow> on_fst fn;
          l \<leftarrow> gets snd;
          if attemptCount l = 1 then
            do { onlyif (is_error r) (on_fst (metric (RecordRetryAttempt ns service operation ''1'')));
                 ret r }
          else
            do { on_fst (metric (RecordRetryAttempt ns service operation
                   (if int (attemptCount l) \<ge> MaxAttempts cfg then ''max''
                    else decimal (attemptCount l))));
                 onlyif (\<not> is_error r \<and> attemptCount l > 1)
                   (modify (\<lambda>(s, l). (s, l\<lparr>succeededAfterRetry := True\<rparr>)));
                 ret r } }"

definition with_locals ::
  "'l \<Rightarrow> ('s \<times> 'l, 'a) state \<Rightarrow> ('s, 'a \<times> 'l) state" where
  "with_locals l0 m = State (\<lambda>s. case run_state m (s, l0) of (a, (s', l)) \<Rightarrow> ((a, l), s'))"

definition retryDoWithMetrics ::
  "'w kube \<Rightarrow> retry_config \<Rightarrow> ('w sys, api_err + 'a) state \<Rightarrow> string \<Rightarrow> string \<Rightarrow> string \<Rightarrow>
   ('w sys, api_err + 'a) state" where
  "retryDoWithMetrics K cfg fn ns service operation =
     do { recorder \<leftarrow> gets Metrics;
          if recorder = None then run_retrier world elapse fn (RetryDo K cfg)
          else
            do { startTime \<leftarrow> now K;
                 (r, l) \<leftarrow> with_locals \<lparr>attemptCount = 0, succeededAfterRetry = False\<rparr>
                   (run_retrier (\<lambda>sl. world (fst sl)) (\<lambda>h. on_fst (elapse h))
                     (wrappedFn cfg fn ns service operation) (RetryDo K cfg));
                 d \<leftarrow> since K startTime;
                 metric (RecordAPICallDuration ns service operation
                   (if is_error r then ''error'' else ''success'') d);
                 onlyif (succeededAfterRetry l)
                   (metric (RecordRetrySuccessAfterRetry ns service operation));
                 onlyif (is_error r \<and> int (attemptCount l) \<ge> MaxAttempts cfg)
                   (metric (RecordRetryAttempt ns service operation ''max''));
                 ret r } }"

lemma run_with_locals [simp]:
  "run_state (with_locals l0 m) s =
     ((fst (run_state m (s, l0)), snd (snd (run_state m (s, l0)))), fst (snd (run_state m (s, l0))))"
  by (simp add: with_locals_def split: prod.splits)

subsection \<open>Triples for retried calls\<close>

text \<open>
  The condition on the result of a call that may fail: \<open>I\<close> after an error, which satisfies \<open>E\<close>,
  and \<open>Q a\<close> after \<open>a\<close>. A retrier passes \<open>E\<close> on when it gives up only with errors that satisfy it,
  as long as the errors it has seen do.
\<close>

definition outcome ::
  "(api_err \<Rightarrow> bool) \<Rightarrow> ('s \<Rightarrow> bool) \<Rightarrow> ('a \<Rightarrow> 's \<Rightarrow> bool) \<Rightarrow> api_err + 'a \<Rightarrow> 's \<Rightarrow> bool" where
  "outcome E I Q r s = (case r of Inl e \<Rightarrow> E e \<and> I s | Inr a \<Rightarrow> Q a s)"

lemma outcome_simps [simp]:
  "outcome E I Q (Inl e) s \<longleftrightarrow> E e \<and> I s" "outcome E I Q (Inr a) s = Q a s"
  by (simp_all add: outcome_def)

abbreviation any_error :: "api_err \<Rightarrow> bool" where
  "any_error \<equiv> \<lambda>_. True"

primrec passes :: "(api_err \<Rightarrow> bool) \<Rightarrow> 'w retrier \<Rightarrow> bool" where
  "passes E (GiveUp e) = E e"
| "passes E (Attempt f) = (\<forall>e. E e \<longrightarrow> passes E (f e))"
| "passes E (Observe g) = (\<forall>w. passes E (g w))"
| "passes E (Wait h p) = passes E p"

definition passes_on :: "'w kube \<Rightarrow> (api_err \<Rightarrow> bool) \<Rightarrow> bool" where
  "passes_on K E \<longleftrightarrow> (\<forall>cfg. passes E (RetryDo K cfg))"

lemma passes_any [simp]: "passes any_error p"
  by (induction p) simp_all

lemma passes_on_any [simp]: "passes_on K any_error"
  by (simp add: passes_on_def)

text \<open>It gives up only with errors that it was given. So it has called the function before.\<close>

primrec gives_back :: "api_err set \<Rightarrow> 'w retrier \<Rightarrow> bool" where
  "gives_back es (GiveUp e) = (e \<in> es)"
| "gives_back es (Attempt f) = (\<forall>e. gives_back (insert e es) (f e))"
| "gives_back es (Observe g) = (\<forall>w. gives_back es (g w))"
| "gives_back es (Wait h p) = gives_back es p"

lemma gives_back_passes: "gives_back es p \<Longrightarrow> (\<And>e. e \<in> es \<Longrightarrow> E e) \<Longrightarrow> passes E p"
proof (induction p arbitrary: es)
  case (Attempt f)
  have "passes E (f e)" if "E e" for e
    using Attempt.prems that by (intro Attempt.IH[of _ "insert e es"]) auto
  then show ?case by simp
next
  case (Observe g)
  then show ?case by auto
qed auto

lemma outcome_cases: "(\<And>e. r = Inl e \<Longrightarrow> P) \<Longrightarrow> (\<And>a. r = Inr a \<Longrightarrow> P) \<Longrightarrow> P"
  by (cases r) auto

lemma triple_retrier:
  assumes fn: "triple I fn (outcome E I Q)"
    and "\<And>h. h \<in> waits p \<Longrightarrow> triple I (wait h) (\<lambda>_. I)" and "passes E p"
  shows "triple I (run_retrier look wait fn p) (outcome E I Q)"
  using assms(2,3)
proof (induction p)
  case (GiveUp e)
  then show ?case by (simp add: triple_def)
next
  case (Attempt f)
  have "triple (outcome E I Q r) (case r of Inr a \<Rightarrow> ret (Inr a)
      | Inl e \<Rightarrow> run_retrier look wait fn (f e)) (outcome E I Q)" for r
  proof (cases r)
    case (Inl e)
    have "E e \<Longrightarrow> triple I (run_retrier look wait fn (f e)) (outcome E I Q)"
      using Attempt.prems by (intro Attempt.IH) auto
    then show ?thesis by (auto simp: Inl triple_def)
  qed (simp add: triple_def)
  then show ?case unfolding run_retrier.simps by (rule triple_bind[OF fn])
next
  case (Observe g)
  have "triple I (run_retrier look wait fn (g w)) (outcome E I Q)" for w
    using Observe.prems by (intro Observe.IH) auto
  then show ?case by (auto simp: triple_def)
next
  case (Wait h p)
  have "triple I (run_retrier look wait fn p) (outcome E I Q)"
    using Wait.prems by (intro Wait.IH) auto
  then show ?case unfolding run_retrier.simps
    by (intro triple_bind[OF Wait.prems(1)]) simp_all
qed

lemma triple_on_fst:
  "triple I m Q \<Longrightarrow> triple (\<lambda>sl. I (fst sl)) (on_fst m) (\<lambda>r sl. Q r (fst sl))"
  by (fastforce simp: triple_def split: prod.splits)

text \<open>
  The rule for every retried call: a steady condition that a failed attempt keeps, and that a
  successful one turns into a steady \<open>Q\<close>.
\<close>

lemma steady_outcome:
  "steady K I \<Longrightarrow> (\<And>a. steady K (Q a)) \<Longrightarrow> steady K (outcome E I Q r)"
  by (cases r) (auto simp: steady_def)

lemma steady_metrics_update:
  "steady K I \<Longrightarrow> list_all well_labelled ops \<Longrightarrow> I s \<Longrightarrow>
   I (s\<lparr>Metrics := map_option (\<lambda>l. l @ ops) (Metrics s)\<rparr>)"
  by (rule steadyD[OF _ background.count])

lemma triple_wrappedFn:
  assumes "steady K I" and "\<And>a. steady K (Q a)" and fn: "triple I fn (outcome E I Q)"
  shows "triple (\<lambda>sl. I (fst sl)) (wrappedFn cfg fn ns service operation)
           (outcome E (\<lambda>sl. I (fst sl)) (\<lambda>a sl. Q a (fst sl)))"
proof (rule tripleI)
  fix sl r sl'
  assume I: "I (fst sl)" and run: "run_state (wrappedFn cfg fn ns service operation) sl = (r, sl')"
  obtain s l where sl: "sl = (s, l)" by (cases sl)
  obtain r' t where t: "run_state fn s = (r', t)" by (cases "run_state fn s")
  have post: "outcome E I Q r' t" using tripleD[OF fn _ t] I sl by simp
  have recorded: "outcome E I Q r' (t\<lparr>Metrics := map_option (\<lambda>l. l @
      RecordRetryAttempt ns service operation a) (Metrics t)\<rparr>)" for a
    by (rule steady_metrics_update[OF steady_outcome[OF assms(1,2)] _ post]) simp
  have "outcome E I Q r (fst sl')"
    using run sl t post recorded by (auto simp: wrappedFn_def split: if_splits)
  then show "outcome E (\<lambda>sl. I (fst sl)) (\<lambda>a sl. Q a (fst sl)) r sl'"
    by (cases r) simp_all
qed

lemma triple_with_locals:
  assumes "triple (\<lambda>sl. I (fst sl)) m (\<lambda>r sl. Q r (fst sl))"
  shows "triple I (with_locals l0 m) (\<lambda>rl. Q (fst rl))"
proof (rule tripleI)
  fix s rl s'
  assume "I s" and "run_state (with_locals l0 m) s = (rl, s')"
  then show "Q (fst rl) s'"
    using tripleD[OF assms, of "(s, l0)"] by (cases "run_state m (s, l0)") auto
qed

lemma triple_retry:
  assumes I: "steady K I" and Q: "\<And>a. steady K (Q a)" and fn: "triple I fn (outcome E I Q)"
    and E: "passes_on K E"
  shows "triple I (retryDoWithMetrics K cfg fn ns service operation) (outcome E I Q)"
proof -
  let ?loop = "run_retrier (\<lambda>sl. world (fst sl)) (\<lambda>h. on_fst (elapse h))
                 (wrappedFn cfg fn ns service operation) (RetryDo K cfg)"
  have passes: "passes E (RetryDo K cfg)" using E by (simp add: passes_on_def)
  have post: "steady K (outcome E I Q r)" for r by (rule steady_outcome[OF I Q])
  have plain: "triple I (run_retrier world elapse fn (RetryDo K cfg)) (outcome E I Q)"
    by (rule triple_retrier[OF fn steady_wait[OF I] passes])
  have "triple (\<lambda>sl. I (fst sl)) ?loop (outcome E (\<lambda>sl. I (fst sl)) (\<lambda>a sl. Q a (fst sl)))"
    by (rule triple_retrier[OF triple_wrappedFn[OF I Q fn] triple_on_fst[OF steady_wait[OF I]] passes])
  then have locals: "triple I (with_locals l0 ?loop) (\<lambda>rl. outcome E I Q (fst rl))" for l0
    by (intro triple_with_locals) (fastforce simp: triple_def outcome_def split: sum.splits)
  have tail: "triple (outcome E I Q r) (do { d \<leftarrow> since K t0; metric (m1 d); onlyif b2 (metric m2);
      onlyif b3 (metric m3); ret r }) (outcome E I Q)"
    if "\<And>d. list_all well_labelled (m1 d)" "list_all well_labelled m2" "list_all well_labelled m3"
    for r t0 m1 b2 m2 b3 m3
    by (rule triple_bind[OF steady_since[OF post]],
        rule triple_bind[OF steady_metric[OF post that(1)]],
        rule triple_bind[OF triple_onlyif[OF steady_metric[OF post that(2)]]], assumption,
        rule triple_bind[OF triple_onlyif[OF steady_metric[OF post that(3)]]], assumption,
        rule triple_return)
  show ?thesis unfolding retryDoWithMetrics_def
  proof (rule triple_bind[where R = "\<lambda>_. I"])
    fix recorder :: "metric_op list option"
    have "triple I (do { startTime \<leftarrow> now K; (r, l) \<leftarrow> with_locals l0 ?loop;
        d \<leftarrow> since K startTime; metric (m1 r d); onlyif (b2 l) (metric m2);
        onlyif (b3 r l) (metric m3); ret r }) (outcome E I Q)"
      if "\<And>r d. list_all well_labelled (m1 r d)" "list_all well_labelled m2"
        "list_all well_labelled m3"
      for l0 m1 b2 m2 b3 m3
      by (rule triple_bind[OF steady_now[OF I]], rule triple_bind[OF locals], clarsimp,
          rule tail[OF that])
    note metered = this
    show "triple I (if recorder = None then run_retrier world elapse fn (RetryDo K cfg)
      else do { startTime \<leftarrow> now K; (r, l) \<leftarrow> with_locals
          \<lparr>attemptCount = 0, succeededAfterRetry = False\<rparr> ?loop; d \<leftarrow> since K startTime;
        metric (RecordAPICallDuration ns service operation
          (if is_error r then ''error'' else ''success'') d);
        onlyif (succeededAfterRetry l) (metric (RecordRetrySuccessAfterRetry ns service operation));
        onlyif (is_error r \<and> int (attemptCount l) \<ge> MaxAttempts cfg)
          (metric (RecordRetryAttempt ns service operation ''max'')); ret r }) (outcome E I Q)"
      by (rule triple_if[OF plain], rule metered) simp_all
  qed (simp add: triple_def)
qed

text \<open>Rules for evolutions: a retried call keeps what a single call keeps.\<close>

context system_evolution
begin

lemma keeps_retry:
  assumes "state_io_rel rel fn"
  shows "state_io_rel rel (retryDoWithMetrics K cfg fn ns service operation)"
proof (rule state_io_relI)
  fix r s0 s
  assume run: "run_state (retryDoWithMetrics K cfg fn ns service operation) s0 = (r, s)"
  have "steady K (rel s0)"
    by (rule steadyI) (blast intro: rel_background rel_trans)
  moreover have "triple (rel s0) fn (outcome any_error (rel s0) (\<lambda>_. rel s0))"
    using assms by (auto simp: triple_def outcome_def state_io_rel_def split: sum.splits prod.splits)
      (metis rel_trans snd_conv)+
  ultimately have "outcome any_error (rel s0) (\<lambda>_. rel s0) r s"
    by (intro tripleD[OF triple_retry _ run] rel_refl passes_on_any)
  then show "rel s0 s" by (cases r) auto
qed

end

lemma retry_success:
  assumes "\<And>s a s'. run_state fn s = (Inr a, s') \<Longrightarrow> P a"
    and "run_state (retryDoWithMetrics K cfg fn ns service operation) s = (Inr a, s')"
  shows "P a"
proof -
  have "triple (\<lambda>_. True) fn (outcome any_error (\<lambda>_. True) (\<lambda>a _. P a))"
    using assms(1) by (auto simp: triple_def outcome_def split: sum.splits prod.splits)
  from tripleD[OF triple_retry[OF _ _ this] _ assms(2)] show ?thesis
    by (simp add: steady_def)
qed

text \<open>An answer of a retried API call is in the log.\<close>

lemma retry_logged:
  assumes "run_state (retryDoWithMetrics K cfg (perform f log) ns service operation) s = (Inr a, s')"
  shows "\<exists>new. calls s' = calls s @ new \<and> set (log (Inr a)) \<subseteq> set new"
proof -
  let ?I = "\<lambda>t. \<exists>new. calls t = calls s @ new"
  let ?Q = "\<lambda>a t. \<exists>new. calls t = calls s @ new \<and> set (log (Inr a)) \<subseteq> set new"
  have "triple ?I (perform f log) (outcome any_error ?I ?Q)"
    by (auto simp: triple_def outcome_def split: sum.splits)
  moreover have "steady K ?I" and "\<And>a. steady K (?Q a)"
    by (auto intro!: steadyI simp: background_fields)
  ultimately have "outcome any_error ?I ?Q (Inr a) s'"
    by (intro tripleD[OF triple_retry _ assms]) auto
  then show ?thesis by simp
qed

subsection \<open>The attempts and their metrics\<close>

text \<open>The metrics of one retried call: its attempts, its duration and its final outcome.\<close>

definition attempt_label :: "retry_config \<Rightarrow> nat \<Rightarrow> string" where
  "attempt_label cfg i =
     (if i = 1 then ''1'' else if int i \<ge> MaxAttempts cfg then ''max'' else decimal i)"

definition attempt_ops ::
  "retry_config \<Rightarrow> string \<Rightarrow> string \<Rightarrow> string \<Rightarrow> nat \<Rightarrow> metric_op list" where
  "attempt_ops cfg ns service operation k =
     concat (map (\<lambda>i. RecordRetryAttempt ns service operation (attempt_label cfg i)) [1..<Suc k])"

definition retry_metrics ::
  "retry_config \<Rightarrow> string \<Rightarrow> string \<Rightarrow> string \<Rightarrow> bool \<Rightarrow> nat \<Rightarrow> duration \<Rightarrow> metric_op list" where
  "retry_metrics cfg ns service operation failed k d =
     (if \<not> failed \<and> k = 1 then [] else attempt_ops cfg ns service operation k) @
     RecordAPICallDuration ns service operation (if failed then ''error'' else ''success'') d @
     (if \<not> failed \<and> k > 1 then RecordRetrySuccessAfterRetry ns service operation else []) @
     (if failed \<and> int k \<ge> MaxAttempts cfg
      then RecordRetryAttempt ns service operation ''max'' else [])"

lemma attempt_ops_0 [simp]: "attempt_ops cfg ns service operation 0 = []"
  by (simp add: attempt_ops_def)

lemma attempt_ops_Suc [simp]:
  "attempt_ops cfg ns service operation (Suc k) =
     attempt_ops cfg ns service operation k @
     RecordRetryAttempt ns service operation (attempt_label cfg (Suc k))"
  by (simp add: attempt_ops_def)

text \<open>
  What a retried call with the result \<open>r\<close> has answered: all attempts but the last have failed, and
  the last one has succeeded exactly if the call has.
\<close>

definition attempts_of :: "api_err + 'a \<Rightarrow> (api_err + 'a) list \<Rightarrow> bool" where
  "attempts_of r answers \<longleftrightarrow>
     (case r of
        Inl e \<Rightarrow> list_all is_error answers
      | Inr a \<Rightarrow> \<exists>failed. answers = failed @ [Inr a] \<and> list_all is_error failed)"

lemma attempts_of_simps:
  "attempts_of (Inl e) answers \<longleftrightarrow> list_all is_error answers"
  "attempts_of (Inr a) answers \<longleftrightarrow> (\<exists>failed. answers = failed @ [Inr a] \<and> list_all is_error failed)"
  by (simp_all add: attempts_of_def)

text \<open>The loop in \<^verbatim>\<open>retryDoWithMetrics\<close>, for a call that makes one entry in the API log.\<close>

definition loop_state ::
  "retry_config \<Rightarrow> string \<Rightarrow> string \<Rightarrow> string \<Rightarrow> (api_err + 'a \<Rightarrow> api_call) \<Rightarrow> 'w sys \<Rightarrow> api_err + 'a \<Rightarrow>
   'w sys \<times> retry_locals \<Rightarrow> bool" where
  "loop_state cfg ns service operation c s0 r sl \<longleftrightarrow>
     (\<exists>answers. calls (fst sl) = calls s0 @ map c answers \<and> attempts_of r answers \<and>
        length answers = attemptCount (snd sl)) \<and>
     succeededAfterRetry (snd sl) = (\<not> is_error r \<and> attemptCount (snd sl) > 1) \<and>
     Metrics (fst sl) = map_option (\<lambda>l. l @ (if \<not> is_error r \<and> attemptCount (snd sl) = 1 then []
       else attempt_ops cfg ns service operation (attemptCount (snd sl)))) (Metrics s0)"

lemma loop_state_error:
  "loop_state cfg ns service operation c s0 (Inl e) = loop_state cfg ns service operation c s0 (Inl e')"
  by (simp add: loop_state_def attempts_of_simps fun_eq_iff)

lemma wrappedFn_step:
  fixes c :: "api_err + 'a \<Rightarrow> api_call"
  shows "triple (loop_state cfg ns service operation c s0 (Inl e0))
     (wrappedFn cfg (perform f (\<lambda>r. [c r])) ns service operation)
     (outcome any_error (loop_state cfg ns service operation c s0 (Inl e0))
       (\<lambda>a. loop_state cfg ns service operation c s0 (Inr a)))"
proof (rule tripleI)
  fix sl r sl'
  assume pre: "loop_state cfg ns service operation c s0 (Inl e0) sl"
    and run: "run_state (wrappedFn cfg (perform f (\<lambda>r. [c r])) ns service operation) sl = (r, sl')"
  obtain s l where sl: "sl = (s, l)" by (cases sl)
  obtain q w where q: "f (world s) = (q, w)" by (cases "f (world s)")
  obtain answers where old: "calls s = calls s0 @ map c answers" "list_all is_error answers"
    "length answers = attemptCount l"
    using pre sl by (auto simp: loop_state_def attempts_of_simps)
  have new: "calls s @ [c q] = calls s0 @ map c (answers @ [q])" using old by simp
  have entries: "\<exists>as. calls s0 @ map c answers @ [c q] = calls s0 @ map c as \<and> attempts_of q as \<and>
      length as = Suc (attemptCount l)"
    using old by (intro exI[of _ "answers @ [q]"]) (cases q; simp add: attempts_of_simps)
  have rest: "r = q \<and> calls (fst sl') = calls s0 @ map c answers @ [c q] \<and>
      attemptCount (snd sl') = Suc (attemptCount l) \<and>
      succeededAfterRetry (snd sl') = (\<not> is_error q \<and> Suc (attemptCount l) > 1) \<and>
      Metrics (fst sl') = map_option (\<lambda>l'. l' @ (if \<not> is_error q \<and> Suc (attemptCount l) = 1 then []
         else attempt_ops cfg ns service operation (Suc (attemptCount l)))) (Metrics s0)"
    using pre run sl q old
    by (cases q; cases "attemptCount l")
      (auto simp: wrappedFn_def loop_state_def attempt_label_def onlyif_def option.map_comp comp_def
        split: if_splits)
  have "loop_state cfg ns service operation c s0 q sl'"
    unfolding loop_state_def using rest entries by simp
  then show "outcome any_error (loop_state cfg ns service operation c s0 (Inl e0))
      (\<lambda>a. loop_state cfg ns service operation c s0 (Inr a)) r sl'"
    using rest loop_state_error[of cfg ns service operation c s0 "projl q" e0] by (cases q) simp_all
qed

lemma retry_metrics_run:
  fixes c :: "api_err + 'a \<Rightarrow> api_call"
  assumes run: "run_state (retryDoWithMetrics K cfg (perform f (\<lambda>r. [c r])) ns service operation) s
      = (r, s')"
  shows "\<exists>answers. calls s' = calls s @ map c answers \<and> attempts_of r answers \<and>
    (case Metrics s of
       None \<Rightarrow> Metrics s' = None
     | Some ops \<Rightarrow> \<exists>w. world s' = snd (Now K w) \<and> Metrics s' = Some (ops @
         retry_metrics cfg ns service operation (is_error r) (length answers)
           (time_Sub (fst (Now K w)) (fst (Now K (world s))))))"
proof (cases "Metrics s")
  case None
  let ?fn = "perform f (\<lambda>r. [c r])"
  let ?I = "\<lambda>r t. (\<exists>answers. calls t = calls s @ map c answers \<and> attempts_of r answers) \<and> Metrics t = None"
  have run': "run_state (run_retrier world elapse ?fn (RetryDo K cfg)) s = (r, s')"
    using run None by (simp add: retryDoWithMetrics_def)
  have step: "?I (fst (f (world t))) (t\<lparr>world := snd (f (world t)),
      calls := calls t @ [c (fst (f (world t)))]\<rparr>)" if "?I (Inl e) t" for t e
  proof -
    obtain answers where a: "calls t = calls s @ map c answers" "list_all is_error answers"
      using \<open>?I (Inl e) t\<close> by (auto simp: attempts_of_simps)
    then have "attempts_of (fst (f (world t))) (answers @ [fst (f (world t))])"
      by (cases "fst (f (world t))") (auto simp: attempts_of_simps)
    with a \<open>?I (Inl e) t\<close> show ?thesis
      by (intro conjI exI[of _ "answers @ [fst (f (world t))]"]) simp_all
  qed
  have "triple (?I (Inl NotFound)) ?fn (outcome any_error (?I (Inl NotFound)) (\<lambda>a. ?I (Inr a)))"
  proof (rule tripleI)
    fix t q t'
    assume pre: "?I (Inl NotFound) t" and "run_state ?fn t = (q, t')"
    then have "?I q t'" using step[OF pre] by auto
    then show "outcome any_error (?I (Inl NotFound)) (\<lambda>a. ?I (Inr a)) q t'"
      by (cases q) (simp_all add: attempts_of_simps(1))
  qed
  from triple_retrier[OF this, of "RetryDo K cfg" elapse world]
  have "triple (?I (Inl NotFound)) (run_retrier world elapse ?fn (RetryDo K cfg))
      (outcome any_error (?I (Inl NotFound)) (\<lambda>a. ?I (Inr a)))"
    by (simp add: triple_def)
  from tripleD[OF this _ run'] None have "outcome any_error (?I (Inl NotFound)) (\<lambda>a. ?I (Inr a)) r s'"
    by (simp add: attempts_of_simps)
  then have "?I r s'" by (cases r) (simp_all add: attempts_of_simps(1))
  with None show ?thesis by auto
next
  case (Some ms)
  let ?fn = "wrappedFn cfg (perform f (\<lambda>r. [c r])) ns service operation"
  let ?look = "\<lambda>sl. world (fst sl)" and ?wait = "\<lambda>h. on_fst (elapse h)"
  let ?l0 = "\<lparr>attemptCount = 0, succeededAfterRetry = False\<rparr>"
  let ?s0 = "s\<lparr>world := snd (Now K (world s))\<rparr>"
  let ?I = "loop_state cfg ns service operation c s"
  obtain q s1 l where loop: "run_state (run_retrier ?look ?wait ?fn (RetryDo K cfg)) (?s0, ?l0) = (q, (s1, l))"
    by (metis prod.exhaust)
  have "triple (?I (Inl NotFound)) (run_retrier ?look ?wait ?fn (RetryDo K cfg))
     (outcome any_error (?I (Inl NotFound)) (\<lambda>a. ?I (Inr a)))"
    by (rule triple_retrier[OF wrappedFn_step]) (auto simp: triple_def loop_state_def)
  moreover have "?I (Inl NotFound) (?s0, ?l0)"
    using Some by (simp add: loop_state_def attempts_of_simps)
  ultimately have "outcome any_error (?I (Inl NotFound)) (\<lambda>a. ?I (Inr a)) q (s1, l)"
    using tripleD[OF _ _ loop] by blast
  then have state: "?I q (s1, l)"
    using loop_state_error[of cfg ns service operation c s "projl q" NotFound] by (cases q) simp_all
  then obtain answers where new: "calls s1 = calls s @ map c answers" "attempts_of q answers"
    "length answers = attemptCount l"
    by (auto simp: loop_state_def)
  let ?d = "time_Sub (fst (Now K (world s1))) (fst (Now K (world s)))"
  have "r = q" and "calls s' = calls s @ map c answers" and "world s' = snd (Now K (world s1))"
    and "Metrics s' = map_option (\<lambda>l. l @
      retry_metrics cfg ns service operation (is_error q) (length answers) ?d) (Metrics s)"
    using run Some loop state new
    by (auto simp: retryDoWithMetrics_def run_now since_def retry_metrics_def loop_state_def
        onlyif_def split: if_splits)
  then show ?thesis using new(2) Some by auto
qed

text \<open>A retrier that calls the function at most so many times.\<close>

primrec attempts_within :: "nat \<Rightarrow> 'w retrier \<Rightarrow> bool" where
  "attempts_within n (GiveUp e) = True"
| "attempts_within n (Attempt f) = (0 < n \<and> (\<forall>e. attempts_within (n - 1) (f e)))"
| "attempts_within n (Observe g) = (\<forall>w. attempts_within n (g w))"
| "attempts_within n (Wait h p) = attempts_within n p"

lemma run_retrier_count:
  assumes fn: "\<And>s r s'. run_state fn s = (r, s') \<Longrightarrow> cnt s' = Suc (cnt s)"
    and wait: "\<And>h s r s'. run_state (wait h) s = (r, s') \<Longrightarrow> cnt s' = cnt s"
  shows "attempts_within n p \<Longrightarrow> run_state (run_retrier look wait fn p) s = (r, s') \<Longrightarrow>
    cnt s' \<le> cnt s + n"
proof (induction p arbitrary: n s)
  case (Attempt f)
  obtain q t where q: "run_state fn s = (q, t)" by (cases "run_state fn s")
  show ?case
  proof (cases q)
    case (Inl e)
    have "cnt s' \<le> cnt t + (n - 1)"
      using Attempt.prems q Inl by (intro Attempt.IH[of "f e"]) auto
    then show ?thesis using fn[OF q] Attempt.prems(1) by simp
  qed (use Attempt.prems q fn[OF q] in auto)
next
  case (Observe g)
  then show ?case using Observe.IH[of "g (look s)" n s] by simp
next
  case (Wait h p)
  obtain u t where t: "run_state (wait h) s = (u, t)" by (cases "run_state (wait h) s")
  have "cnt s' \<le> cnt t + n" using Wait.prems t by (intro Wait.IH) auto
  then show ?case using wait[OF t] by simp
qed auto

subsection \<open>One API call under retry\<close>

text \<open>
  Every call site of the director retries a closure that makes one API call. \<open>call_api\<close> is that
  pattern: the call \<open>f\<close> is entered in the log as \<open>c\<close> with its answer.
\<close>

abbreviation call_api ::
  "'w kube \<Rightarrow> retry_config \<Rightarrow> ('w \<Rightarrow> (api_err + 'a) \<times> 'w) \<Rightarrow> (api_err + 'a \<Rightarrow> api_call) \<Rightarrow>
   string \<Rightarrow> string \<Rightarrow> string \<Rightarrow> ('w sys, api_err + 'a) state" where
  "call_api K cfg f c ns service operation \<equiv>
     retryDoWithMetrics K cfg (perform f (\<lambda>r. [c r])) ns service operation"

lemma call_api_frame:
  assumes "run_state (call_api K cfg f c ns service operation) s = (r, s')"
  shows "events s' = events s" and "leaderPodCache s' = leaderPodCache s"
    and "optedInServicesCache s' = optedInServicesCache s"
proof -
  let ?I = "\<lambda>t. events t = events s \<and> leaderPodCache t = leaderPodCache s \<and>
    optedInServicesCache t = optedInServicesCache s"
  have "triple ?I (perform f (\<lambda>r. [c r])) (outcome any_error ?I (\<lambda>_. ?I))"
    by (auto simp: triple_def outcome_def split: sum.splits)
  moreover have "steady K ?I" by (auto intro!: steadyI simp: background_fields)
  ultimately have "outcome any_error ?I (\<lambda>_. ?I) r s'"
    by (intro tripleD[OF triple_retry _ assms]) auto
  then show "events s' = events s" and "leaderPodCache s' = leaderPodCache s"
    and "optedInServicesCache s' = optedInServicesCache s"
    by (auto simp: outcome_def split: sum.splits)
qed

lemma call_api_calls:
  assumes "run_state (call_api K cfg f c ns service operation) s = (r, s')"
  obtains new where "calls s' = calls s @ new" and "\<And>a. r = Inr a \<Longrightarrow> c r \<in> set new"
proof (cases r)
  case (Inl e)
  with retry_metrics_run[OF assms] that show thesis by blast
next
  case (Inr a)
  with assms have "run_state (retryDoWithMetrics K cfg (perform f (\<lambda>r. [c r])) ns service operation) s
      = (Inr a, s')" by simp
  from retry_logged[OF this] Inr that show thesis by auto
qed

context system_evolution
begin

lemma keeps_call_api:
  "(\<And>s. rel s (s\<lparr>world := snd (f (world s)), calls := calls s @ [c (fst (f (world s)))]\<rparr>)) \<Longrightarrow>
   state_io_rel rel (call_api K cfg f c ns service operation)"
  by (rule keeps_retry) (auto simp: state_io_rel_def)

end

text \<open>A call whose entry satisfies the condition on the log, whatever the answer.\<close>

lemma logs_call_api:
  "(\<And>r. ok (c r)) \<Longrightarrow> state_io_rel (appends calls ok) (call_api K cfg f c ns service operation)"
  by (rule call_log.keeps_call_api) (auto intro: appendsI)

subsection \<open>The calls of a run\<close>

fun is_read :: "api_call \<Rightarrow> bool" where
  "is_read (CallGetService k r) = True"
| "is_read (CallGetPod k r) = True"
| "is_read (CallGetSlice k r) = True"
| "is_read (CallListPods ns sel r) = True"
| "is_read (CallListServices ns sel r) = True"
| "is_read (CallListSlices ns sel r) = True"
| "is_read c = False"

text \<open>Effects that make no API call, and reads where reads are allowed.\<close>

lemma logs_emit_event [keeps_rules]: "state_io_rel (appends calls ok) (emit_event ob ty reason)"
  by (auto simp: state_io_rel_def intro: appends_same)

lemma logs_call_read [keeps_rules]:
  assumes "\<And>c. is_read c \<Longrightarrow> ok c"
  shows "state_io_rel (appends calls ok) (call_api K cfg f (CallGetService k) ns service operation)"
    and "state_io_rel (appends calls ok) (call_api K cfg f' (CallGetPod k) ns service operation)"
    and "state_io_rel (appends calls ok) (call_api K cfg g (CallGetSlice k) ns service operation)"
    and "state_io_rel (appends calls ok) (call_api K cfg g' (CallListPods k' m) ns service operation)"
    and "state_io_rel (appends calls ok) (call_api K cfg h (CallListServices k' m) ns service operation)"
    and "state_io_rel (appends calls ok) (call_api K cfg h' (CallListSlices k' m) ns service operation)"
  by (rule logs_call_api; simp add: assms)+

lemmas logs_intros = grows.keeps_intros call_log.keeps_effects logs_emit_event logs_call_read
  records_well_labelled well_labelled_Nil well_labelled_append

text \<open>
  The log grew between two states by calls that satisfy a condition, some calls being among them.
\<close>

definition grows_by :: "'w sys \<Rightarrow> 'w sys \<Rightarrow> (api_call \<Rightarrow> bool) \<Rightarrow> api_call set \<Rightarrow> bool" where
  "grows_by s s' ok cs \<longleftrightarrow> (\<exists>new. calls s' = calls s @ new \<and> list_all ok new \<and> cs \<subseteq> set new)"

lemma grows_by_trans: "grows_by s t ok A \<Longrightarrow> grows_by t u ok B \<Longrightarrow> grows_by s u ok (A \<union> B)"
  unfolding grows_by_def by (elim exE conjE, rule_tac x = "new @ newa" in exI) auto

lemma grows_by_subset: "grows_by s t ok A \<Longrightarrow> B \<subseteq> A \<Longrightarrow> grows_by s t ok B"
  by (auto simp: grows_by_def)

lemma grows_by_mono: "grows_by s t ok A \<Longrightarrow> (\<And>c. ok c \<Longrightarrow> ok' c) \<Longrightarrow> grows_by s t ok' A"
  by (fastforce simp: grows_by_def list_all_iff)

lemma grows_by_io:
  "state_io_rel (appends calls ok) m \<Longrightarrow> run_state m s = (r, t) \<Longrightarrow> grows_by s t ok {}"
  by (auto simp: grows_by_def appends_def dest!: state_io_relD)

lemma grows_by_same: "calls t = calls s \<Longrightarrow> grows_by s t ok {}"
  by (auto simp: grows_by_def)

lemma grows_by_call:
  assumes "run_state (call_api K cfg f c ns service operation) s = (r, t)" and "\<And>q. ok (c q)"
  shows "grows_by s t ok {}" and "r = Inr a \<Longrightarrow> grows_by s t ok {c (Inr a)}"
proof -
  obtain new where new: "calls t = calls s @ new" and logged: "\<And>a. r = Inr a \<Longrightarrow> c r \<in> set new"
    by (rule call_api_calls[OF assms(1)]) blast
  moreover have "list_all ok new"
    using state_io_relD[OF logs_call_api assms(1), of ok] assms(2) new by (auto simp: appends_def)
  ultimately show "grows_by s t ok {}" and "r = Inr a \<Longrightarrow> grows_by s t ok {c (Inr a)}"
    by (auto simp: grows_by_def)
qed

text \<open>
  The rule for one retried API call: what a single attempt guarantees of its answer, the retried
  call guarantees of the answer it hands back.
\<close>

lemma call_api_outcome:
  assumes I: "steady K I" and Q: "\<And>a. steady K (Q a)" and E: "passes_on K E"
    and attempt: "\<And>s. I s \<Longrightarrow> outcome E I Q (fst (f (world s)))
      (s\<lparr>world := snd (f (world s)), calls := calls s @ [c (fst (f (world s)))]\<rparr>)"
    and run: "run_state (call_api K cfg f c ns service operation) s = (r, s')" and "I s"
  shows "outcome E I Q r s'"
proof -
  have "triple I (perform f (\<lambda>r. [c r])) (outcome E I Q)"
    using attempt by (auto intro!: tripleI)
  from tripleD[OF triple_retry[OF I Q this E] \<open>I s\<close> run] show ?thesis .
qed

end
