(* ===== verification/Pods.thy ===== *)
theory Pods
  imports Objects
begin

text \<open>
  Readiness of pods and the predicate of the Pod watch (\<^verbatim>\<open>isPodReady\<close>, \<^verbatim>\<open>getPodReadySince\<close> and
  the \<^verbatim>\<open>predicate.Funcs\<close> of \<^verbatim>\<open>SetupWithManager\<close> in \<^verbatim>\<open>service_director.go\<close>).
\<close>

definition isPodReady :: "pod \<Rightarrow> bool" where
  "isPodReady p =
     (if Phase p \<noteq> PodRunning then False
      else case List.find (\<lambda>c. ConditionType c = PodReady) (Conditions p) of
             Some c \<Rightarrow> ConditionStatus c = ConditionTrue
           | None \<Rightarrow> False)"

definition getPodReadySince :: "pod \<Rightarrow> go_time option" where
  "getPodReadySince p =
     (case List.find (\<lambda>c. ConditionType c = PodReady \<and> ConditionStatus c = ConditionTrue)
             (Conditions p) of
        Some c \<Rightarrow> Some (LastTransitionTime c)
      | None \<Rightarrow> None)"

text \<open>A ready pod has a time since which it is ready, so flap damping never drops it for lack of one.\<close>

lemma isPodReady_since: "isPodReady p \<Longrightarrow> \<exists>t. getPodReadySince p = Some t"
proof -
  assume "isPodReady p"
  then obtain c where "List.find (\<lambda>c. ConditionType c = PodReady) (Conditions p) = Some c"
    and "ConditionStatus c = ConditionTrue"
    by (auto simp: isPodReady_def split: if_splits option.splits)
  then have "c \<in> set (Conditions p) \<and> ConditionType c = PodReady \<and> ConditionStatus c = ConditionTrue"
    using find_SomeD by fastforce
  then have "List.find (\<lambda>c. ConditionType c = PodReady \<and> ConditionStatus c = ConditionTrue)
      (Conditions p) \<noteq> None"
    by (auto simp: find_None_iff)
  then show ?thesis by (auto simp: getPodReadySince_def)
qed

lemma isPodReady_running: "isPodReady p \<Longrightarrow> Phase p = PodRunning"
  by (auto simp: isPodReady_def split: if_splits)

text \<open>
  The leader-fast-path test of \<^verbatim>\<open>Reconcile\<close>: terminating, not ready or without an address.
\<close>

definition unhealthy :: "pod \<Rightarrow> bool" where
  "unhealthy p \<longleftrightarrow> DeletionTimestamp p \<noteq> None \<or> \<not> isPodReady p \<or> PodIP p = ''''"

definition failover_reason :: "pod \<Rightarrow> string" where
  "failover_reason p =
     (if DeletionTimestamp p \<noteq> None then ''terminating''
      else if \<not> isPodReady p then ''notReady''
      else if PodIP p = '''' then ''noIP''
      else '''')"

lemma failover_reason_unhealthy: "unhealthy p \<longleftrightarrow> failover_reason p \<noteq> ''''"
  by (auto simp: unhealthy_def failover_reason_def)

subsection \<open>The Pod watch\<close>

datatype pod_event = PodCreate pod | PodUpdate pod pod | PodDelete pod | PodGeneric pod

definition terminal_phase :: "pod \<Rightarrow> bool" where
  "terminal_phase p \<longleftrightarrow> Phase p = PodFailed \<or> Phase p = PodSucceeded"

fun podPredicate :: "pod_event \<Rightarrow> bool" where
  "podPredicate (PodCreate p) = True"
| "podPredicate (PodUpdate oldPod newPod) =
     (if isPodReady oldPod \<noteq> isPodReady newPod then True
      else if (DeletionTimestamp oldPod \<noteq> None) \<noteq> (DeletionTimestamp newPod \<noteq> None) then True
      else if PodIP oldPod \<noteq> PodIP newPod then True
      else if terminal_phase oldPod \<and> Phase newPod \<noteq> Phase oldPod then True
      else if terminal_phase newPod \<and> Phase oldPod \<noteq> Phase newPod then True
      else False)"
| "podPredicate (PodDelete p) = True"
| "podPredicate (PodGeneric p) = False"

fun_cases podPredicate_updateE: "podPredicate (PodUpdate p q)"

text \<open>
  The predicate loses no transition of the leader-fast-path test: when it drops an update, the
  pod is healthy after it exactly if it was before.
\<close>

lemma podPredicate_health: "\<not> podPredicate (PodUpdate p q) \<Longrightarrow> unhealthy q \<longleftrightarrow> unhealthy p"
  by (auto simp: unhealthy_def split: if_splits)

lemma podPredicate_sym: "podPredicate (PodUpdate p q) \<longleftrightarrow> podPredicate (PodUpdate q p)"
  by auto

end
