(* ===== verification/Naming.thy ===== *)
theory Naming
  imports Kube
begin

text \<open>
  What the annotations of a source Service decide: whether zen-lead is enabled, whether the leader
  is sticky, how long a pod has to be ready (\<^verbatim>\<open>getMinReadyDuration\<close>) and the name of the leader
  Service (\<^verbatim>\<open>getLeaderServiceName\<close>).
\<close>

definition zen_lead_enabled :: "service \<Rightarrow> bool" where
  "zen_lead_enabled svc \<longleftrightarrow> map_get (Annotations svc) AnnotationEnabledService = ''true''"

definition is_sticky :: "service \<Rightarrow> bool" where
  "is_sticky svc =
     (case map_of (Annotations svc) AnnotationStickyService of
        Some val \<Rightarrow> val \<noteq> ''false''
      | None \<Rightarrow> True)"

definition getMinReadyDuration :: "'w kube \<Rightarrow> service \<Rightarrow> duration" where
  "getMinReadyDuration K svc =
     (let durationStr = map_get (Annotations svc) AnnotationMinReadyDurationService
      in if durationStr = '''' \<or> durationStr = ''0s'' then 0
         else case ParseDuration (FracUnits K) durationStr of
                None \<Rightarrow> 0
              | Some d \<Rightarrow> d)"

lemma getMinReadyDuration_in_range:
  "min_duration \<le> getMinReadyDuration K svc \<and> getMinReadyDuration K svc \<le> max_duration"
  by (auto simp: getMinReadyDuration_def Let_def min_duration_def max_duration_def
      dest: ParseDuration_in_range split: option.splits)

definition getLeaderServiceName :: "'w kube \<Rightarrow> service \<Rightarrow> string" where
  "getLeaderServiceName K svc =
     (let customName = map_get (Annotations svc) AnnotationLeaderServiceNameService;
          leaderName = (if customName \<noteq> '''' then customName
                        else Name svc @ ServiceSuffixService)
      in if IsDNS1123Subdomain K leaderName \<noteq> [] then
           (let fallback = Name svc @ ''-leader''
            in if IsDNS1123Subdomain K fallback \<noteq> [] then Name svc else fallback)
         else leaderName)"

abbreviation leader_key :: "'w kube \<Rightarrow> service \<Rightarrow> nsname" where
  "leader_key K svc \<equiv> (Namespace svc, getLeaderServiceName K svc)"

lemma getLeaderServiceName_valid:
  "IsDNS1123Subdomain K (Name svc) = [] \<Longrightarrow>
   IsDNS1123Subdomain K (getLeaderServiceName K svc) = []"
  by (auto simp: getLeaderServiceName_def Let_def)

lemma getLeaderServiceName_default:
  "map_get (Annotations svc) AnnotationLeaderServiceNameService = '''' \<Longrightarrow>
   IsDNS1123Subdomain K (Name svc @ ''-leader'') = [] \<Longrightarrow>
   getLeaderServiceName K svc = Name svc @ ''-leader''"
  by (simp add: getLeaderServiceName_def ServiceSuffixService_def Let_def)

lemma getLeaderServiceName_custom:
  "map_get (Annotations svc) AnnotationLeaderServiceNameService = n \<Longrightarrow> n \<noteq> '''' \<Longrightarrow>
   IsDNS1123Subdomain K n = [] \<Longrightarrow> getLeaderServiceName K svc = n"
  by (simp add: getLeaderServiceName_def Let_def)

end
