(* ===== verification/Selection.thy ===== *)
theory Selection
  imports Retry Pods Naming
begin

text \<open>
  Leader selection (\<^verbatim>\<open>selectLeaderPod\<close> of \<^verbatim>\<open>service_director.go\<close>): the sticky leader named by the
  EndpointSlice if it is still ready, otherwise the oldest pod that is ready long enough.
\<close>

subsection \<open>The sticky leader\<close>

text \<open>
  The test \<^verbatim>\<open>endpoint.TargetRef != nil && Kind == "Pod" && UID != ""\<close>, shared by \<^verbatim>\<open>selectLeaderPod\<close>
  and \<^verbatim>\<open>getCurrentLeaderPod\<close>.
\<close>

definition pod_ref :: "endpoint \<Rightarrow> object_reference option" where
  "pod_ref e =
     (case TargetRef e of
        None \<Rightarrow> None
      | Some ref \<Rightarrow> if RefKind ref = ''Pod'' \<and> RefUID ref \<noteq> '''' then Some ref else None)"

text \<open>The two nested loops: the first pod with the UID decides for its endpoint.\<close>

fun sticky_pod :: "endpoint list \<Rightarrow> pod list \<Rightarrow> pod option" where
  "sticky_pod [] pods = None"
| "sticky_pod (e # es) pods =
     (case pod_ref e of
        None \<Rightarrow> sticky_pod es pods
      | Some ref \<Rightarrow>
          (case List.find (\<lambda>p. UID p = RefUID ref) pods of
             Some p \<Rightarrow> if isPodReady p then Some p else sticky_pod es pods
           | None \<Rightarrow> sticky_pod es pods))"

subsection \<open>The oldest eligible pod\<close>

definition eligible :: "duration \<Rightarrow> go_time \<Rightarrow> pod \<Rightarrow> bool" where
  "eligible minReadyDuration t p \<longleftrightarrow>
     isPodReady p \<and>
     (minReadyDuration > 0 \<longrightarrow>
        (case getPodReadySince p of
           None \<Rightarrow> False
         | Some readySince \<Rightarrow> \<not> time_Sub t readySince < minReadyDuration))"

text \<open>
  The order of \<^verbatim>\<open>sort.Slice\<close>: creation time, then name. Strings compare by their bytes in Go and
  character by character here.
\<close>

definition seniority :: "pod \<Rightarrow> go_time \<times> string" where
  "seniority p = (CreationTimestamp p, Name p)"

definition oldest :: "pod list \<Rightarrow> pod option" where
  "oldest pods = (case sort_key seniority pods of [] \<Rightarrow> None | p # _ \<Rightarrow> Some p)"

subsection \<open>selectLeaderPod\<close>

definition select_fresh :: "'w kube \<Rightarrow> service \<Rightarrow> pod list \<Rightarrow> ('w sys, pod option) state" where
  "select_fresh K svc pods =
     do { t \<leftarrow> now K;
          let readyPods = filter (eligible (getMinReadyDuration K svc) t) pods;
          if readyPods = [] then
            do { emit_event svc EventTypeWarning ''NoReadyPods'';
                 ret None }
          else ret (oldest readyPods) }"

definition selectLeaderPod ::
  "'w kube \<Rightarrow> service \<Rightarrow> pod list \<Rightarrow> bool \<Rightarrow> ('w sys, pod option) state" where
  "selectLeaderPod K svc pods bypassStickiness =
     (if is_sticky svc \<and> \<not> bypassStickiness then
        do { slice \<leftarrow> call_api K (DefaultRetry K) (GetSlice K (leader_key K svc))
               (CallGetSlice (leader_key K svc)) (Namespace svc) (Name svc)
               ''get_endpointslice_sticky'';
             let kept = (case slice of
                 Inr endpointSlice \<Rightarrow> sticky_pod (Endpoints endpointSlice) pods
               | Inl err \<Rightarrow> None);
             case kept of
               Some p \<Rightarrow>
                 do { metric (RecordStickyLeaderHit (Namespace svc) (Name svc));
                      ret (Some p) }
             | None \<Rightarrow>
                 do { metric (RecordStickyLeaderMiss (Namespace svc) (Name svc));
                      select_fresh K svc pods } }
      else select_fresh K svc pods)"

subsection \<open>Properties of the two searches\<close>

lemma pod_ref_Some:
  "pod_ref e = Some ref \<longleftrightarrow> TargetRef e = Some ref \<and> RefKind ref = ''Pod'' \<and> RefUID ref \<noteq> ''''"
  by (auto simp: pod_ref_def split: option.splits)

lemma sticky_pod_Some:
  "sticky_pod es pods = Some p \<Longrightarrow>
   p \<in> set pods \<and> isPodReady p \<and> (\<exists>e ref. e \<in> set es \<and> pod_ref e = Some ref \<and> RefUID ref = UID p)"
proof (induction es)
  case (Cons e es)
  then show ?case
    by (fastforce dest: find_SomeD split: option.splits if_splits)
qed simp

text \<open>With unique UIDs the sticky search finds the ready pod an endpoint refers to.\<close>

lemma find_by_uid:
  "distinct (map UID pods) \<Longrightarrow> p \<in> set pods \<Longrightarrow> List.find (\<lambda>q. UID q = UID p) pods = Some p"
  by (induction pods) force+

lemma sticky_pod_found:
  assumes "distinct (map UID pods)" and "p \<in> set pods" and "isPodReady p"
    and "pod_ref e = Some ref" and "RefUID ref = UID p"
  shows "sticky_pod (e # es) pods = Some p"
  using assms find_by_uid[of pods p] by simp

lemma eligible_ready: "eligible d t p \<Longrightarrow> isPodReady p"
  by (simp add: eligible_def)

lemma eligible_no_damping: "d \<le> 0 \<Longrightarrow> eligible d t p \<longleftrightarrow> isPodReady p"
  by (auto simp: eligible_def)

lemma eligible_damping:
  "0 < d \<Longrightarrow> eligible d t p \<Longrightarrow> getPodReadySince p = Some u \<Longrightarrow> d \<le> time_Sub t u"
  by (auto simp: eligible_def)

text \<open>A pod that is eligible stays so while the clock advances and its conditions do not change.\<close>

lemma time_Sub_mono: "t \<le> t' \<Longrightarrow> time_Sub t u \<le> time_Sub t' u"
  by (auto simp: time_Sub_def min_duration_def max_duration_def)

lemma eligible_mono: "eligible d t p \<Longrightarrow> t \<le> t' \<Longrightarrow> eligible d t' p"
  by (auto simp: eligible_def split: option.splits intro: order.strict_trans1[OF time_Sub_mono])

lemma oldest_None [simp]: "oldest pods = None \<longleftrightarrow> pods = []"
  by (auto simp: oldest_def sort_key_Nil split: list.splits)

lemma oldest_hd: "pods \<noteq> [] \<Longrightarrow> oldest pods = Some (hd (sort_key seniority pods))"
  by (auto simp: oldest_def sort_key_Nil split: list.splits)

lemma oldest_Some:
  assumes "oldest pods = Some p"
  shows "p \<in> set pods" and "q \<in> set pods \<Longrightarrow> seniority p \<le> seniority q"
proof -
  have ne: "pods \<noteq> []" using assms oldest_None[of pods] by force
  with assms oldest_hd have "p = hd (sort_key seniority pods)" by auto
  with hd_sort_key_min[OF ne, where f = seniority]
  show "p \<in> set pods" and "q \<in> set pods \<Longrightarrow> seniority p \<le> seniority q" by auto
qed

text \<open>The choice does not depend on the order in which the server lists the pods.\<close>

lemma oldest_order:
  assumes "set pods = set pods'" and "inj_on seniority (set pods)"
  shows "oldest pods = oldest pods'"
proof (cases "oldest pods")
  case None
  then show ?thesis using assms(1) by simp
next
  case (Some p)
  then obtain q where q: "oldest pods' = Some q"
    using assms(1) by (metis not_Some_eq oldest_None set_empty)
  have "p \<in> set pods" "q \<in> set pods"
    using oldest_Some(1)[OF Some] oldest_Some(1)[OF q] assms(1) by auto
  moreover from this have "seniority p = seniority q"
    using oldest_Some(2)[OF Some, of q] oldest_Some(2)[OF q, of p] assms(1) by force
  ultimately show ?thesis using assms(2) Some q by (simp add: inj_on_def)
qed

subsection \<open>What selectLeaderPod returns\<close>

text \<open>
  The specification names the fields that count. A pod is ready long enough at time \<open>t\<close>; the oldest
  such pod, by creation time and then by name; the ready pod that an endpoint refers to by UID.
\<close>

definition ready_long :: "duration \<Rightarrow> go_time \<Rightarrow> pod \<Rightarrow> bool" where
  "ready_long d t p \<longleftrightarrow>
     isPodReady p \<and> (d \<le> 0 \<or> (\<exists>u. getPodReadySince p = Some u \<and> d \<le> t - u))"

definition older :: "pod \<Rightarrow> pod \<Rightarrow> bool" where
  "older p q \<longleftrightarrow>
     CreationTimestamp p < CreationTimestamp q \<or>
     CreationTimestamp p = CreationTimestamp q \<and> Name p \<le> Name q"

definition oldest_choice :: "duration \<Rightarrow> go_time \<Rightarrow> pod list \<Rightarrow> pod option \<Rightarrow> bool" where
  "oldest_choice d t pods r \<longleftrightarrow>
     (case r of
        None \<Rightarrow> (\<forall>p \<in> set pods. \<not> ready_long d t p)
      | Some p \<Rightarrow> p \<in> set pods \<and> ready_long d t p \<and>
          (\<forall>q \<in> set pods. ready_long d t q \<longrightarrow> older p q))"

definition refers_to :: "endpoint \<Rightarrow> string \<Rightarrow> bool" where
  "refers_to e uid \<longleftrightarrow> uid \<noteq> '''' \<and>
     (\<exists>ref. TargetRef e = Some ref \<and> RefKind ref = ''Pod'' \<and> RefUID ref = uid)"

definition sticky_choice :: "endpoint list \<Rightarrow> pod list \<Rightarrow> pod option \<Rightarrow> bool" where
  "sticky_choice es pods r \<longleftrightarrow>
     (case r of
        None \<Rightarrow> (\<forall>e \<in> set es. \<forall>p. refers_to e (UID p) \<longrightarrow>
          List.find (\<lambda>q. UID q = UID p) pods = Some p \<longrightarrow> \<not> isPodReady p)
      | Some p \<Rightarrow> p \<in> set pods \<and> isPodReady p \<and> (\<exists>e \<in> set es. refers_to e (UID p)))"

lemma eligible_ready_long:
  assumes "d \<le> max_duration"
  shows "eligible d t p = ready_long d t p"
proof -
  have "time_Sub t u < d \<longleftrightarrow> t - u < d" if "0 < d" for u
    using that assms by (intro time_Sub_less_iff) (auto simp: min_duration_def)
  then show ?thesis by (auto simp: eligible_def ready_long_def not_less split: option.splits)
qed

lemma older_seniority: "older p q \<longleftrightarrow> seniority p \<le> seniority q"
  by (auto simp: older_def seniority_def)

lemma oldest_choice_oldest:
  assumes "d \<le> max_duration"
  shows "oldest_choice d t pods (oldest (filter (eligible d t) pods))"
proof (cases "oldest (filter (eligible d t) pods)")
  case None
  then have "filter (eligible d t) pods = []" by simp
  then show ?thesis unfolding None
    using eligible_ready_long[OF assms] by (auto simp: oldest_choice_def filter_empty_conv)
next
  case (Some p)
  from oldest_Some[OF Some] show ?thesis
    using eligible_ready_long[OF assms] Some by (auto simp: oldest_choice_def older_seniority)
qed

lemma pod_ref_refers: "pod_ref e = Some ref \<Longrightarrow> refers_to e (RefUID ref)"
  by (simp add: pod_ref_Some refers_to_def)

lemma refers_pod_ref: "refers_to e uid \<Longrightarrow> \<exists>ref. pod_ref e = Some ref \<and> RefUID ref = uid"
  by (auto simp: pod_ref_Some refers_to_def)

lemma sticky_choice_pod: "sticky_choice es pods (sticky_pod es pods)"
proof (induction es)
  case (Cons e es)
  show ?case
  proof (cases "sticky_pod (e # es) pods")
    case None
    then have "sticky_pod es pods = None" by (auto split: option.splits if_splits)
    moreover have "\<not> isPodReady p" if "refers_to e (UID p)"
      and "List.find (\<lambda>q. UID q = UID p) pods = Some p" for p
      using refers_pod_ref[OF that(1)] that(2) None by (auto split: if_splits)
    ultimately show ?thesis using Cons.IH None unfolding sticky_choice_def by auto
  next
    case (Some p)
    from sticky_pod_Some[OF Some] show ?thesis
      using pod_ref_refers unfolding sticky_choice_def Some by fastforce
  qed
qed (simp add: sticky_choice_def)

lemma run_select_fresh:
  assumes "run_state (select_fresh K svc pods) s = (r, s')"
  shows "r = oldest (filter (eligible (getMinReadyDuration K svc) (fst (Now K (world s)))) pods)"
    and "calls s' = calls s"
    and "world s' = snd (Now K (world s))" and "Metrics s' = Metrics s"
    and "optedInServicesCache s' = optedInServicesCache s" and "leaderPodCache s' = leaderPodCache s"
proof -
  let ?pods = "filter (eligible (getMinReadyDuration K svc) (fst (Now K (world s)))) pods"
  show "r = oldest ?pods"
  proof (cases "?pods = []")
    case True
    with assms show ?thesis by (simp add: select_fresh_def run_now Let_def oldest_def)
  qed (use assms in \<open>simp add: select_fresh_def run_now Let_def\<close>)
qed (use assms in \<open>auto simp: select_fresh_def run_now Let_def split: if_splits\<close>)

lemma select_fresh_choice:
  assumes "run_state (select_fresh K svc pods) s = (r, s')"
  shows "oldest_choice (getMinReadyDuration K svc) (fst (Now K (world s))) pods r"
  unfolding run_select_fresh(1)[OF assms] using getMinReadyDuration_in_range[of K svc]
  by (intro oldest_choice_oldest) simp

text \<open>
  The read of the EndpointSlice, and the endpoints that it gives: none after an error. The choice at
  a state \<open>u\<close>: the sticky leader, or the oldest pod that is ready long enough by the clock at \<open>u\<close>.
\<close>

definition sticky_read :: "'w kube \<Rightarrow> service \<Rightarrow> ('w sys, api_err + endpoint_slice) state" where
  "sticky_read K svc =
     call_api K (DefaultRetry K) (GetSlice K (leader_key K svc)) (CallGetSlice (leader_key K svc))
       (Namespace svc) (Name svc) ''get_endpointslice_sticky''"

definition endpoints_read :: "api_err + endpoint_slice \<Rightarrow> endpoint list" where
  "endpoints_read q = (case q of Inl err \<Rightarrow> [] | Inr slice \<Rightarrow> Endpoints slice)"

definition leader_choice ::
  "'w kube \<Rightarrow> service \<Rightarrow> endpoint list \<Rightarrow> pod list \<Rightarrow> 'w sys \<Rightarrow> pod option \<Rightarrow> bool" where
  "leader_choice K svc es pods u r \<longleftrightarrow>
     (\<exists>kept. sticky_choice es pods kept \<and>
        (case kept of
           Some p \<Rightarrow> r = Some p
         | None \<Rightarrow> oldest_choice (getMinReadyDuration K svc) (fst (Now K (world u))) pods r))"

lemma selectLeaderPod_choice:
  assumes "run_state (selectLeaderPod K svc pods bypassStickiness) s = (r, s')"
  shows "if is_sticky svc \<and> \<not> bypassStickiness
    then case run_state (sticky_read K svc) s of
      (q, u) \<Rightarrow> calls s' = calls u \<and> leader_choice K svc (endpoints_read q) pods u r
    else calls s' = calls s \<and> leader_choice K svc [] pods s r"
proof (cases "is_sticky svc \<and> \<not> bypassStickiness")
  case False
  with assms have fresh: "run_state (select_fresh K svc pods) s = (r, s')"
    by (auto simp: selectLeaderPod_def)
  have "sticky_choice [] pods None" by (simp add: sticky_choice_def)
  then have "leader_choice K svc [] pods s r"
    using select_fresh_choice[OF fresh] unfolding leader_choice_def by (intro exI[of _ None]) simp
  with run_select_fresh(2)[OF fresh] show ?thesis unfolding if_not_P[OF False] by simp
next
  case True
  obtain q u where get: "run_state (sticky_read K svc) s = (q, u)" by (metis prod.exhaust)
  note get' = get[unfolded sticky_read_def]
  have sticky: "sticky_choice (endpoints_read q) pods (sticky_pod (endpoints_read q) pods)"
    by (rule sticky_choice_pod)
  have kept: "(case q of Inr slice \<Rightarrow> sticky_pod (Endpoints slice) pods | Inl e \<Rightarrow> None) =
      sticky_pod (endpoints_read q) pods"
    by (simp add: endpoints_read_def split: sum.splits)
  have "calls s' = calls u \<and> leader_choice K svc (endpoints_read q) pods u r"
  proof (cases "sticky_pod (endpoints_read q) pods")
    case None
    let ?u = "u\<lparr>Metrics := map_option (\<lambda>l. l @ RecordStickyLeaderMiss (Namespace svc) (Name svc)) (Metrics u)\<rparr>"
    have fresh: "run_state (select_fresh K svc pods) ?u = (r, s')"
      using assms True get' kept None by (simp add: selectLeaderPod_def)
    from run_select_fresh(2)[OF fresh] select_fresh_choice[OF fresh] sticky None show ?thesis
      unfolding leader_choice_def by (intro conjI exI[of _ None]) simp_all
  next
    case (Some p)
    then have "r = Some p" and "calls s' = calls u"
      using assms True get' kept by (auto simp: selectLeaderPod_def)
    with Some sticky show ?thesis unfolding leader_choice_def by (intro conjI exI[of _ "Some p"]) simp_all
  qed
  with True get show ?thesis by simp
qed

lemma leader_choice_ready:
  assumes "leader_choice K svc es pods u (Some p)"
  shows "p \<in> set pods \<and> isPodReady p"
  using assms
  by (auto simp: leader_choice_def sticky_choice_def oldest_choice_def ready_long_def split: option.splits)

lemma selectLeaderPod_ready:
  assumes "run_state (selectLeaderPod K svc pods b) s = (Some p, s')"
  shows "p \<in> set pods \<and> isPodReady p"
  using selectLeaderPod_choice[OF assms]
  by (auto split: if_splits prod.splits dest: leader_choice_ready)

subsection \<open>The order of the list\<close>

text \<open>Neither search depends on the order in which the server lists the pods.\<close>

lemma find_order:
  assumes "set pods = set pods'" and "inj_on UID (set pods)"
  shows "List.find (\<lambda>p. UID p = uid) pods = List.find (\<lambda>p. UID p = uid) pods'"
proof (cases "List.find (\<lambda>p. UID p = uid) pods")
  case None
  then have "\<forall>p \<in> set pods'. UID p \<noteq> uid" using assms(1) by (auto dest: find_NoneD)
  then have "List.find (\<lambda>p. UID p = uid) pods' = None" by (simp add: find_None_iff)
  with None show ?thesis by simp
next
  case (Some p)
  then obtain q where q: "List.find (\<lambda>p. UID p = uid) pods' = Some q"
    using assms(1) by (metis find_NoneD find_SomeD not_None_eq)
  have "p = q" using find_SomeD[OF Some] find_SomeD[OF q] assms by (auto dest: inj_onD)
  with Some q show ?thesis by simp
qed

lemma sticky_pod_order:
  assumes "set pods = set pods'" and "inj_on UID (set pods)"
  shows "sticky_pod es pods = sticky_pod es pods'"
  by (induction es) (simp_all add: find_order[OF assms] split: option.splits)

lemma select_fresh_order:
  assumes "set pods = set pods'" and "inj_on Name (set pods)"
  shows "run_state (select_fresh K svc pods) s = run_state (select_fresh K svc pods') s"
proof -
  have "inj_on seniority (set pods)"
    using assms(2) by (auto simp: inj_on_def seniority_def)
  then have "oldest (filter (eligible (getMinReadyDuration K svc) t) pods) = oldest (filter (eligible (getMinReadyDuration K svc) t) pods')" for t
    using assms(1) by (intro oldest_order) (auto intro: inj_on_subset)
  moreover have "filter (eligible (getMinReadyDuration K svc) t) pods = [] \<longleftrightarrow> filter (eligible (getMinReadyDuration K svc) t) pods' = []" for t
    using assms(1) by (simp add: filter_empty_conv)
  ultimately show ?thesis by (simp add: select_fresh_def run_now Let_def)
qed

lemma selectLeaderPod_order:
  assumes "set pods = set pods'" and "inj_on Name (set pods)" and "inj_on UID (set pods)"
  shows "run_state (selectLeaderPod K svc pods b) s = run_state (selectLeaderPod K svc pods' b) s"
  by (simp add: selectLeaderPod_def sticky_pod_order[OF assms(1,3)] Let_def
      select_fresh_order[OF assms(1,2)] split: prod.splits option.splits sum.splits)

end
