(* ===== verification/LeaderCache.thy ===== *)
theory LeaderCache
  imports Selection
begin

text \<open>
  The cache of current leader pods and \<^verbatim>\<open>getCurrentLeaderPod\<close> of \<^verbatim>\<open>service_director.go\<close>. The contract
  of a map whose entries expire is the locale \<open>ttl_cache\<close>; the cache of the client SDK has it
  too. The mutex around the map makes every operation atomic.
\<close>

subsection \<open>Maps with expiring entries\<close>

locale ttl_cache =
  fixes inv :: "'c \<Rightarrow> bool"
    and valid :: "'c \<Rightarrow> string \<Rightarrow> go_time \<Rightarrow> 'v option"
    and put :: "string \<Rightarrow> 'v \<Rightarrow> go_time \<Rightarrow> 'c \<Rightarrow> 'c"
    and clear :: "'c"
  assumes inv_clear: "inv clear"
    and inv_put: "inv c \<Longrightarrow> inv (put k v e c)"
    and valid_put:
      "valid (put k v e c) k' t = (if k' = k then (if t < e then Some v else None) else valid c k' t)"
    and valid_clear: "valid clear k t = None"
begin

definition puts :: "(string \<times> 'v \<times> go_time) list \<Rightarrow> 'c" where
  "puts ws = fold (\<lambda>(k, v, e). put k v e) ws clear"

lemma inv_puts: "inv (puts ws)"
  by (induction ws rule: rev_induct) (auto simp: puts_def inv_clear inv_put)

text \<open>A cache built by any sequence of writes answers with the last write, while it is fresh.\<close>

lemma valid_puts:
  "valid (puts ws) k t =
     (case map_of (rev ws) k of Some (v, e) \<Rightarrow> if t < e then Some v else None | None \<Rightarrow> None)"
proof (induction ws rule: rev_induct)
  case (snoc w ws)
  then show ?case by (cases w) (auto simp: puts_def valid_put)
qed (simp add: puts_def valid_clear)

lemma valid_puts_sound: "valid (puts ws) k t = Some v \<Longrightarrow> \<exists>e. (k, v, e) \<in> set ws \<and> t < e"
  by (auto simp: valid_puts split: option.splits if_splits dest!: map_of_SomeD)

end

text \<open>The leader pod cache also forgets single keys and is pruned by a background routine.\<close>

locale ttl_cache_pruned = ttl_cache inv valid put clear
  for inv :: "'c \<Rightarrow> bool" and valid :: "'c \<Rightarrow> string \<Rightarrow> go_time \<Rightarrow> 'v option"
    and put :: "string \<Rightarrow> 'v \<Rightarrow> go_time \<Rightarrow> 'c \<Rightarrow> 'c" and clear :: "'c" +
  fixes forget :: "string \<Rightarrow> 'c \<Rightarrow> 'c"
    and prune :: "go_time \<Rightarrow> 'c \<Rightarrow> 'c"
  assumes inv_forget: "inv c \<Longrightarrow> inv (forget k c)"
    and inv_prune: "inv c \<Longrightarrow> inv (prune u c)"
    and valid_forget: "valid (forget k c) k' t = (if k' = k then None else valid c k' t)"
    and valid_prune: "inv c \<Longrightarrow> u \<le> t \<Longrightarrow> valid (prune u c) k t = valid c k t"
begin

text \<open>Pruning is invisible: rounds of it at any earlier times change no answer.\<close>

lemma valid_prunes:
  "inv c \<Longrightarrow> list_all (\<lambda>u. u \<le> t) us \<Longrightarrow>
   inv (fold prune us c) \<and> valid (fold prune us c) k t = valid c k t"
  by (induction us arbitrary: c) (auto simp: valid_prune inv_prune)

end

subsection \<open>The leader pod cache\<close>

type_synonym leader_cache = "(string \<times> cached_leader_pod) list"

definition cached_entry :: "leader_cache \<Rightarrow> string \<Rightarrow> go_time \<Rightarrow> cached_leader_pod option" where
  "cached_entry c serviceKey t =
     (case map_of c serviceKey of
        Some cached \<Rightarrow> if t < clp_expiresAt cached then Some cached else None
      | None \<Rightarrow> None)"

definition put_leader :: "string \<Rightarrow> pod \<Rightarrow> go_time \<Rightarrow> leader_cache \<Rightarrow> leader_cache" where
  "put_leader serviceKey p e c =
     AList.update serviceKey
       \<lparr>clp_pod = p, clp_expiresAt = e, clp_serviceKey = serviceKey\<rparr> c"

definition prune_leaders :: "go_time \<Rightarrow> leader_cache \<Rightarrow> leader_cache" where
  "prune_leaders t c = filter (\<lambda>(key, cached). \<not> t > clp_expiresAt cached) c"

definition updateLeaderPodCache ::
  "'w kube \<Rightarrow> string \<Rightarrow> pod \<Rightarrow> duration \<Rightarrow> ('w sys, unit) state" where
  "updateLeaderPodCache K serviceKey p ttl =
     do { cache \<leftarrow> gets leaderPodCache;
          onlyif (cache \<noteq> None)
            (do { t \<leftarrow> now K;
                  modify (\<lambda>s. s\<lparr>leaderPodCache :=
                    map_option (put_leader serviceKey p (t + ttl)) (leaderPodCache s)\<rparr>) }) }"

definition clearLeaderPodCache :: "string \<Rightarrow> ('w sys, unit) state" where
  "clearLeaderPodCache serviceKey =
     modify (\<lambda>s. s\<lparr>leaderPodCache := map_option (AList.delete serviceKey) (leaderPodCache s)\<rparr>)"

text \<open>
  One tick of the clean-up goroutine, and its loop. The loop waits for the next signal, during
  which the other goroutines act on the state (\<open>others i\<close> before the \<open>i\<close>-th signal), and ends when its
  context is done or the cache is gone. Whether a signal that ends it ever comes is up to the
  process, so the loop is a partial function, and \<open>None\<close> stands for a loop that never ends. A ticker
  with a period that is not positive panics.
\<close>

definition cleanup_tick :: "'w kube \<Rightarrow> ('w sys, unit) state" where
  "cleanup_tick K =
     do { t \<leftarrow> now K;
          modify (\<lambda>s. s\<lparr>leaderPodCache := map_option (prune_leaders t) (leaderPodCache s)\<rparr>) }"

datatype signal = Done | Tick

partial_function (option) cleanup_loop ::
  "'w kube \<Rightarrow> (nat \<Rightarrow> 'w sys \<Rightarrow> 'w sys) \<Rightarrow> (nat \<Rightarrow> signal) \<Rightarrow> nat \<Rightarrow> 'w sys \<Rightarrow> 'w sys option" where
  "cleanup_loop K others signals i s =
     (case signals i of
        Done \<Rightarrow> Some (others i s)
      | Tick \<Rightarrow>
          if leaderPodCache (others i s) = None then Some (others i s)
          else cleanup_loop K others signals (Suc i) (snd (run_state (cleanup_tick K) (others i s))))"

datatype 'a goroutine = TickerPanic | Returned 'a

definition cleanupLeaderPodCache ::
  "'w kube \<Rightarrow> (nat \<Rightarrow> 'w sys \<Rightarrow> 'w sys) \<Rightarrow> (nat \<Rightarrow> signal) \<Rightarrow> duration \<Rightarrow> 'w sys \<Rightarrow> 'w sys goroutine option"
  where
  "cleanupLeaderPodCache K others signals ttl s =
     (if leaderPodCache s = None then Some (Returned s)
      else if ttl div 2 \<le> 0 then Some TickerPanic
      else map_option Returned (cleanup_loop K others signals 0 s))"

abbreviation valid_leader :: "leader_cache \<Rightarrow> string \<Rightarrow> go_time \<Rightarrow> pod option" where
  "valid_leader c serviceKey t \<equiv> map_option clp_pod (cached_entry c serviceKey t)"

text \<open>A Go map holds a key once; the list does under every operation.\<close>

definition leader_cache_ok :: "leader_cache \<Rightarrow> bool" where
  "leader_cache_ok c \<longleftrightarrow>
     distinct (map fst c) \<and> list_all (\<lambda>(key, cached). clp_serviceKey cached = key) c"

lemma list_all_update: "list_all P c \<Longrightarrow> P (k, v) \<Longrightarrow> list_all P (AList.update k v c)"
  by (induction c) auto

lemma leader_cache_ok_put: "leader_cache_ok c \<Longrightarrow> leader_cache_ok (put_leader k p e c)"
  by (simp add: leader_cache_ok_def put_leader_def distinct_update list_all_update)

lemma leader_cache_ok_delete: "leader_cache_ok c \<Longrightarrow> leader_cache_ok (AList.delete k c)"
  using distinct_delete[of c k] by (auto simp: leader_cache_ok_def list_all_iff AList.delete_eq)

lemma leader_cache_ok_prune: "leader_cache_ok c \<Longrightarrow> leader_cache_ok (prune_leaders t c)"
  by (auto simp: leader_cache_ok_def prune_leaders_def list_all_iff distinct_map_filter)

lemma map_of_prune:
  "distinct (map fst c) \<Longrightarrow> map_of (prune_leaders t c) k =
     (case map_of c k of None \<Rightarrow> None
      | Some e \<Rightarrow> if t > clp_expiresAt e then None else Some e)"
proof (induction c)
  case (Cons x c)
  then have "fst x = k \<Longrightarrow> map_of c k = None" by (auto simp: map_of_eq_None_iff)
  with Cons show ?case by (cases x) (auto simp: prune_leaders_def split: option.splits)
qed (simp add: prune_leaders_def)

interpretation leader_pods: ttl_cache_pruned leader_cache_ok valid_leader put_leader "[]"
    AList.delete prune_leaders
proof
  show "leader_cache_ok []" by (simp add: leader_cache_ok_def)
  show "leader_cache_ok c \<Longrightarrow> leader_cache_ok (put_leader k v e c)" for c k v e
    by (rule leader_cache_ok_put)
  show "valid_leader (put_leader k v e c) k' t =
      (if k' = k then if t < e then Some v else None else valid_leader c k' t)" for k v e c k' t
    by (auto simp: cached_entry_def put_leader_def update_conv')
  show "valid_leader [] k t = None" for k t
    by (simp add: cached_entry_def)
  show "leader_cache_ok c \<Longrightarrow> leader_cache_ok (AList.delete k c)" for c k
    by (rule leader_cache_ok_delete)
  show "leader_cache_ok c \<Longrightarrow> leader_cache_ok (prune_leaders u c)" for c u
    by (rule leader_cache_ok_prune)
  show "valid_leader (AList.delete k c) k' t = (if k' = k then None else valid_leader c k' t)"
    for k c k' t
    by (auto simp: cached_entry_def delete_conv')
  show "valid_leader (prune_leaders u c) k t = valid_leader c k t"
    if "leader_cache_ok c" and "u \<le> t" for u t c k
    using that
    by (auto simp: cached_entry_def leader_cache_ok_def map_of_prune split: option.splits)
qed

subsection \<open>The clean-up goroutine\<close>

text \<open>The state after \<open>n\<close> ticks, the first of which is the \<open>i\<close>-th.\<close>

primrec cleanup_rounds ::
  "'w kube \<Rightarrow> (nat \<Rightarrow> 'w sys \<Rightarrow> 'w sys) \<Rightarrow> nat \<Rightarrow> nat \<Rightarrow> 'w sys \<Rightarrow> 'w sys" where
  "cleanup_rounds K others i 0 s = s"
| "cleanup_rounds K others i (Suc n) s =
     cleanup_rounds K others (Suc i) n (snd (run_state (cleanup_tick K) (others i s)))"

text \<open>The map is made when the reconciler is built, and no operation turns it back to nil.\<close>

definition keeps_map :: "(nat \<Rightarrow> 'w sys \<Rightarrow> 'w sys) \<Rightarrow> bool" where
  "keeps_map others \<longleftrightarrow>
     (\<forall>i s. leaderPodCache s \<noteq> None \<longrightarrow> leaderPodCache (others i s) \<noteq> None)"

lemma keeps_mapD: "keeps_map others \<Longrightarrow> leaderPodCache s \<noteq> None \<Longrightarrow> leaderPodCache (others i s) \<noteq> None"
  by (simp add: keeps_map_def)

lemma cleanup_tick_cache:
  "leaderPodCache (snd (run_state (cleanup_tick K) s)) =
     map_option (prune_leaders (fst (Now K (world s)))) (leaderPodCache s)"
  by (simp add: cleanup_tick_def run_now)

lemma cleanup_loop_result:
  assumes "keeps_map others" and "leaderPodCache s \<noteq> None"
    and "\<And>m. m < n \<Longrightarrow> signals (i + m) = Tick" and "signals (i + n) = Done"
  shows "cleanup_loop K others signals i s = Some (others (i + n) (cleanup_rounds K others i n s))"
  using assms(2-)
proof (induction n arbitrary: i s)
  case 0
  then show ?case by (subst cleanup_loop.simps) simp
next
  case (Suc n)
  let ?t = "snd (run_state (cleanup_tick K) (others i s))"
  have cache: "leaderPodCache (others i s) \<noteq> None" using assms(1) Suc.prems(1) by (rule keeps_mapD)
  have tick: "signals i = Tick" using Suc.prems(2)[of 0] by simp
  have "cleanup_loop K others signals (Suc i) ?t =
      Some (others (Suc i + n) (cleanup_rounds K others (Suc i) n ?t))"
    using Suc.prems(2)[of "Suc m" for m] Suc.prems(3) cache
    by (intro Suc.IH) (simp_all add: cleanup_tick_cache)
  then show ?case using cache tick by (subst cleanup_loop.simps) auto
qed

lemma cleanup_loop_stops:
  assumes "cleanup_loop K others signals i s = Some t"
    and "keeps_map others" and "leaderPodCache s \<noteq> None"
  shows "\<exists>n \<ge> i. signals n = Done"
proof -
  have "keeps_map others \<longrightarrow> leaderPodCache s \<noteq> None \<longrightarrow> (\<exists>n \<ge> i. signals n = Done)"
  proof (rule cleanup_loop.raw_induct[OF _ assms(1)], intro impI)
    fix loop K others signals i s t
    assume IH: "\<And>K others signals i s t. loop K others signals i s = Some t \<Longrightarrow>
        keeps_map others \<longrightarrow> leaderPodCache s \<noteq> None \<longrightarrow> (\<exists>n \<ge> i. signals n = Done)"
      and run: "(case signals i of
        Done \<Rightarrow> Some (others i s)
      | Tick \<Rightarrow>
          if leaderPodCache (others i s) = None then Some (others i s)
          else loop K others signals (Suc i) (snd (run_state (cleanup_tick K) (others i s)))) = Some t"
      and map: "keeps_map others" and cache: "leaderPodCache s \<noteq> None"
    show "\<exists>n \<ge> i. signals n = Done"
    proof (cases "signals i")
      case Tick
      have "leaderPodCache (others i s) \<noteq> None" using map cache by (rule keeps_mapD)
      with IH[of K others signals "Suc i"] run Tick map have "\<exists>n \<ge> Suc i. signals n = Done"
        by (auto simp: cleanup_tick_cache)
      then show ?thesis using Suc_leD by blast
    qed auto
  qed
  then show ?thesis using assms(2,3) by blast
qed

text \<open>The goroutine ends exactly when its context is done, unless there is no cache to clean.\<close>

lemma cleanup_goroutine_ends:
  assumes "keeps_map others" and "leaderPodCache s \<noteq> None" and "0 < ttl div 2"
  shows "(\<exists>t. cleanupLeaderPodCache K others signals ttl s = Some (Returned t)) \<longleftrightarrow>
    (\<exists>n. signals n = Done)"
proof
  assume "\<exists>t. cleanupLeaderPodCache K others signals ttl s = Some (Returned t)"
  then obtain t where "cleanup_loop K others signals 0 s = Some t"
    using assms(2,3) by (auto simp: cleanupLeaderPodCache_def)
  from cleanup_loop_stops[OF this assms(1,2)] show "\<exists>n. signals n = Done" by blast
next
  assume "\<exists>n. signals n = Done"
  then obtain n where n: "signals n = Done" and least: "\<And>m. m < n \<Longrightarrow> signals m \<noteq> Done"
    using exists_least_iff[of "\<lambda>n. signals n = Done"] by blast
  have "cleanup_loop K others signals 0 s = Some (others (0 + n) (cleanup_rounds K others 0 n s))"
  proof (rule cleanup_loop_result[OF assms(1,2)])
    show "signals (0 + m) = Tick" if "m < n" for m using least[OF that] by (cases "signals m") auto
  qed (simp add: n)
  then show "\<exists>t. cleanupLeaderPodCache K others signals ttl s = Some (Returned t)"
    using assms(2,3) by (simp add: cleanupLeaderPodCache_def)
qed

subsection \<open>getCurrentLeaderPod\<close>

definition cached_leader ::
  "'w kube \<Rightarrow> director_config \<Rightarrow> service \<Rightarrow> ('w sys, pod option) state" where
  "cached_leader K cfg svc =
     do { cache \<leftarrow> gets leaderPodCache;
          case Option.bind cache (\<lambda>c. map_of c (service_key (Namespace svc) (Name svc))) of
            None \<Rightarrow> ret None
          | Some cached \<Rightarrow>
              do { t \<leftarrow> now K;
                   if t < clp_expiresAt cached then
                     do { let podKey = object_key (clp_pod cached);
                          r \<leftarrow> call_api K (fastRetryConfig cfg) (GetPod K podKey) (CallGetPod podKey)
                            (Namespace svc) (Name svc) ''get_pod_cached'';
                          ret (case r of
                              Inr p \<Rightarrow> if UID p = UID (clp_pod cached) then Some p else None
                            | Inl err \<Rightarrow> None) }
                   else ret None } }"

text \<open>The time to live is a literal in the code; the configured one only paces the clean-up.\<close>

definition defaultCacheTTL :: duration where
  "defaultCacheTTL = 30 * 1000000000"

fun slice_leader ::
  "'w kube \<Rightarrow> director_config \<Rightarrow> service \<Rightarrow> endpoint list \<Rightarrow> ('w sys, pod option) state" where
  "slice_leader K cfg svc [] = ret None"
| "slice_leader K cfg svc (e # es) =
     (case pod_ref e of
        None \<Rightarrow> slice_leader K cfg svc es
      | Some ref \<Rightarrow>
          do { let podKey = (RefNamespace ref, RefName ref);
               r \<leftarrow> call_api K (fastRetryConfig cfg) (GetPod K podKey) (CallGetPod podKey)
                 (Namespace svc) (Name svc) ''get_pod'';
               case r of
                 Inr p \<Rightarrow>
                   if UID p = RefUID ref then
                     do { updateLeaderPodCache K (service_key (Namespace svc) (Name svc)) p
                            defaultCacheTTL;
                          ret (Some p) }
                   else slice_leader K cfg svc es
               | Inl err \<Rightarrow> slice_leader K cfg svc es })"

definition getCurrentLeaderPod ::
  "'w kube \<Rightarrow> director_config \<Rightarrow> service \<Rightarrow> ('w sys, pod option) state" where
  "getCurrentLeaderPod K cfg svc =
     do { hit \<leftarrow> cached_leader K cfg svc;
          case hit of
            Some p \<Rightarrow> ret (Some p)
          | None \<Rightarrow>
              do { slice \<leftarrow> call_api K (fastRetryConfig cfg) (GetSlice K (leader_key K svc))
                     (CallGetSlice (leader_key K svc)) (Namespace svc) (Name svc) ''get_endpointslice'';
                   case slice of
                     Inl err \<Rightarrow> ret None
                   | Inr endpointSlice \<Rightarrow>
                       do { found \<leftarrow> slice_leader K cfg svc (Endpoints endpointSlice);
                            case found of
                              Some p \<Rightarrow> ret (Some p)
                            | None \<Rightarrow>
                                do { clearLeaderPodCache (service_key (Namespace svc) (Name svc));
                                     ret None } } } }"

subsection \<open>Where a current leader comes from\<close>

text \<open>
  A pod the function returns was read from the server in the same run, and its UID is the one
  remembered: by an unexpired cache entry, or by the slice that was read in the run. A pod that was
  recreated under the same name is never taken for the leader.
\<close>

definition confirmed_leader ::
  "'w kube \<Rightarrow> service \<Rightarrow> leader_cache option \<Rightarrow> api_call list \<Rightarrow> pod \<Rightarrow> bool" where
  "confirmed_leader K svc cache new p \<longleftrightarrow>
     (\<exists>cached. Option.bind cache (\<lambda>c. map_of c (service_key (Namespace svc) (Name svc))) = Some cached \<and>
        UID p = UID (clp_pod cached) \<and>
        CallGetPod (object_key (clp_pod cached)) (Inr p) \<in> set new) \<or>
     (\<exists>slice e ref. CallGetSlice (leader_key K svc) (Inr slice) \<in> set new \<and>
        e \<in> set (Endpoints slice) \<and> pod_ref e = Some ref \<and> UID p = RefUID ref \<and>
        CallGetPod (RefNamespace ref, RefName ref) (Inr p) \<in> set new)"

lemma run_updateLeaderPodCache:
  assumes "run_state (updateLeaderPodCache K k p ttl) s = (u, s')"
  shows "calls s' = calls s" and "events s' = events s" and "Metrics s' = Metrics s"
    and "optedInServicesCache s' = optedInServicesCache s"
    and "leaderPodCache s' = map_option (put_leader k p (fst (Now K (world s)) + ttl)) (leaderPodCache s)"
  using assms
  by (auto simp: updateLeaderPodCache_def run_now split: if_splits)

lemma cached_leader_result:
  assumes "run_state (cached_leader K cfg svc) s = (r, s')"
  shows "\<exists>new. calls s' = calls s @ new \<and> leaderPodCache s' = leaderPodCache s \<and>
    (\<forall>p. r = Some p \<longrightarrow> confirmed_leader K svc (leaderPodCache s) new p)"
proof (cases "Option.bind (leaderPodCache s) (\<lambda>c. map_of c (service_key (Namespace svc) (Name svc)))")
  case None
  then show ?thesis using assms by (simp add: cached_leader_def)
next
  case (Some cached)
  let ?t = "fst (Now K (world s))" and ?s = "s\<lparr>world := snd (Now K (world s))\<rparr>"
  show ?thesis
  proof (cases "?t < clp_expiresAt cached")
    case False
    then show ?thesis using assms Some by (auto simp: cached_leader_def run_now)
  next
    case True
    let ?get = "call_api K (fastRetryConfig cfg) (GetPod K (object_key (clp_pod cached)))
      (CallGetPod (object_key (clp_pod cached))) (Namespace svc) (Name svc) ''get_pod_cached''"
    obtain q u where get: "run_state ?get ?s = (q, u)" by (cases "run_state ?get ?s")
    obtain new where "calls u = calls ?s @ new"
      and "\<And>a. q = Inr a \<Longrightarrow> CallGetPod (object_key (clp_pod cached)) q \<in> set new"
      by (rule call_api_calls[OF get]) blast
    then show ?thesis
      using assms Some True get call_api_frame(2)[OF get]
      by (auto simp: cached_leader_def run_now Let_def confirmed_leader_def
          split: sum.splits if_splits)
  qed
qed

lemma slice_leader_result:
  assumes "run_state (slice_leader K cfg svc es) s = (r, s')"
  shows "\<exists>new. calls s' = calls s @ new \<and> (\<forall>p. r = Some p \<longrightarrow> (\<exists>e ref. e \<in> set es \<and>
    pod_ref e = Some ref \<and> UID p = RefUID ref \<and>
    CallGetPod (RefNamespace ref, RefName ref) (Inr p) \<in> set new))"
  using assms
proof (induction es arbitrary: s)
  case (Cons e es)
  show ?case
  proof (cases "pod_ref e")
    case None
    with Cons.prems have "run_state (slice_leader K cfg svc es) s = (r, s')" by simp
    from Cons.IH[OF this] show ?thesis by fastforce
  next
    case (Some ref)
    let ?k = "(RefNamespace ref, RefName ref)"
    let ?get = "call_api K (fastRetryConfig cfg) (GetPod K ?k) (CallGetPod ?k) (Namespace svc)
      (Name svc) ''get_pod''"
    obtain q u where get: "run_state ?get s = (q, u)" by (cases "run_state ?get s")
    obtain new where new: "calls u = calls s @ new"
      and logged: "\<And>a. q = Inr a \<Longrightarrow> CallGetPod ?k q \<in> set new"
      by (rule call_api_calls[OF get]) blast
    show ?thesis
    proof (cases "\<exists>p. q = Inr p \<and> UID p = RefUID ref")
      case True
      then obtain p where p: "q = Inr p" "UID p = RefUID ref" by blast
      obtain v w where upd: "run_state (updateLeaderPodCache K
          (service_key (Namespace svc) (Name svc)) p defaultCacheTTL) u = (v, w)"
        by (metis prod.exhaust)
      then have "r = Some p" and "calls s' = calls u"
        using Cons.prems Some get p run_updateLeaderPodCache(1)[OF upd] by (auto simp: Let_def)
      then show ?thesis using new logged p Some by fastforce
    next
      case False
      then have "run_state (slice_leader K cfg svc es) u = (r, s')"
        using Cons.prems Some get by (auto simp: Let_def split: sum.splits)
      from Cons.IH[OF this] show ?thesis using new by fastforce
    qed
  qed
qed simp

lemma getCurrentLeaderPod_result:
  assumes "run_state (getCurrentLeaderPod K cfg svc) s = (r, s')"
  shows "\<exists>new. calls s' = calls s @ new \<and>
    (\<forall>p. r = Some p \<longrightarrow> confirmed_leader K svc (leaderPodCache s) new p)"
proof -
  obtain hit t where hit: "run_state (cached_leader K cfg svc) s = (hit, t)"
    by (cases "run_state (cached_leader K cfg svc) s")
  from cached_leader_result[OF hit] obtain new1 where new1: "calls t = calls s @ new1"
    and ok1: "\<And>p. hit = Some p \<Longrightarrow> confirmed_leader K svc (leaderPodCache s) new1 p" by blast
  show ?thesis
  proof (cases hit)
    case (Some p)
    then show ?thesis using assms hit new1 ok1 by (auto simp: getCurrentLeaderPod_def)
  next
    case None
    let ?get = "call_api K (fastRetryConfig cfg) (GetSlice K (leader_key K svc))
      (CallGetSlice (leader_key K svc)) (Namespace svc) (Name svc) ''get_endpointslice''"
    obtain q u where get: "run_state ?get t = (q, u)" by (cases "run_state ?get t")
    obtain new2 where new2: "calls u = calls t @ new2"
      and logged: "\<And>a. q = Inr a \<Longrightarrow> CallGetSlice (leader_key K svc) q \<in> set new2"
      by (rule call_api_calls[OF get]) blast
    show ?thesis
    proof (cases q)
      case (Inl e)
      then show ?thesis using assms hit None get new1 new2 by (auto simp: getCurrentLeaderPod_def)
    next
      case (Inr slice)
      obtain found v where found: "run_state (slice_leader K cfg svc (Endpoints slice)) u = (found, v)"
        by (metis prod.exhaust)
      from slice_leader_result[OF found] obtain new3 where new3: "calls v = calls u @ new3"
        and ok3: "\<And>p. found = Some p \<Longrightarrow> \<exists>e ref. e \<in> set (Endpoints slice) \<and>
          pod_ref e = Some ref \<and> UID p = RefUID ref \<and>
          CallGetPod (RefNamespace ref, RefName ref) (Inr p) \<in> set new3" by blast
      have "r = found" and "calls s' = calls v"
        using assms hit None get Inr found
        by (auto simp: getCurrentLeaderPod_def clearLeaderPodCache_def split: option.splits)
      moreover have "confirmed_leader K svc (leaderPodCache s) (new1 @ new2 @ new3) p"
        if "found = Some p" for p
        using ok3[OF that] logged[OF Inr] Inr by (fastforce simp: confirmed_leader_def)
      ultimately show ?thesis using new1 new2 new3 by auto
    qed
  qed
qed

end
