(* ===== verification/OptedCache.thy ===== *)
theory OptedCache
  imports Retry Naming
begin

text \<open>
  The cache of opted-in Services and the watch handlers that use it (\<^verbatim>\<open>mapPodToService\<close>,
  \<^verbatim>\<open>mapEndpointSliceToService\<close>, \<^verbatim>\<open>updateOptedInServicesCacheLocked\<close> and
  \<^verbatim>\<open>updateOptedInServicesCacheForService\<close> of \<^verbatim>\<open>service_director.go\<close>). The write lock makes each
  update atomic, so the operations are modelled one after the other.
\<close>

type_synonym opted_cache = "(string \<times> cached_service list) list"

text \<open>A missing namespace reads as a nil slice.\<close>

definition opted_of :: "opted_cache \<Rightarrow> string \<Rightarrow> cached_service list" where
  "opted_of c ns = (case map_of c ns of None \<Rightarrow> [] | Some cached \<Rightarrow> cached)"

definition set_opted :: "string \<Rightarrow> cached_service list \<Rightarrow> ('w sys, unit) state" where
  "set_opted ns cached =
     modify (\<lambda>s. s\<lparr>optedInServicesCache := AList.update ns cached (optedInServicesCache s)\<rparr>)"

lemma opted_of_update [simp]:
  "opted_of (AList.update ns cached c) ns' = (if ns' = ns then cached else opted_of c ns')"
  by (simp add: opted_of_def update_conv')

lemma run_set_opted [simp]:
  "run_state (set_opted ns cached) s =
     ((), s\<lparr>optedInServicesCache := AList.update ns cached (optedInServicesCache s)\<rparr>)"
  by (simp add: set_opted_def)

text \<open>A Service is watched when it is opted in and selects pods.\<close>

definition watched :: "service \<Rightarrow> bool" where
  "watched svc \<longleftrightarrow> zen_lead_enabled svc \<and> Selector svc \<noteq> []"

subsection \<open>Filling the cache from the server\<close>

fun collect_opted :: "'w kube \<Rightarrow> service list \<Rightarrow> ('w sys, cached_service list) state" where
  "collect_opted K [] = ret []"
| "collect_opted K (svc # rest) =
     (if \<not> zen_lead_enabled svc then collect_opted K rest
      else if Selector svc = [] then collect_opted K rest
      else do { t \<leftarrow> now K;
                cached \<leftarrow> collect_opted K rest;
                ret (\<lparr>cs_name = Name svc, cs_selector = Selector svc, cs_lastAccess = t\<rparr> # cached) })"

text \<open>
  The size limit. \<^verbatim>\<open>sort.Slice\<close> puts the entries that were read last first and leaves the order of
  entries with equal access times open; \<open>SortTies\<close> stands for the order it takes.
\<close>

definition limit_cache :: "'w kube \<Rightarrow> int \<Rightarrow> cached_service list \<Rightarrow> cached_service list" where
  "limit_cache K n cached =
     (if 0 < n \<and> n < int (length cached)
      then take (nat n) (sort_key (\<lambda>c. (- cs_lastAccess c, SortTies K cached c)) cached)
      else cached)"

definition updateOptedInServicesCacheLocked ::
  "'w kube \<Rightarrow> director_config \<Rightarrow> string \<Rightarrow> ('w sys, unit) state" where
  "updateOptedInServicesCacheLocked K cfg ns =
     do { startTime \<leftarrow> now K;
          serviceList \<leftarrow> call_api K (DefaultRetry K) (ListServices K ns []) (CallListServices ns [])
            ns '''' ''list_services_cache'';
          case serviceList of
            Inl err \<Rightarrow>
              do { late \<leftarrow> gets (\<lambda>s. DeadlineExceeded K (world s));
                   onlyif late (metric (RecordTimeout ns ''cache_update'')) }
          | Inr items \<Rightarrow>
              do { found \<leftarrow> collect_opted K items;
                   let cached = limit_cache K (maxCacheSizePerNamespace cfg) found;
                   set_opted ns cached;
                   recorder \<leftarrow> gets Metrics;
                   onlyif (recorder \<noteq> None)
                     (do { d \<leftarrow> since K startTime;
                           metric (RecordCacheSize ns (length cached));
                           metric (RecordCacheUpdateDuration ns d) }) } }"

definition updateOptedInServicesCache ::
  "'w kube \<Rightarrow> director_config \<Rightarrow> string \<Rightarrow> ('w sys, unit) state" where
  "updateOptedInServicesCache K cfg ns = updateOptedInServicesCacheLocked K cfg ns"

subsection \<open>Keeping one Service in step\<close>

fun remove_service :: "string \<Rightarrow> cached_service list \<Rightarrow> cached_service list" where
  "remove_service n [] = []"
| "remove_service n (c # cs) = (if cs_name c = n then cs else c # remove_service n cs)"

fun put_service :: "string \<Rightarrow> strmap \<Rightarrow> go_time \<Rightarrow> cached_service list \<Rightarrow> cached_service list" where
  "put_service n selector t [] = [\<lparr>cs_name = n, cs_selector = selector, cs_lastAccess = t\<rparr>]"
| "put_service n selector t (c # cs) =
     (if cs_name c = n then c\<lparr>cs_selector := selector, cs_lastAccess := t\<rparr> # cs
      else c # put_service n selector t cs)"

definition updateOptedInServicesCacheForService ::
  "'w kube \<Rightarrow> service \<Rightarrow> ('w sys, unit) state" where
  "updateOptedInServicesCacheForService K svc =
     do { cached \<leftarrow> gets (\<lambda>s. opted_of (optedInServicesCache s) (Namespace svc));
          if \<not> zen_lead_enabled svc then
            onlyif (Name svc \<in> set (map cs_name cached))
              (set_opted (Namespace svc) (remove_service (Name svc) cached))
          else if Selector svc = [] then
            onlyif (Name svc \<in> set (map cs_name cached))
              (set_opted (Namespace svc) (remove_service (Name svc) cached))
          else
            do { t \<leftarrow> now K;
                 set_opted (Namespace svc) (put_service (Name svc) (Selector svc) t cached) } }"

subsection \<open>The watch handlers\<close>

definition requests_for :: "'w kube \<Rightarrow> pod \<Rightarrow> cached_service list \<Rightarrow> nsname list" where
  "requests_for K p cached =
     map (\<lambda>c. (Namespace p, cs_name c)) (filter (\<lambda>c. SelectorMatches K (cs_selector c) (Labels p)) cached)"

definition mapPodToService ::
  "'w kube \<Rightarrow> director_config \<Rightarrow> pod \<Rightarrow> ('w sys, nsname list) state" where
  "mapPodToService K cfg p =
     do { cached \<leftarrow> gets (\<lambda>s. opted_of (optedInServicesCache s) (Namespace p));
          (if cached = [] then
            do { again \<leftarrow> gets (\<lambda>s. opted_of (optedInServicesCache s) (Namespace p));
                 onlyif (again = [])
                   (do { metric (RecordCacheMiss (Namespace p));
                         updateOptedInServicesCacheLocked K cfg (Namespace p) }) }
          else
            do { t \<leftarrow> now K;
                 again \<leftarrow> gets (\<lambda>s. opted_of (optedInServicesCache s) (Namespace p));
                 set_opted (Namespace p) (map (\<lambda>c. c\<lparr>cs_lastAccess := t\<rparr>) again);
                 metric (RecordCacheHit (Namespace p)) });
          services \<leftarrow> gets (\<lambda>s. opted_of (optedInServicesCache s) (Namespace p));
          ret (requests_for K p services) }"

definition mapEndpointSliceToService :: "endpoint_slice \<Rightarrow> nsname list" where
  "mapEndpointSliceToService slice =
     (if map_get (Labels slice) LabelEndpointSliceManagedBy \<noteq> LabelEndpointSliceManagedByValue then []
      else case map_of (Labels slice) LabelSourceService of
             None \<Rightarrow> []
           | Some sourceServiceName \<Rightarrow> [(Namespace slice, sourceServiceName)])"

subsection \<open>The registry the cache implements\<close>

text \<open>
  The abstract view of the cache is a finite map from Service names to selectors. The update of a
  single Service is the update of that map, and the requests for a pod are the names whose
  selector matches.
\<close>

definition registry :: "cached_service list \<Rightarrow> string \<Rightarrow> strmap option" where
  "registry cached = map_of (map (\<lambda>c. (cs_name c, cs_selector c)) cached)"

definition cached_ok :: "cached_service list \<Rightarrow> bool" where
  "cached_ok cached \<longleftrightarrow> distinct (map cs_name cached) \<and> list_all (\<lambda>c. cs_selector c \<noteq> []) cached"

definition opted_cache_ok :: "opted_cache \<Rightarrow> bool" where
  "opted_cache_ok c \<longleftrightarrow> distinct (map fst c) \<and> list_all (\<lambda>(ns, cached). cached_ok cached) c"

locale service_registry =
  fixes inv :: "'c \<Rightarrow> bool"
    and selector_of :: "'c \<Rightarrow> string \<Rightarrow> strmap option"
    and enrol :: "string \<Rightarrow> strmap \<Rightarrow> go_time \<Rightarrow> 'c \<Rightarrow> 'c"
    and withdraw :: "string \<Rightarrow> 'c \<Rightarrow> 'c"
  assumes inv_enrol: "inv c \<Longrightarrow> sel \<noteq> [] \<Longrightarrow> inv (enrol n sel t c)"
    and inv_withdraw: "inv c \<Longrightarrow> inv (withdraw n c)"
    and selector_of_enrol: "inv c \<Longrightarrow> selector_of (enrol n sel t c) = (selector_of c)(n \<mapsto> sel)"
    and selector_of_withdraw: "inv c \<Longrightarrow> selector_of (withdraw n c) = (selector_of c)(n := None)"
begin

definition sync :: "service \<Rightarrow> go_time \<Rightarrow> 'c \<Rightarrow> 'c" where
  "sync svc t c = (if watched svc then enrol (Name svc) (Selector svc) t c else withdraw (Name svc) c)"

lemma inv_sync: "inv c \<Longrightarrow> inv (sync svc t c)"
  by (auto simp: sync_def watched_def inv_enrol inv_withdraw)

lemma selector_of_sync:
  "inv c \<Longrightarrow> selector_of (sync svc t c) =
     (selector_of c)(Name svc := if watched svc then Some (Selector svc) else None)"
  by (auto simp: sync_def selector_of_enrol selector_of_withdraw)

text \<open>The last observation of every Service decides, whatever came before.\<close>

lemma selector_of_history:
  "inv c \<Longrightarrow>
   inv (fold (\<lambda>(svc, t). sync svc t) obs c) \<and>
   selector_of (fold (\<lambda>(svc, t). sync svc t) obs c) n =
     (case List.find (\<lambda>(svc, t). Name svc = n) (rev obs) of
        Some (svc, t) \<Rightarrow> if watched svc then Some (Selector svc) else None
      | None \<Rightarrow> selector_of c n)"
proof (induction obs rule: rev_induct)
  case (snoc ob obs)
  then show ?case by (cases ob) (auto simp: selector_of_sync inv_sync split: option.splits)
qed simp

end

lemma names_put: "set (map cs_name (put_service n sel t cs)) = insert n (set (map cs_name cs))"
  by (induction cs) auto

lemma names_remove: "set (map cs_name (remove_service n cs)) \<subseteq> set (map cs_name cs)"
  by (induction cs) auto

lemma cached_ok_put: "cached_ok cs \<Longrightarrow> sel \<noteq> [] \<Longrightarrow> cached_ok (put_service n sel t cs)"
proof (induction cs)
  case (Cons c cs)
  then show ?case using names_put[of n sel t cs] by (auto simp: cached_ok_def)
qed (simp add: cached_ok_def)

lemma cached_ok_remove: "cached_ok cs \<Longrightarrow> cached_ok (remove_service n cs)"
proof (induction cs)
  case (Cons c cs)
  then show ?case using names_remove[of n cs] by (auto simp: cached_ok_def)
qed (simp add: cached_ok_def)

lemma registry_put: "registry (put_service n sel t cs) = (registry cs)(n \<mapsto> sel)"
  by (induction cs) (auto simp: registry_def fun_eq_iff)

lemma registry_None: "registry cs n = None \<longleftrightarrow> n \<notin> set (map cs_name cs)"
  by (simp add: registry_def map_of_eq_None_iff image_image)

lemma registry_remove: "cached_ok cs \<Longrightarrow> registry (remove_service n cs) = (registry cs)(n := None)"
proof (induction cs)
  case (Cons c cs)
  then show ?case
    using registry_None[of cs n] by (auto simp: registry_def cached_ok_def fun_eq_iff)
qed (simp add: registry_def)

interpretation opted: service_registry cached_ok registry put_service remove_service
  by unfold_locales (auto simp: cached_ok_put cached_ok_remove registry_put registry_remove)

lemma remove_absent: "n \<notin> set (map cs_name cs) \<Longrightarrow> remove_service n cs = cs"
  by (induction cs) auto

lemma run_updateForService:
  assumes "run_state (updateOptedInServicesCacheForService K svc) s = (u, s')"
  obtains t where "opted_of (optedInServicesCache s') =
      (opted_of (optedInServicesCache s))(Namespace svc :=
         opted.sync svc t (opted_of (optedInServicesCache s) (Namespace svc)))"
    and "calls s' = calls s" and "events s' = events s" and "Metrics s' = Metrics s"
    and "leaderPodCache s' = leaderPodCache s"
  using assms
  by (auto simp: updateOptedInServicesCacheForService_def opted.sync_def watched_def run_now
      fun_eq_iff remove_absent split: if_splits)

text \<open>Observing a Service brings its entry up to date and touches no other entry.\<close>

lemma updateForService_registry:
  assumes "run_state (updateOptedInServicesCacheForService K svc) s = (u, s')"
    and "cached_ok (opted_of (optedInServicesCache s) (Namespace svc))"
  shows "cached_ok (opted_of (optedInServicesCache s') (Namespace svc))"
    and "registry (opted_of (optedInServicesCache s') (Namespace svc)) =
      (registry (opted_of (optedInServicesCache s) (Namespace svc)))
        (Name svc := if watched svc then Some (Selector svc) else None)"
proof -
  obtain t where "opted_of (optedInServicesCache s') =
      (opted_of (optedInServicesCache s))(Namespace svc :=
         opted.sync svc t (opted_of (optedInServicesCache s) (Namespace svc)))"
    by (rule run_updateForService[OF assms(1)])
  then show "cached_ok (opted_of (optedInServicesCache s') (Namespace svc))"
    and "registry (opted_of (optedInServicesCache s') (Namespace svc)) =
      (registry (opted_of (optedInServicesCache s) (Namespace svc)))
        (Name svc := if watched svc then Some (Selector svc) else None)"
    using assms(2) by (simp_all add: opted.inv_sync opted.selector_of_sync)
qed

lemma requests_for_iff:
  assumes "cached_ok cached"
  shows "q \<in> set (requests_for K p cached) \<longleftrightarrow>
    fst q = Namespace p \<and>
    (\<exists>sel. registry cached (snd q) = Some sel \<and> SelectorMatches K sel (Labels p))"
proof -
  have "registry cached n = Some sel \<longleftrightarrow> (\<exists>c \<in> set cached. cs_name c = n \<and> cs_selector c = sel)"
    for n sel
  proof -
    have "distinct (map fst (map (\<lambda>c. (cs_name c, cs_selector c)) cached))"
      using assms by (simp add: cached_ok_def comp_def)
    from Some_eq_map_of_iff[OF this, of sel n] show ?thesis
      by (auto simp: registry_def eq_commute image_iff)
  qed
  then show ?thesis by (cases q) (auto simp: requests_for_def)
qed

subsection \<open>What the handlers compute\<close>

lemma run_collect_opted:
  assumes "run_state (collect_opted K items) s = (found, s')"
  shows "map (\<lambda>c. (cs_name c, cs_selector c)) found =
      map (\<lambda>svc. (Name svc, Selector svc)) (filter watched items) \<and>
    calls s' = calls s \<and> events s' = events s \<and> Metrics s' = Metrics s \<and>
    optedInServicesCache s' = optedInServicesCache s \<and> leaderPodCache s' = leaderPodCache s"
  using assms
proof (induction items arbitrary: s found)
  case (Cons svc items)
  show ?case
  proof (cases "watched svc")
    case True
    let ?s = "s\<lparr>world := snd (Now K (world s))\<rparr>"
    obtain rest where rest: "run_state (collect_opted K items) ?s = (rest, s')"
      and "found = \<lparr>cs_name = Name svc, cs_selector = Selector svc,
        cs_lastAccess = fst (Now K (world s))\<rparr> # rest"
      using Cons.prems True by (auto simp: watched_def run_now split: prod.splits)
    with Cons.IH[OF rest] True show ?thesis by simp
  next
    case False
    then have "run_state (collect_opted K items) s = (found, s')"
      using Cons.prems by (auto simp: watched_def split: if_splits)
    with Cons.IH[OF this] False show ?thesis by simp
  qed
qed simp

lemma registry_collected:
  assumes "run_state (collect_opted K items) s = (found, s')"
  shows "registry found = map_of (map (\<lambda>svc. (Name svc, Selector svc)) (filter watched items))"
    and "distinct (map Name items) \<Longrightarrow> cached_ok found"
proof -
  have found: "map (\<lambda>c. (cs_name c, cs_selector c)) found =
      map (\<lambda>svc. (Name svc, Selector svc)) (filter watched items)"
    using run_collect_opted[OF assms] by blast
  then show "registry found = map_of (map (\<lambda>svc. (Name svc, Selector svc)) (filter watched items))"
    by (simp add: registry_def)
  have names: "map cs_name found = map Name (filter watched items)"
    using arg_cong[OF found, of "map fst"] by (simp add: comp_def)
  have "\<forall>x \<in> set (map (\<lambda>c. (cs_name c, cs_selector c)) found). snd x \<noteq> []"
    by (subst found) (auto simp: watched_def)
  then have "list_all (\<lambda>c. cs_selector c \<noteq> []) found" by (auto simp: list_all_iff)
  then show "distinct (map Name items) \<Longrightarrow> cached_ok found"
    by (simp add: cached_ok_def names distinct_map_filter)
qed

lemma limit_cache_length: "0 < n \<Longrightarrow> int (length (limit_cache K n cached)) \<le> n"
  by (auto simp: limit_cache_def)

lemma limit_cache_id: "int (length cached) \<le> n \<or> n \<le> 0 \<Longrightarrow> limit_cache K n cached = cached"
  by (auto simp: limit_cache_def)

lemma limit_cache_subset: "set (limit_cache K n cached) \<subseteq> set cached"
  by (auto simp: limit_cache_def dest!: in_set_takeD)

lemma distinct_limit_cache:
  assumes "distinct (map cs_name cached)"
  shows "distinct (map cs_name (limit_cache K n cached))"
proof -
  have "distinct (map cs_name (sort_key (\<lambda>c. (- cs_lastAccess c, SortTies K cached c)) cached))"
    using assms by (simp add: distinct_map)
  then show ?thesis
    using assms by (auto simp: limit_cache_def simp flip: take_map intro: distinct_take)
qed

lemma cached_ok_limit: "cached_ok cached \<Longrightarrow> cached_ok (limit_cache K n cached)"
  using limit_cache_subset[of K n cached] by (auto simp: cached_ok_def distinct_limit_cache list_all_iff)

text \<open>
  A refresh either leaves the cache as it was, when the Services cannot be listed, or replaces the
  entry of the namespace by the watched Services of a list the server gave, up to the limit.
\<close>

definition refreshed ::
  "'w kube \<Rightarrow> director_config \<Rightarrow> string \<Rightarrow> opted_cache \<Rightarrow> service list \<Rightarrow> opted_cache \<Rightarrow> bool" where
  "refreshed K cfg ns c items c' \<longleftrightarrow>
     (\<exists>found. registry found = map_of (map (\<lambda>svc. (Name svc, Selector svc)) (filter watched items)) \<and>
        length found = length (filter watched items) \<and>
        (distinct (map Name items) \<longrightarrow> cached_ok found) \<and>
        c' = AList.update ns (limit_cache K (maxCacheSizePerNamespace cfg) found) c)"

lemma updateLocked_listed:
  assumes run: "run_state (updateOptedInServicesCacheLocked K cfg ns) s = (u, s')"
    and list: "run_state (call_api K (DefaultRetry K) (ListServices K ns []) (CallListServices ns [])
      ns '''' ''list_services_cache'') (s\<lparr>world := snd (Now K (world s))\<rparr>) = (Inr items, t)"
  shows "refreshed K cfg ns (optedInServicesCache s) items (optedInServicesCache s')"
    and "calls s' = calls t" and "events s' = events s" and "leaderPodCache s' = leaderPodCache s"
proof -
  note frame = call_api_frame[OF list]
  obtain found v where found: "run_state (collect_opted K items) t = (found, v)"
    by (cases "run_state (collect_opted K items) t")
  note collected = run_collect_opted[OF found]
  let ?c = "AList.update ns (limit_cache K (maxCacheSizePerNamespace cfg) found) (optedInServicesCache s)"
  have len: "length found = length (filter watched items)"
    using arg_cong[OF conjunct1[OF collected], of length] by simp
  have "refreshed K cfg ns (optedInServicesCache s) items ?c"
    unfolding refreshed_def using registry_collected[OF found] len by blast
  moreover have after: "calls s' = calls t \<and> events s' = events s \<and>
      leaderPodCache s' = leaderPodCache s \<and> optedInServicesCache s' = ?c"
    using run list found frame collected
    by (auto simp: updateOptedInServicesCacheLocked_def run_now Let_def since_def split: if_splits)
  ultimately show "refreshed K cfg ns (optedInServicesCache s) items (optedInServicesCache s')" by simp
  show "calls s' = calls t" and "events s' = events s" and "leaderPodCache s' = leaderPodCache s"
    using after by simp_all
qed

lemma updateLocked_result:
  assumes "run_state (updateOptedInServicesCacheLocked K cfg ns) s = (u, s')"
  shows "\<exists>new. calls s' = calls s @ new \<and> events s' = events s \<and>
    leaderPodCache s' = leaderPodCache s \<and>
    (optedInServicesCache s' = optedInServicesCache s \<or>
     (\<exists>items. CallListServices ns [] (Inr items) \<in> set new \<and>
        refreshed K cfg ns (optedInServicesCache s) items (optedInServicesCache s')))"
proof -
  let ?s = "s\<lparr>world := snd (Now K (world s))\<rparr>"
  let ?list = "call_api K (DefaultRetry K) (ListServices K ns []) (CallListServices ns []) ns ''''
    ''list_services_cache''"
  obtain q t where list: "run_state ?list ?s = (q, t)" by (cases "run_state ?list ?s")
  obtain new where new: "calls t = calls ?s @ new"
    and logged: "\<And>a. q = Inr a \<Longrightarrow> CallListServices ns [] q \<in> set new"
    by (rule call_api_calls[OF list]) blast
  note frame = call_api_frame[OF list]
  show ?thesis
  proof (cases q)
    case (Inl e)
    then show ?thesis
      using assms list new frame
      by (auto simp: updateOptedInServicesCacheLocked_def run_now split: if_splits)
  next
    case (Inr items)
    from updateLocked_listed[OF assms list[unfolded Inr]] new logged[OF Inr] Inr show ?thesis
      by auto
  qed
qed

lemma registry_touch: "registry (map (\<lambda>c. c\<lparr>cs_lastAccess := t\<rparr>) cached) = registry cached"
  by (simp add: registry_def comp_def)

lemma cached_ok_refreshed:
  "refreshed K cfg ns c items c' \<Longrightarrow> distinct (map Name items) \<Longrightarrow> cached_ok (opted_of c' ns)"
  by (auto simp: refreshed_def cached_ok_limit)

lemma registry_refreshed:
  assumes "refreshed K cfg ns c items c'"
    and "int (length (filter watched items)) \<le> maxCacheSizePerNamespace cfg"
  shows "registry (opted_of c' ns) = map_of (map (\<lambda>svc. (Name svc, Selector svc)) (filter watched items))"
  using assms by (auto simp: refreshed_def limit_cache_id)

lemma mapPodToService_hit:
  assumes "run_state (mapPodToService K cfg p) s = (r, s')"
    and "opted_of (optedInServicesCache s) (Namespace p) \<noteq> []"
  shows "r = requests_for K p (opted_of (optedInServicesCache s) (Namespace p))"
    and "registry (opted_of (optedInServicesCache s') (Namespace p)) =
      registry (opted_of (optedInServicesCache s) (Namespace p))"
    and "calls s' = calls s"
  using assms
  by (auto simp: mapPodToService_def run_now registry_touch requests_for_def comp_def filter_map)

lemma mapPodToService_miss:
  assumes "run_state (mapPodToService K cfg p) s = (r, s')"
    and "opted_of (optedInServicesCache s) (Namespace p) = []"
  shows "r = requests_for K p (opted_of (optedInServicesCache s') (Namespace p)) \<and>
    (\<exists>new. calls s' = calls s @ new \<and>
     (optedInServicesCache s' = optedInServicesCache s \<or>
      (\<exists>items. CallListServices (Namespace p) [] (Inr items) \<in> set new \<and>
         refreshed K cfg (Namespace p) (optedInServicesCache s) items (optedInServicesCache s'))))"
proof -
  let ?s = "s\<lparr>Metrics := map_option (\<lambda>l. l @ RecordCacheMiss (Namespace p)) (Metrics s)\<rparr>"
  obtain u t where upd: "run_state (updateOptedInServicesCacheLocked K cfg (Namespace p)) ?s = (u, t)"
    by (cases "run_state (updateOptedInServicesCacheLocked K cfg (Namespace p)) ?s")
  have "t = s'" and "r = requests_for K p (opted_of (optedInServicesCache s') (Namespace p))"
    using assms upd by (auto simp: mapPodToService_def)
  with updateLocked_result[OF upd] show ?thesis by auto
qed

end
