(* ===== verification/GoNet.thy ===== *)
theory GoNet
  imports GoStd
begin

text \<open>
  \<^verbatim>\<open>net.ParseIP\<close> and \<^verbatim>\<open>IP.To4\<close>, which decide the address family of an EndpointSlice. An
  address is its sixteen bytes; an IPv4 address is held in its IPv6-mapped form, as in Go. An
  address with a zone is no IP.
\<close>

fun split_dots :: "string \<Rightarrow> string list" where
  "split_dots [] = [[]]"
| "split_dots (c # s) =
     (if c = CHR ''.'' then [] # split_dots s
      else case split_dots s of [] \<Rightarrow> [[c]] | f # fs \<Rightarrow> (c # f) # fs)"

text \<open>One decimal field: digits only, at least one, no superfluous leading zero, at most 255.\<close>

definition ipv4_field :: "string \<Rightarrow> nat option" where
  "ipv4_field f =
     (if f = [] \<or> \<not> list_all is_digit f then None
      else if length f > 1 \<and> hd f = CHR ''0'' then None
      else let v = foldl (\<lambda>v c. v * 10 + (of_char c - 48)) 0 f in if v > 255 then None else Some v)"

fun all_some :: "'a option list \<Rightarrow> 'a list option" where
  "all_some [] = Some []"
| "all_some (x # xs) =
     (case x of None \<Rightarrow> None
      | Some a \<Rightarrow> (case all_some xs of None \<Rightarrow> None | Some as \<Rightarrow> Some (a # as)))"

definition parseIPv4 :: "string \<Rightarrow> nat list option" where
  "parseIPv4 s =
     (let fs = split_dots s in if length fs \<noteq> 4 then None else all_some (map ipv4_field fs))"

definition hex_val :: "char \<Rightarrow> nat option" where
  "hex_val c =
     (let n = of_char c :: nat in
      if 48 \<le> n \<and> n \<le> 57 then Some (n - 48)
      else if 97 \<le> n \<and> n \<le> 102 then Some (n - 97 + 10)
      else if 65 \<le> n \<and> n \<le> 70 then Some (n - 65 + 10)
      else None)"

definition is_hex :: "char \<Rightarrow> bool" where
  "is_hex c \<longleftrightarrow> hex_val c \<noteq> None"

definition hex_word :: "string \<Rightarrow> nat" where
  "hex_word s = foldl (\<lambda>v c. v * 16 + the (hex_val c)) 0 s"

text \<open>
  The loop over hexadecimal groups. \<open>ip\<close> are the bytes so far, \<open>ell\<close> the position of the
  ellipsis. A group is one to four digits; a group followed by a dot is a trailing IPv4
  address. The result holds the bytes, the ellipsis and the text left over.
\<close>

fun ipv6_groups ::
  "nat \<Rightarrow> nat list \<Rightarrow> nat option \<Rightarrow> string \<Rightarrow> (nat list \<times> nat option \<times> string) option" where
  "ipv6_groups 0 ip ell s = Some (ip, ell, s)"
| "ipv6_groups (Suc n) ip ell s =
     (let g = takeWhile is_hex s; r = dropWhile is_hex s in
      if length g > 4 then None
      else if g = [] then None
      else if r \<noteq> [] \<and> hd r = CHR ''.'' then
        (if ell = None \<and> length ip \<noteq> 12 then None
         else if length ip + 4 > 16 then None
         else case parseIPv4 s of None \<Rightarrow> None | Some bs \<Rightarrow> Some (ip @ bs, ell, []))
      else let w = hex_word g; ip' = ip @ [w div 256, w mod 256] in
        (case r of
           [] \<Rightarrow> Some (ip', ell, [])
         | c # r1 \<Rightarrow>
             if c \<noteq> CHR '':'' then None
             else (case r1 of
               [] \<Rightarrow> None
             | d # r2 \<Rightarrow>
                 if d = CHR '':'' then
                   (if ell \<noteq> None then None
                    else if r2 = [] then Some (ip', Some (length ip'), [])
                    else ipv6_groups n ip' (Some (length ip')) r2)
                 else ipv6_groups n ip' ell r1)))"

definition parseIPv6 :: "string \<Rightarrow> nat list option" where
  "parseIPv6 s =
     (let lead = take 2 s = '':''@'':'';
          s' = if lead then drop 2 s else s;
          ell = if lead then Some 0 else None
      in if lead \<and> s' = [] then Some (replicate 16 0)
         else case ipv6_groups 8 [] ell s' of None \<Rightarrow> None
         | Some (ip, ell', rest) \<Rightarrow>
             if rest \<noteq> [] then None
             else (case ell' of
               None \<Rightarrow> if length ip < 16 then None else Some ip
             | Some e \<Rightarrow>
                 if length ip < 16
                 then Some (take e ip @ replicate (16 - length ip) 0 @ drop e ip)
                 else None))"

definition v4_prefix :: "nat list" where
  "v4_prefix = replicate 10 0 @ [255, 255]"

text \<open>A text with a zone is either no address or an address with a zone: no IP in both cases.\<close>

definition ParseIP :: "string \<Rightarrow> nat list option" where
  "ParseIP s =
     (case List.find (\<lambda>c. c = CHR ''.'' \<or> c = CHR '':'' \<or> c = CHR 0x25) s of
        None \<Rightarrow> None
      | Some c \<Rightarrow>
          if c = CHR ''.'' then map_option (\<lambda>bs. v4_prefix @ bs) (parseIPv4 s)
          else if c = CHR '':'' then
            (if CHR 0x25 \<in> set s then None else parseIPv6 s)
          else None)"

definition To4 :: "nat list \<Rightarrow> nat list option" where
  "To4 ip =
     (if length ip = 4 then Some ip
      else if length ip = 16 \<and> take 12 ip = v4_prefix then Some (drop 12 ip)
      else None)"

lemma all_some_length: "all_some xs = Some ys \<Longrightarrow> length ys = length xs"
  by (induction xs arbitrary: ys) (auto split: option.splits)

lemma all_some_mem: "all_some xs = Some ys \<Longrightarrow> y \<in> set ys \<Longrightarrow> Some y \<in> set xs"
  by (induction xs arbitrary: ys) (auto split: option.splits)

lemma ipv4_field_byte: "ipv4_field f = Some v \<Longrightarrow> v < 256"
  by (auto simp: ipv4_field_def Let_def split: if_splits)

lemma parseIPv4_bytes:
  assumes "parseIPv4 s = Some bs"
  shows "length bs = 4" and "b \<in> set bs \<Longrightarrow> b < 256"
proof -
  from assms have len: "length (split_dots s) = 4"
    and all: "all_some (map ipv4_field (split_dots s)) = Some bs"
    by (auto simp: parseIPv4_def Let_def split: if_splits)
  then show "length bs = 4" using all_some_length by force
  have "Some y \<in> set (map ipv4_field (split_dots s))" if "y \<in> set bs" for y
    using all_some_mem[OF all that] .
  then show "b \<in> set bs \<Longrightarrow> b < 256" by (metis imageE image_set ipv4_field_byte)
qed

text \<open>A dotted address always has its four-byte form.\<close>

lemma To4_dotted: "length bs = 4 \<Longrightarrow> To4 (v4_prefix @ bs) = Some bs"
  by (simp add: To4_def v4_prefix_def)

definition ellipsis_ok :: "nat option \<Rightarrow> nat list \<Rightarrow> bool" where
  "ellipsis_ok ell ip \<longleftrightarrow> (case ell of None \<Rightarrow> True | Some e \<Rightarrow> e \<le> length ip)"

lemma ellipsis_ok_simps [simp]:
  "ellipsis_ok None ip" "ellipsis_ok (Some e) ip \<longleftrightarrow> e \<le> length ip"
  by (simp_all add: ellipsis_ok_def)

lemma ellipsis_ok_append: "ellipsis_ok ell ip \<Longrightarrow> ellipsis_ok ell (ip @ bs)"
  by (auto simp: ellipsis_ok_def split: option.splits)

lemma ipv6_groups_length:
  "ipv6_groups n ip ell s = Some (ip', ell', r) \<Longrightarrow> length ip + 2 * n \<le> 16 \<Longrightarrow>
   ellipsis_ok ell ip \<Longrightarrow> length ip' \<le> 16 \<and> ellipsis_ok ell' ip'"
proof (induction n arbitrary: ip ell s)
  case (Suc n)
  have shorter: "length (ip @ [a, b]) + 2 * n \<le> 16" for a b using Suc.prems(2) by simp
  show ?case using Suc.prems
    by (auto simp: Let_def parseIPv4_bytes(1) ellipsis_ok_append
        split: if_splits option.splits list.splits dest!: Suc.IH[OF _ shorter])
qed simp

lemma ParseIP_length: "ParseIP s = Some ip \<Longrightarrow> length ip = 16"
proof -
  assume ip: "ParseIP s = Some ip"
  have six: "length b = 16" if "parseIPv6 s = Some b" for b
    using that by (auto simp: parseIPv6_def Let_def split: if_splits option.splits
        dest!: ipv6_groups_length)
  show ?thesis using ip six
    by (auto simp: ParseIP_def v4_prefix_def split: option.splits if_splits dest: parseIPv4_bytes)
qed

end
