(* ===== verification/Ports.thy ===== *)
theory Ports
  imports Retry
begin

text \<open>
  Resolution of Service ports against the leader pod (\<^verbatim>\<open>resolveNamedPort\<close> and
  \<^verbatim>\<open>resolveServicePorts\<close> in \<^verbatim>\<open>service_director.go\<close>). Each \<^verbatim>\<open>fmt.Errorf\<close> is a constructor with
  the values it prints.
\<close>

datatype port_error =
    PodIsNil string
  | PodHasNoContainers string string
  | InvalidPortNumber string string int
  | PortNotFound string string

datatype resolve_error =
    NoLeaderForNamedPort string
  | NamedPortFailed string nsname string port_error

definition container_ports :: "pod \<Rightarrow> container_port list" where
  "container_ports p = concat (map ContainerPorts (Containers p))"

definition resolveNamedPort :: "pod option \<Rightarrow> string \<Rightarrow> port_error + int" where
  "resolveNamedPort pod portName =
     (case pod of
        None \<Rightarrow> Inl (PodIsNil portName)
      | Some p \<Rightarrow>
          if Containers p = [] then Inl (PodHasNoContainers portName (Name p))
          else case List.find (\<lambda>cp. ContainerPortName cp = portName) (container_ports p) of
                 Some cp \<Rightarrow>
                   if ContainerPort cp \<le> 0
                   then Inl (InvalidPortNumber portName (Name p) (ContainerPort cp))
                   else Inr (ContainerPort cp)
               | None \<Rightarrow> Inl (PortNotFound portName (Name p)))"

text \<open>The loop over the Service's ports, stopping at the first named port that does not resolve.\<close>

fun resolve_ports ::
  "service \<Rightarrow> pod option \<Rightarrow> service_port list \<Rightarrow> ('w sys, resolve_error + service_port list) state"
  where
  "resolve_ports svc leaderPod [] = ret (Inr [])"
| "resolve_ports svc leaderPod (svcPort # rest) =
     do { resolved \<leftarrow>
            (case TargetPort svcPort of
               IntPort n \<Rightarrow> ret (Inr svcPort)
             | NamedPort portName \<Rightarrow>
                 (case leaderPod of
                    None \<Rightarrow> ret (Inl (NoLeaderForNamedPort portName))
                  | Some p \<Rightarrow>
                      (case resolveNamedPort leaderPod portName of
                         Inl err \<Rightarrow>
                           do { emit_event svc EventTypeWarning ''NamedPortResolutionFailed'';
                                metric (RecordPortResolutionFailure (Namespace svc) (Name svc) portName);
                                ret (Inl (NamedPortFailed portName (object_key svc) (Name p) err)) }
                       | Inr n \<Rightarrow> ret (Inr (svcPort\<lparr>TargetPort := IntPort n\<rparr>)))));
          case resolved of
            Inl err \<Rightarrow> ret (Inl err)
          | Inr resolvedPort \<Rightarrow>
              do { ports \<leftarrow> resolve_ports svc leaderPod rest;
                   ret (case ports of Inl err \<Rightarrow> Inl err
                        | Inr ports \<Rightarrow> Inr (resolvedPort # ports)) } }"

definition resolveServicePorts ::
  "service \<Rightarrow> pod option \<Rightarrow> ('w sys, resolve_error + service_port list) state" where
  "resolveServicePorts svc leaderPod = resolve_ports svc leaderPod (Ports svc)"

subsection \<open>What resolution means\<close>

text \<open>
  The specification of one port: a numeric target stays, a named one becomes the number of the
  first container port with that name, which has to be positive. No other field changes.
\<close>

definition named_port :: "pod \<Rightarrow> string \<Rightarrow> int option" where
  "named_port p n =
     (case map_of (map (\<lambda>cp. (ContainerPortName cp, ContainerPort cp)) (container_ports p)) n of
        Some i \<Rightarrow> if 0 < i then Some i else None
      | None \<Rightarrow> None)"

definition resolves_to :: "pod option \<Rightarrow> service_port \<Rightarrow> service_port \<Rightarrow> bool" where
  "resolves_to leaderPod sp rp \<longleftrightarrow>
     (case TargetPort sp of
        IntPort n \<Rightarrow> rp = sp
      | NamedPort n \<Rightarrow>
          (case leaderPod of
             None \<Rightarrow> False
           | Some p \<Rightarrow> (case named_port p n of
               None \<Rightarrow> False
             | Some i \<Rightarrow> rp = sp\<lparr>TargetPort := IntPort i\<rparr>)))"

lemma find_map_of:
  "List.find (\<lambda>x. f x = k) xs = None \<Longrightarrow> map_of (map (\<lambda>x. (f x, g x)) xs) k = None"
  "List.find (\<lambda>x. f x = k) xs = Some y \<Longrightarrow> map_of (map (\<lambda>x. (f x, g x)) xs) k = Some (g y)"
  by (induction xs) (auto split: if_splits)

lemma resolveNamedPort_iff:
  "resolveNamedPort (Some p) n = Inr i \<longleftrightarrow> named_port p n = Some i"
proof (cases "List.find (\<lambda>cp. ContainerPortName cp = n) (container_ports p)")
  case None
  then show ?thesis
    by (auto simp: resolveNamedPort_def named_port_def find_map_of(1))
next
  case (Some cp)
  then have "Containers p \<noteq> []" by (auto simp: container_ports_def dest: find_SomeD)
  with Some find_map_of(2)[OF Some, of ContainerPort] show ?thesis
    by (auto simp: resolveNamedPort_def named_port_def)
qed

lemma resolveNamedPort_error:
  "(\<exists>e. resolveNamedPort (Some p) n = Inl e) \<longleftrightarrow> named_port p n = None"
  by (metis Inl_Inr_False not_Some_eq obj_sumE resolveNamedPort_iff)

text \<open>The specification of the whole list, as a function: all ports or nothing.\<close>

definition resolve_one :: "pod option \<Rightarrow> service_port \<Rightarrow> service_port option" where
  "resolve_one leaderPod sp =
     (case TargetPort sp of
        IntPort n \<Rightarrow> Some sp
      | NamedPort n \<Rightarrow> (case leaderPod of None \<Rightarrow> None
          | Some p \<Rightarrow> map_option (\<lambda>i. sp\<lparr>TargetPort := IntPort i\<rparr>) (named_port p n)))"

fun resolution :: "pod option \<Rightarrow> service_port list \<Rightarrow> service_port list option" where
  "resolution leaderPod [] = Some []"
| "resolution leaderPod (sp # sps) =
     (case resolve_one leaderPod sp of None \<Rightarrow> None
      | Some rp \<Rightarrow> map_option (\<lambda>rps. rp # rps) (resolution leaderPod sps))"

lemma resolves_to_one: "resolves_to leaderPod sp rp \<longleftrightarrow> resolve_one leaderPod sp = Some rp"
  by (auto simp: resolves_to_def resolve_one_def split: int_or_string.splits option.splits)

lemma resolution_pointwise:
  "resolution leaderPod sps = Some rps \<longleftrightarrow> list_all2 (resolves_to leaderPod) sps rps"
proof (induction sps arbitrary: rps)
  case (Cons sp sps)
  then show ?case
    by (cases rps; cases "resolve_one leaderPod sp") (auto simp: resolves_to_one)
qed auto

lemma run_resolve_ports:
  "case run_state (resolve_ports svc leaderPod sps) s of (r, s') \<Rightarrow>
     (case r of Inr rps \<Rightarrow> resolution leaderPod sps = Some rps \<and> s' = s
      | Inl e \<Rightarrow> resolution leaderPod sps = None \<and> world s' = world s \<and> calls s' = calls s)"
proof (induction sps arbitrary: s)
  case (Cons sp sps)
  note resolve_one_def [simp]
  have IH: "\<And>r t. run_state (resolve_ports svc leaderPod sps) s = (r, t) \<Longrightarrow>
      (case r of Inr rps \<Rightarrow> resolution leaderPod sps = Some rps \<and> t = s
       | Inl e \<Rightarrow> resolution leaderPod sps = None \<and> world t = world s \<and> calls t = calls s)"
    using Cons[of s] by simp
  show ?case
  proof (cases "TargetPort sp")
    case (IntPort n)
    then show ?thesis by (auto split: prod.splits sum.splits dest!: IH)
  next
    case (NamedPort n)
    show ?thesis
    proof (cases leaderPod)
      case (Some p)
      show ?thesis
      proof (cases "resolveNamedPort (Some p) n")
        case (Inl e)
        then have "named_port p n = None" using resolveNamedPort_error by blast
        with Inl Some NamedPort show ?thesis by simp
      next
        case (Inr i)
        then have "named_port p n = Some i" by (simp add: resolveNamedPort_iff)
        with Inr Some NamedPort show ?thesis
          using IH by (cases "run_state (resolve_ports svc leaderPod sps) s")
            (auto split: sum.splits)
      qed
    qed (simp add: NamedPort)
  qed
qed simp

lemma resolveServicePorts_success:
  "run_state (resolveServicePorts svc leaderPod) s = (Inr rps, s') \<Longrightarrow>
   resolution leaderPod (Ports svc) = Some rps \<and> s' = s"
  using run_resolve_ports[where sps = "Ports svc" and svc = svc and leaderPod = leaderPod and s = s]
  by (simp add: resolveServicePorts_def)

lemma resolveServicePorts_failure:
  "run_state (resolveServicePorts svc leaderPod) s = (Inl e, s') \<Longrightarrow>
   resolution leaderPod (Ports svc) = None \<and> world s' = world s \<and> calls s' = calls s"
  using run_resolve_ports[where sps = "Ports svc" and svc = svc and leaderPod = leaderPod and s = s]
  by (simp add: resolveServicePorts_def)

lemma resolves_to_numeric: "resolves_to leaderPod sp rp \<Longrightarrow> \<exists>i. TargetPort rp = IntPort i"
  by (auto simp: resolves_to_def split: int_or_string.splits option.splits)

lemma resolution_numeric:
  "resolution leaderPod sps = Some rps \<Longrightarrow> rp \<in> set rps \<Longrightarrow> \<exists>i. TargetPort rp = IntPort i"
  by (auto simp: resolution_pointwise list_all2_conv_all_nth in_set_conv_nth)
    (metis resolves_to_numeric)

lemma resolution_length: "resolution leaderPod sps = Some rps \<Longrightarrow> length rps = length sps"
  by (auto simp: resolution_pointwise dest: list_all2_lengthD)

text \<open>Everything but the target is copied, the node port included.\<close>

lemma resolution_frame:
  "resolution leaderPod sps = Some rps \<Longrightarrow>
   map (\<lambda>p. (PortName p, PortProtocol p, Port p, NodePort p)) rps =
   map (\<lambda>p. (PortName p, PortProtocol p, Port p, NodePort p)) sps"
proof (induction sps arbitrary: rps)
  case (Cons sp sps)
  then show ?case
    by (auto simp: resolve_one_def split: option.splits int_or_string.splits)
qed simp

text \<open>Without named ports the leader does not matter.\<close>

lemma resolution_all_numeric:
  "list_all (\<lambda>sp. case TargetPort sp of IntPort n \<Rightarrow> True | NamedPort n \<Rightarrow> False) sps \<Longrightarrow>
   resolution leaderPod sps = Some sps"
  by (induction sps) (auto simp: resolve_one_def split: int_or_string.splits)

context system_evolution
begin

lemma keeps_resolve_ports:
  assumes "\<And>s. rel s (s\<lparr>events := events s @ [Event (object_key svc) EventTypeWarning
    ''NamedPortResolutionFailed'']\<rparr>)"
  shows "state_io_rel rel (resolve_ports svc leaderPod sps)"
proof (induction sps)
  case (Cons sp sps)
  have ev: "state_io_rel rel (emit_event svc EventTypeWarning ''NamedPortResolutionFailed'')"
    using assms by (auto simp: state_io_rel_def)
  show ?case
    using Cons by (cases leaderPod)
      (auto intro!: keeps_bind ev keeps_metric keeps_return
        split: int_or_string.splits option.splits sum.splits)
qed (simp add: keeps_return)

lemma keeps_resolveServicePorts:
  assumes "\<And>s. rel s (s\<lparr>events := events s @ [Event (object_key svc) EventTypeWarning
    ''NamedPortResolutionFailed'']\<rparr>)"
  shows "state_io_rel rel (resolveServicePorts svc leaderPod)"
  unfolding resolveServicePorts_def by (rule keeps_resolve_ports[OF assms])

end

end
