(* ===== verification/Metadata.thy ===== *)
theory Metadata
  imports Objects
begin

text \<open>
  \<^verbatim>\<open>pkg/director/metadata.go\<close>: which labels and annotations of the source Service are copied to
  the generated objects. Labels and annotations of GitOps tools are dropped, because a tool that
  tracks them would prune or take over the generated objects.
\<close>

definition gitOpsTrackingLabels :: "string list" where
  "gitOpsTrackingLabels =
    [''app.kubernetes.io/instance'', ''app.kubernetes.io/managed-by'', ''app.kubernetes.io/part-of'',
     ''app.kubernetes.io/version'', ''argocd.argoproj.io/instance'', ''fluxcd.io/part-of'',
     ''kustomize.toolkit.fluxcd.io/name'', ''kustomize.toolkit.fluxcd.io/namespace'',
     ''kustomize.toolkit.fluxcd.io/revision'']"

definition gitOpsTrackingAnnotations :: "string list" where
  "gitOpsTrackingAnnotations =
    [''argocd.argoproj.io/sync-wave'', ''argocd.argoproj.io/sync-options'',
     ''fluxcd.io/sync-checksum'', ''kustomize.toolkit.fluxcd.io/checksum'']"

definition filterGitOpsLabels :: "strmap \<Rightarrow> strmap" where
  "filterGitOpsLabels labels = filter (\<lambda>(k, v). k \<notin> set gitOpsTrackingLabels) labels"

definition filterGitOpsAnnotations :: "strmap \<Rightarrow> strmap" where
  "filterGitOpsAnnotations annotations =
     filter (\<lambda>(k, v). k \<notin> set gitOpsTrackingAnnotations) annotations"

subsection \<open>A filter by key\<close>

text \<open>
  Both functions are the same contract over another list of tracked keys: a tracked key is
  absent from the result, and every other key reads as before.
\<close>

locale key_filter =
  fixes tracked :: "string list" and drop_keys :: "strmap \<Rightarrow> strmap"
  assumes drop_tracked: "k \<in> set tracked \<Longrightarrow> map_of (drop_keys m) k = None"
    and keep_other: "k \<notin> set tracked \<Longrightarrow> map_of (drop_keys m) k = map_of m k"
begin

lemma map_of_drop: "map_of (drop_keys m) = (\<lambda>k. if k \<in> set tracked then None else map_of m k)"
  by (simp add: fun_eq_iff drop_tracked keep_other)

lemma dom_drop: "dom (map_of (drop_keys m)) = dom (map_of m) - set tracked"
  by (auto simp: map_of_drop dom_def split: if_splits)

lemma drop_idem: "map_of (drop_keys (drop_keys m)) = map_of (drop_keys m)"
  by (simp add: map_of_drop fun_eq_iff)

lemma map_get_drop: "map_get (drop_keys m) k = (if k \<in> set tracked then '''' else map_get m k)"
  by (simp add: map_get_def map_of_drop)

end

interpretation git_labels: key_filter gitOpsTrackingLabels filterGitOpsLabels
  by unfold_locales (auto simp: filterGitOpsLabels_def map_of_filter_key)

interpretation git_annotations: key_filter gitOpsTrackingAnnotations filterGitOpsAnnotations
  by unfold_locales (auto simp: filterGitOpsAnnotations_def map_of_filter_key)

text \<open>The keys of zen-lead itself.\<close>

lemma own_keys_tracked [simp]:
  "LabelManagedBy \<in> set gitOpsTrackingLabels"
  "LabelSourceService \<notin> set gitOpsTrackingLabels"
  "LabelEndpointSliceManagedBy \<notin> set gitOpsTrackingLabels"
  "AnnotationEnabledService \<notin> set gitOpsTrackingAnnotations"
  "AnnotationLeaderServiceNameService \<notin> set gitOpsTrackingAnnotations"
  by (simp_all add: gitOpsTrackingLabels_def gitOpsTrackingAnnotations_def label_keys
      annotation_keys)

end
