(* ===== verification/Slices.thy ===== *)
theory Slices
  imports GoNet Ports Pods Naming Metadata
begin

text \<open>
  The EndpointSlice of a leader Service (\<^verbatim>\<open>reconcileEndpointSlice\<close> and \<^verbatim>\<open>updateResourceTotals\<close> of
  \<^verbatim>\<open>service_director.go\<close>). The function converts the resolved ports, builds the one endpoint, and
  creates or patches the slice.
\<close>

datatype slice_error =
    NoPortsConfigured nsname
  | UnresolvedTargetPort string string
  | GetSliceFailed nsname nsname api_err
  | CreateSliceFailed nsname nsname string api_err
  | PatchSliceFailed nsname nsname api_err

subsection \<open>The contents of a slice\<close>

fun endpoint_ports :: "service_port list \<Rightarrow> slice_error + endpoint_port list" where
  "endpoint_ports [] = Inr []"
| "endpoint_ports (port # rest) =
     (case TargetPort port of
        NamedPort n \<Rightarrow> Inl (UnresolvedTargetPort (PortName port) n)
      | IntPort backendPort \<Rightarrow>
          (case endpoint_ports rest of
             Inl err \<Rightarrow> Inl err
           | Inr ports \<Rightarrow>
               Inr (\<lparr>EndpointPortName = (if PortName port \<noteq> '''' then Some (PortName port) else None),
                     EndpointPortNumber = Some backendPort,
                     EndpointPortProtocol = Some (PortProtocol port)\<rparr> # ports)))"

text \<open>The loop over the conditions that fills \<^verbatim>\<open>ready\<close>; the phase of the pod is not looked at.\<close>

definition ready_condition :: "pod option \<Rightarrow> bool" where
  "ready_condition leaderPod =
     (case leaderPod of
        None \<Rightarrow> False
      | Some p \<Rightarrow>
          (case List.find (\<lambda>c. ConditionType c = PodReady) (Conditions p) of
             Some c \<Rightarrow> ConditionStatus c = ConditionTrue
           | None \<Rightarrow> False))"

definition leader_endpoint :: "pod option \<Rightarrow> endpoint" where
  "leader_endpoint leaderPod =
     (case leaderPod of
        Some p \<Rightarrow>
          if PodIP p \<noteq> '''' then
            \<lparr>Addresses = [PodIP p], Ready = Some (ready_condition leaderPod),
             EndpointNodeName = (if NodeName p \<noteq> '''' then Some (NodeName p) else None),
             TargetRef = Some \<lparr>RefKind = ''Pod'', RefNamespace = Namespace p, RefName = Name p,
                               RefUID = UID p\<rparr>\<rparr>
          else \<lparr>Addresses = [], Ready = Some (ready_condition leaderPod), EndpointNodeName = None,
                TargetRef = None\<rparr>
      | None \<Rightarrow>
          \<lparr>Addresses = [], Ready = Some (ready_condition leaderPod), EndpointNodeName = None,
           TargetRef = None\<rparr>)"

definition address_type :: "pod option \<Rightarrow> string" where
  "address_type leaderPod =
     (case leaderPod of
        Some p \<Rightarrow>
          if PodIP p \<noteq> '''' then
            (case ParseIP (PodIP p) of
               Some ip \<Rightarrow> if To4 ip = None then AddressTypeIPv6 else AddressTypeIPv4
             | None \<Rightarrow> AddressTypeIPv4)
          else AddressTypeIPv4
      | None \<Rightarrow> AddressTypeIPv4)"

definition slice_labels :: "service \<Rightarrow> string \<Rightarrow> strmap" where
  "slice_labels svc leaderServiceName =
     map_set (map_set (map_set (map_set (filterGitOpsLabels (Labels svc))
       LabelServiceName leaderServiceName)
       LabelManagedBy LabelManagedByValue)
       LabelSourceService (Name svc))
       LabelEndpointSliceManagedBy LabelEndpointSliceManagedByValue"

text \<open>The object passed to \<^verbatim>\<open>Create\<close>; the fields the server fills are empty.\<close>

definition new_slice ::
  "service \<Rightarrow> string \<Rightarrow> string \<Rightarrow> pod option \<Rightarrow> endpoint_port list \<Rightarrow> endpoint_slice" where
  "new_slice svc leaderServiceName ownerUID leaderPod ports =
     \<lparr>Name = leaderServiceName, Namespace = Namespace svc, UID = '''', ResourceVersion = '''',
      Labels = slice_labels svc leaderServiceName, Annotations = [],
      OwnerReferences = [\<lparr>OwnerAPIVersion = ''v1'', OwnerKind = ''Service'',
        OwnerName = leaderServiceName, OwnerUID = ownerUID, OwnerController = Some True\<rparr>],
      CreationTimestamp = 0, DeletionTimestamp = None,
      AddressType = address_type leaderPod, Endpoints = [leader_endpoint leaderPod],
      EndpointPorts = ports\<rparr>"

definition updated_slice :: "endpoint_slice \<Rightarrow> pod option \<Rightarrow> endpoint_port list \<Rightarrow> endpoint_slice" where
  "updated_slice slice leaderPod ports =
     slice\<lparr>Endpoints := [leader_endpoint leaderPod], EndpointPorts := ports,
           AddressType := address_type leaderPod\<rparr>"

subsection \<open>updateResourceTotals\<close>

definition updateResourceTotals :: "'w kube \<Rightarrow> string \<Rightarrow> ('w sys, unit) state" where
  "updateResourceTotals K ns =
     do { recorder \<leftarrow> gets Metrics;
          if recorder = None then skip
          else
            do { let managed = [(LabelManagedBy, LabelManagedByValue)];
                 services \<leftarrow> call_api K (DefaultRetry K) (ListServices K ns managed)
                   (CallListServices ns managed) ns '''' ''list_leader_services_metrics'';
                 (case services of
                    Inr items \<Rightarrow> metric (RecordLeaderServicesTotal ns (length items))
                  | Inl err \<Rightarrow>
                      do { late \<leftarrow> gets (\<lambda>s. DeadlineExceeded K (world s));
                           onlyif late (metric (RecordTimeout ns ''metrics_collection'')) });
                 let sliceManaged = [(LabelEndpointSliceManagedBy, LabelEndpointSliceManagedByValue)];
                 slices \<leftarrow> call_api K (DefaultRetry K) (ListSlices K ns sliceManaged)
                   (CallListSlices ns sliceManaged) ns '''' ''list_endpointslices_metrics'';
                 (case slices of
                    Inr items \<Rightarrow> metric (RecordEndpointSlicesTotal ns (length items))
                  | Inl err \<Rightarrow>
                      do { late \<leftarrow> gets (\<lambda>s. DeadlineExceeded K (world s));
                           onlyif late (metric (RecordTimeout ns ''metrics_collection'')) }) } }"

subsection \<open>reconcileEndpointSlice\<close>

definition pod_name :: "pod option \<Rightarrow> string" where
  "pod_name leaderPod = (case leaderPod of Some p \<Rightarrow> Name p | None \<Rightarrow> ''none'')"

definition create_slice ::
  "'w kube \<Rightarrow> director_config \<Rightarrow> service \<Rightarrow> string \<Rightarrow> pod option \<Rightarrow> endpoint_port list \<Rightarrow>
   ('w sys, slice_error + unit) state" where
  "create_slice K cfg svc leaderServiceName leaderPod ports =
     do { let ownerKey = (Namespace svc, leaderServiceName);
          owner \<leftarrow> call_api K (DefaultRetry K) (GetService K ownerKey) (CallGetService ownerKey)
            (Namespace svc) (Name svc) ''get_leader_service_validation'';
          let ownerUID = (case owner of Inr leaderSvc \<Rightarrow> UID leaderSvc | Inl err \<Rightarrow> '''');
          let endpointSlice = new_slice svc leaderServiceName ownerUID leaderPod ports;
          created \<leftarrow> call_api K (fastRetryConfig cfg) (CreateSlice K endpointSlice)
            (CallCreateSlice endpointSlice) (Namespace svc) (Name svc) ''create_endpointslice'';
          case created of
            Inl err \<Rightarrow>
              do { metric (RecordEndpointWriteError (Namespace svc) (Name svc));
                   ret (Inl (CreateSliceFailed (object_key endpointSlice) (object_key svc)
                     (pod_name leaderPod) err)) }
          | Inr done \<Rightarrow>
              do { recorder \<leftarrow> gets Metrics;
                   onlyif (recorder \<noteq> None) (updateResourceTotals K (Namespace svc));
                   ret (Inr ()) } }"

definition patch_slice ::
  "'w kube \<Rightarrow> director_config \<Rightarrow> service \<Rightarrow> endpoint_slice \<Rightarrow> pod option \<Rightarrow> endpoint_port list \<Rightarrow>
   ('w sys, slice_error + unit) state" where
  "patch_slice K cfg svc originalEndpointSlice leaderPod ports =
     do { let endpointSlice = updated_slice originalEndpointSlice leaderPod ports;
          patched \<leftarrow> call_api K (fastRetryConfig cfg)
            (PatchSlice K endpointSlice originalEndpointSlice)
            (CallPatchSlice endpointSlice originalEndpointSlice)
            (Namespace svc) (Name svc) ''patch_endpointslice'';
          case patched of
            Inl err \<Rightarrow>
              do { metric (RecordEndpointWriteError (Namespace svc) (Name svc));
                   ret (Inl (PatchSliceFailed (object_key endpointSlice) (object_key svc) err)) }
          | Inr done \<Rightarrow> ret (Inr ()) }"

definition reconcileEndpointSlice ::
  "'w kube \<Rightarrow> director_config \<Rightarrow> service \<Rightarrow> string \<Rightarrow> pod option \<Rightarrow> service_port list \<Rightarrow>
   ('w sys, slice_error + unit) state" where
  "reconcileEndpointSlice K cfg svc leaderServiceName leaderPod servicePorts =
     (if servicePorts = [] \<and> leaderPod \<noteq> None then ret (Inl (NoPortsConfigured (object_key svc)))
      else case endpoint_ports servicePorts of
        Inl err \<Rightarrow> ret (Inl err)
      | Inr ports \<Rightarrow>
          do { let sliceKey = (Namespace svc, leaderServiceName);
               existing \<leftarrow> call_api K (DefaultRetry K) (GetSlice K sliceKey) (CallGetSlice sliceKey)
                 (Namespace svc) (Name svc) ''get_endpointslice_reconcile'';
               case existing of
                 Inl err \<Rightarrow>
                   if \<not> is_not_found err
                   then ret (Inl (GetSliceFailed sliceKey (object_key svc) err))
                   else create_slice K cfg svc leaderServiceName leaderPod ports
               | Inr endpointSlice \<Rightarrow> patch_slice K cfg svc endpointSlice leaderPod ports })"

subsection \<open>Properties of the contents\<close>

definition endpoint_port_for :: "service_port \<Rightarrow> endpoint_port \<Rightarrow> bool" where
  "endpoint_port_for sp ep \<longleftrightarrow> (\<exists>n. TargetPort sp = IntPort n \<and>
     ep = \<lparr>EndpointPortName = (if PortName sp \<noteq> '''' then Some (PortName sp) else None),
           EndpointPortNumber = Some n, EndpointPortProtocol = Some (PortProtocol sp)\<rparr>)"

lemma endpoint_ports_Inr:
  "endpoint_ports sps = Inr ports \<longleftrightarrow> list_all2 endpoint_port_for sps ports"
proof (induction sps arbitrary: ports)
  case (Cons sp sps)
  show ?case
  proof (cases "endpoint_ports sps")
    case (Inl e)
    then have "\<not> list_all2 endpoint_port_for sps eps" for eps using Cons[of eps] by simp
    with Inl show ?thesis
      by (cases ports) (auto split: int_or_string.splits)
  next
    case (Inr eps)
    then have eps: "list_all2 endpoint_port_for sps eps' \<longleftrightarrow> eps = eps'" for eps'
      using Cons[of eps'] by simp
    show ?thesis
    proof (cases ports)
      case (Cons ep eps')
      show ?thesis
        by (cases "TargetPort sp")
          (simp_all add: Cons Inr eps endpoint_port_for_def[of sp ep] eq_commute[of ep])
    qed (simp split: int_or_string.splits, simp add: Inr)
  qed
qed auto

text \<open>Ports that \<^verbatim>\<open>resolveServicePorts\<close> has resolved never stop the conversion.\<close>

lemma endpoint_ports_resolved:
  "resolution leaderPod sps = Some rps \<Longrightarrow> \<exists>ports. endpoint_ports rps = Inr ports"
proof (induction sps arbitrary: rps)
  case (Cons sp sps)
  then obtain rp rest where "rps = rp # rest" and one: "resolve_one leaderPod sp = Some rp"
    and "resolution leaderPod sps = Some rest"
    by (auto split: option.splits)
  moreover from one have "\<exists>i. TargetPort rp = IntPort i"
    using resolves_to_numeric resolves_to_one by blast
  ultimately show ?case using Cons.IH by fastforce
qed simp

lemma ready_condition_pod: "isPodReady p \<Longrightarrow> ready_condition (Some p)"
  by (auto simp: isPodReady_def ready_condition_def split: if_splits option.splits)

lemma leader_endpoint_ready:
  "isPodReady p \<Longrightarrow> PodIP p \<noteq> '''' \<Longrightarrow>
   Addresses (leader_endpoint (Some p)) = [PodIP p] \<and> Ready (leader_endpoint (Some p)) = Some True \<and>
   (\<exists>ref. TargetRef (leader_endpoint (Some p)) = Some ref \<and> RefKind ref = ''Pod'' \<and>
      (RefNamespace ref, RefName ref) = object_key p \<and> RefUID ref = UID p)"
  by (simp add: leader_endpoint_def ready_condition_pod object_key_def)

lemma address_type_v4:
  "ParseIP (PodIP p) = Some ip \<Longrightarrow>
   address_type (Some p) = (if To4 ip = None \<and> PodIP p \<noteq> '''' then AddressTypeIPv6 else AddressTypeIPv4)"
  by (simp add: address_type_def)

lemma slice_labels_get:
  "map_of (slice_labels svc n) LabelServiceName = Some n"
  "map_of (slice_labels svc n) LabelManagedBy = Some LabelManagedByValue"
  "map_of (slice_labels svc n) LabelSourceService = Some (Name svc)"
  "map_of (slice_labels svc n) LabelEndpointSliceManagedBy = Some LabelEndpointSliceManagedByValue"
  by (simp_all add: slice_labels_def label_keys)

subsection \<open>What reconcileEndpointSlice writes\<close>

text \<open>
  The only writes are of the slice of the leader Service, and what is written carries exactly the
  endpoint of the leader and the converted ports; a patch changes no other field.
\<close>

fun slice_write :: "service \<Rightarrow> string \<Rightarrow> pod option \<Rightarrow> service_port list \<Rightarrow> api_call \<Rightarrow> bool" where
  "slice_write svc n leaderPod sps (CallCreateSlice slice r) =
     (\<exists>uid ports. endpoint_ports sps = Inr ports \<and> slice = new_slice svc n uid leaderPod ports)"
| "slice_write svc n leaderPod sps (CallPatchSlice slice original r) =
     (\<exists>ports. endpoint_ports sps = Inr ports \<and> slice = updated_slice original leaderPod ports)"
| "slice_write svc n leaderPod sps c = is_read c"

lemma slice_write_read: "is_read c \<Longrightarrow> slice_write svc n leaderPod sps c"
  by (cases c) auto

lemma logs_updateResourceTotals:
  assumes "\<And>c. is_read c \<Longrightarrow> ok c"
  shows "state_io_rel (appends calls ok) (updateResourceTotals K ns)"
  unfolding updateResourceTotals_def by (intro logs_intros assms)

lemma logs_reconcileEndpointSlice:
  assumes "\<And>c. slice_write svc n leaderPod sps c \<Longrightarrow> ok c"
  shows "state_io_rel (appends calls ok) (reconcileEndpointSlice K cfg svc n leaderPod sps)"
  unfolding reconcileEndpointSlice_def create_slice_def patch_slice_def
  by (intro logs_intros logs_updateResourceTotals logs_call_api assms) (auto simp: slice_write_read)

text \<open>
  Success means that the server accepted such a write: the new slice, or a patch of the slice that
  was read under its key. \<open>cs\<close> are the calls of the run.
\<close>

definition slice_published ::
  "service \<Rightarrow> string \<Rightarrow> pod option \<Rightarrow> service_port list \<Rightarrow> api_call set \<Rightarrow> bool" where
  "slice_published svc n leaderPod sps cs \<longleftrightarrow>
     (\<exists>ports. endpoint_ports sps = Inr ports \<and>
        ((\<exists>uid. CallCreateSlice (new_slice svc n uid leaderPod ports) (Inr ()) \<in> cs) \<or>
         (\<exists>original. CallGetSlice (Namespace svc, n) (Inr original) \<in> cs \<and>
            CallPatchSlice (updated_slice original leaderPod ports) original (Inr ()) \<in> cs)))"

lemma slice_published_mono:
  "slice_published svc n leaderPod sps cs \<Longrightarrow> cs \<subseteq> cs' \<Longrightarrow> slice_published svc n leaderPod sps cs'"
  unfolding slice_published_def by blast

abbreviation calls_grow :: "'w sys \<Rightarrow> 'w sys \<Rightarrow> api_call set \<Rightarrow> bool" where
  "calls_grow s s' cs \<equiv> grows_by s s' (\<lambda>_. True) cs"

lemmas calls_grow_trans = grows_by_trans[where ok = "\<lambda>_. True"]
lemmas calls_grow_io = grows_by_io[where ok = "\<lambda>_. True"]
lemmas call_api_grow = grows_by_call[where ok = "\<lambda>_. True", OF _ TrueI]

lemma create_slice_success:
  assumes "run_state (create_slice K cfg svc n leaderPod ports) s = (Inr (), s')"
  shows "\<exists>uid. calls_grow s s' {CallCreateSlice (new_slice svc n uid leaderPod ports) (Inr ())}"
proof -
  let ?owner = "call_api K (DefaultRetry K) (GetService K (Namespace svc, n))
    (CallGetService (Namespace svc, n)) (Namespace svc) (Name svc) ''get_leader_service_validation''"
  obtain owner t where owner: "run_state ?owner s = (owner, t)" by (cases "run_state ?owner s")
  define slice where "slice = new_slice svc n
    (case owner of Inr leaderSvc \<Rightarrow> UID leaderSvc | Inl err \<Rightarrow> '''') leaderPod ports"
  let ?create = "call_api K (fastRetryConfig cfg) (CreateSlice K slice) (CallCreateSlice slice)
    (Namespace svc) (Name svc) ''create_endpointslice''"
  obtain r u where create: "run_state ?create t = (r, u)" by (cases "run_state ?create t")
  have r: "r = Inr ()"
    using assms owner create
    by (cases r) (auto simp: create_slice_def Let_def slice_def)
  then have "run_state (do { recorder \<leftarrow> gets Metrics;
      onlyif (recorder \<noteq> None) (updateResourceTotals K (Namespace svc)); ret (Inr ()) }) u
      = (Inr () :: slice_error + unit, s')"
    using assms owner create unfolding create_slice_def Let_def slice_def by simp
  moreover have "state_io_rel (appends calls (\<lambda>_. True)) (do { recorder \<leftarrow> gets Metrics;
      onlyif (recorder \<noteq> None) (updateResourceTotals K (Namespace svc));
      ret (Inr () :: slice_error + unit) })"
    by (intro logs_intros logs_updateResourceTotals) simp_all
  ultimately have "calls_grow u s' {}" by (rule calls_grow_io[rotated])
  with calls_grow_trans[OF call_api_grow(1)[OF owner] call_api_grow(2)[OF create r]]
  have "calls_grow s s' {CallCreateSlice slice (Inr ())}"
    using calls_grow_trans by fastforce
  then show ?thesis unfolding slice_def by blast
qed

lemma patch_slice_success:
  assumes "run_state (patch_slice K cfg svc original leaderPod ports) s = (Inr (), s')"
  shows "calls_grow s s' {CallPatchSlice (updated_slice original leaderPod ports) original (Inr ())}"
proof -
  let ?patch = "call_api K (fastRetryConfig cfg)
    (PatchSlice K (updated_slice original leaderPod ports) original)
    (CallPatchSlice (updated_slice original leaderPod ports) original)
    (Namespace svc) (Name svc) ''patch_endpointslice''"
  obtain r u where patch: "run_state ?patch s = (r, u)" by (cases "run_state ?patch s")
  have "r = Inr ()" and "s' = u"
    using assms patch by (cases r; auto simp: patch_slice_def Let_def)+
  with call_api_grow(2)[OF patch] show ?thesis by simp
qed

lemma reconcileEndpointSlice_success:
  assumes "run_state (reconcileEndpointSlice K cfg svc n leaderPod sps) s = (Inr (), s')"
  shows "\<exists>cs. slice_published svc n leaderPod sps cs \<and> calls_grow s s' cs"
proof -
  let ?get = "call_api K (DefaultRetry K) (GetSlice K (Namespace svc, n))
    (CallGetSlice (Namespace svc, n)) (Namespace svc) (Name svc) ''get_endpointslice_reconcile''"
  obtain r t where get: "run_state ?get s = (r, t)" by (cases "run_state ?get s")
  obtain ports where ports: "endpoint_ports sps = Inr ports"
    using assms by (auto simp: reconcileEndpointSlice_def split: if_splits sum.splits)
  show ?thesis
  proof (cases r)
    case (Inl e)
    then have "run_state (create_slice K cfg svc n leaderPod ports) t = (Inr (), s')"
      using assms get ports by (auto simp: reconcileEndpointSlice_def Let_def split: if_splits)
    from create_slice_success[OF this] obtain uid
      where "calls_grow t s' {CallCreateSlice (new_slice svc n uid leaderPod ports) (Inr ())}" ..
    from calls_grow_trans[OF call_api_grow(1)[OF get] this] ports show ?thesis
      by (intro exI[of _ "{CallCreateSlice (new_slice svc n uid leaderPod ports) (Inr ())}"])
        (auto simp: slice_published_def)
  next
    case (Inr original)
    then have "run_state (patch_slice K cfg svc original leaderPod ports) t = (Inr (), s')"
      using assms get ports by (auto simp: reconcileEndpointSlice_def Let_def split: if_splits)
    from calls_grow_trans[OF call_api_grow(2)[OF get Inr] patch_slice_success[OF this]]
    have "calls_grow s s' {CallGetSlice (Namespace svc, n) (Inr original),
        CallPatchSlice (updated_slice original leaderPod ports) original (Inr ())}"
      by (simp add: insert_commute)
    then show ?thesis using ports unfolding slice_published_def by blast
  qed
qed

text \<open>
  An address is called IPv6 only when its text has a colon and is not a dotted address; a dotted
  address, and an IPv6 text that maps an IPv4 address, count as IPv4.
\<close>

lemma ipv6_only_with_colon:
  assumes "address_type (Some p) = AddressTypeIPv6"
  shows "CHR '':'' \<in> set (PodIP p) \<and>
    (\<exists>ip. ParseIP (PodIP p) = Some ip \<and> length ip = 16 \<and> take 12 ip \<noteq> v4_prefix)"
proof -
  obtain ip where ip: "ParseIP (PodIP p) = Some ip" and no4: "To4 ip = None"
    using assms by (auto simp: address_type_def split: if_splits option.splits)
  have "CHR '':'' \<in> set (PodIP p)"
  proof (rule ccontr)
    assume "CHR '':'' \<notin> set (PodIP p)"
    with ip obtain bs where "ip = v4_prefix @ bs" and "parseIPv4 (PodIP p) = Some bs"
      by (auto simp: ParseIP_def split: option.splits if_splits dest: find_SomeD)
    with no4 show False using To4_dotted parseIPv4_bytes(1) by fastforce
  qed
  with ip no4 ParseIP_length[OF ip] show ?thesis by (auto simp: To4_def split: if_splits)
qed

end
