(* ===== verification/LeaderService.thy ===== *)
theory LeaderService
  imports Slices
begin

text \<open>
  The leader Service (\<^verbatim>\<open>reconcileLeaderService\<close> of \<^verbatim>\<open>service_director.go\<close>): ports are resolved,
  the selector-less Service is created or patched, and the EndpointSlice follows. The long Go
  function is split at its comments.
\<close>

datatype leader_error =
    GetLeaderServiceFailed nsname api_err
  | CreateLeaderServiceFailed nsname nsname api_err
  | PatchLeaderServiceFailed api_err
  | EndpointSliceFailed slice_error

subsection \<open>Ports that do not resolve\<close>

definition fail_closed :: "'w kube \<Rightarrow> service \<Rightarrow> ('w sys, unit) state" where
  "fail_closed K svc =
     do { emit_event svc EventTypeWarning ''PortResolutionFailed'';
          existing \<leftarrow> call_api K (DefaultRetry K) (GetSlice K (leader_key K svc))
            (CallGetSlice (leader_key K svc)) (Namespace svc) (Name svc) ''get_endpointslice_cleanup'';
          case existing of
            Inl err \<Rightarrow> skip
          | Inr existingSlice \<Rightarrow>
              do { deleted \<leftarrow> call_api K (DefaultRetry K) (DeleteSlice K existingSlice)
                     (CallDeleteSlice existingSlice) (Namespace svc) (Name svc) ''delete_endpointslice'';
                   case deleted of
                     Inl err \<Rightarrow> skip
                   | Inr done \<Rightarrow> emit_event svc EventTypeWarning ''EndpointSliceDeleted'' } }"

text \<open>After a failure the Service is written without ports and the leader is dropped.\<close>

definition resolve_or_fail ::
  "'w kube \<Rightarrow> service \<Rightarrow> pod option \<Rightarrow> ('w sys, service_port list \<times> pod option) state" where
  "resolve_or_fail K svc leaderPod =
     do { resolved \<leftarrow> resolveServicePorts svc leaderPod;
          case resolved of
            Inr leaderPorts \<Rightarrow> ret (leaderPorts, leaderPod)
          | Inl err \<Rightarrow> do { fail_closed K svc; ret ([], None) } }"

subsection \<open>The Service object\<close>

definition leader_service_type :: "service \<Rightarrow> string" where
  "leader_service_type svc =
     (let ty = (if ClusterIP svc = ClusterIPNone then ServiceTypeClusterIP else ServiceType svc)
      in if ty = '''' then ServiceTypeClusterIP else ty)"

definition mark_leader :: "pod \<Rightarrow> strmap \<Rightarrow> strmap" where
  "mark_leader p annotations =
     map_set (map_set (map_set annotations AnnotationCurrentLeader (Name p))
       AnnotationLeaderPodName (Name p)) AnnotationLeaderPodUID (UID p)"

definition mark_switch :: "'w kube \<Rightarrow> go_time \<Rightarrow> strmap \<Rightarrow> strmap" where
  "mark_switch K t annotations = map_set annotations AnnotationLeaderLastSwitchTime (FormatRFC3339 K t)"

definition unmark_leader :: "strmap \<Rightarrow> strmap" where
  "unmark_leader annotations =
     map_delete (map_delete (map_delete annotations AnnotationCurrentLeader)
       AnnotationLeaderPodName) AnnotationLeaderPodUID"

definition new_leader_service ::
  "service \<Rightarrow> string \<Rightarrow> strmap \<Rightarrow> service_port list \<Rightarrow> service" where
  "new_leader_service svc leaderServiceName leaderAnnotations leaderPorts =
     \<lparr>Name = leaderServiceName, Namespace = Namespace svc, UID = '''', ResourceVersion = '''',
      Labels = map_set (map_set (filterGitOpsLabels (Labels svc)) LabelManagedBy LabelManagedByValue)
        LabelSourceService (Name svc),
      Annotations = leaderAnnotations,
      OwnerReferences = [\<lparr>OwnerAPIVersion = ''v1'', OwnerKind = ''Service'', OwnerName = Name svc,
        OwnerUID = UID svc, OwnerController = Some True\<rparr>],
      CreationTimestamp = 0, DeletionTimestamp = None,
      Selector = [], Ports = leaderPorts, ServiceType = leader_service_type svc, ClusterIP = ''''\<rparr>"

subsection \<open>Creating and patching\<close>

definition create_leader_service ::
  "'w kube \<Rightarrow> service \<Rightarrow> pod option \<Rightarrow> service_port list \<Rightarrow> ('w sys, leader_error + unit) state" where
  "create_leader_service K svc leaderPod leaderPorts =
     do { let filtered = filterGitOpsAnnotations (Annotations svc);
          leaderAnnotations \<leftarrow>
            (case leaderPod of
               Some p \<Rightarrow> do { t \<leftarrow> now K; ret (mark_switch K t (mark_leader p filtered)) }
             | None \<Rightarrow> ret filtered);
          let leaderService = new_leader_service svc (getLeaderServiceName K svc) leaderAnnotations
            leaderPorts;
          created \<leftarrow> call_api K (DefaultRetry K) (CreateService K leaderService)
            (CallCreateService leaderService) (Namespace svc) (Name svc) ''create_leader_service'';
          case created of
            Inl err \<Rightarrow>
              ret (Inl (CreateLeaderServiceFailed (object_key leaderService) (object_key svc) err))
          | Inr done \<Rightarrow>
              do { emit_event svc EventTypeNormal ''LeaderServiceCreated'';
                   emit_event svc EventTypeNormal ''LeaderRoutingAvailable'';
                   recorder \<leftarrow> gets Metrics;
                   onlyif (recorder \<noteq> None) (updateResourceTotals K (Namespace svc));
                   ret (Inr ()) } }"

definition leader_annotations ::
  "'w kube \<Rightarrow> service \<Rightarrow> pod option \<Rightarrow> strmap \<Rightarrow> ('w sys, strmap) state" where
  "leader_annotations K svc leaderPod annotations =
     (case leaderPod of
        Some p \<Rightarrow>
          (let oldLeaderName = map_get annotations AnnotationLeaderPodName;
               oldLeaderUID = map_get annotations AnnotationLeaderPodUID;
               marked = mark_leader p annotations
           in if oldLeaderUID \<noteq> UID p then
                do { t \<leftarrow> now K;
                     onlyif (oldLeaderName \<noteq> '''' \<and> oldLeaderName \<noteq> Name p)
                       (emit_event svc EventTypeNormal ''LeaderChanged'');
                     ret (mark_switch K t marked) }
              else ret marked)
      | None \<Rightarrow> ret (unmark_leader annotations))"

definition patch_leader_service ::
  "'w kube \<Rightarrow> service \<Rightarrow> service \<Rightarrow> pod option \<Rightarrow> service_port list \<Rightarrow>
   ('w sys, leader_error + unit) state" where
  "patch_leader_service K svc originalService leaderPod leaderPorts =
     do { annotations \<leftarrow> leader_annotations K svc leaderPod (Annotations originalService);
          let leaderService = originalService\<lparr>Selector := [], Ports := leaderPorts,
            ServiceType := leader_service_type svc, Annotations := annotations\<rparr>;
          patched \<leftarrow> call_api K (DefaultRetry K) (PatchService K leaderService originalService)
            (CallPatchService leaderService originalService)
            (Namespace svc) (Name svc) ''patch_leader_service'';
          case patched of
            Inl err \<Rightarrow> ret (Inl (PatchLeaderServiceFailed err))
          | Inr done \<Rightarrow> ret (Inr ()) }"

definition write_leader_service ::
  "'w kube \<Rightarrow> service \<Rightarrow> pod option \<Rightarrow> service_port list \<Rightarrow> ('w sys, leader_error + unit) state" where
  "write_leader_service K svc leaderPod leaderPorts =
     do { existing \<leftarrow> call_api K (DefaultRetry K) (GetService K (leader_key K svc))
            (CallGetService (leader_key K svc)) (Namespace svc) (Name svc) ''get_leader_service'';
          case existing of
            Inl err \<Rightarrow>
              if \<not> is_not_found err
              then ret (Inl (GetLeaderServiceFailed (leader_key K svc) err))
              else create_leader_service K svc leaderPod leaderPorts
          | Inr originalService \<Rightarrow>
              patch_leader_service K svc originalService leaderPod leaderPorts }"

subsection \<open>reconcileLeaderService\<close>

definition record_stability :: "service \<Rightarrow> pod option \<Rightarrow> ('w sys, unit) state" where
  "record_stability svc leaderPod =
     (if leaderPod \<noteq> None \<and> isPodReady (the leaderPod) then
        do { metric (RecordLeaderStable (Namespace svc) (Name svc) True);
             metric (RecordLeaderServiceWithoutEndpoints (Namespace svc) (Name svc) False) }
      else
        do { metric (RecordLeaderStable (Namespace svc) (Name svc) False);
             metric (RecordLeaderServiceWithoutEndpoints (Namespace svc) (Name svc) True) })"

definition reconcileLeaderService ::
  "'w kube \<Rightarrow> director_config \<Rightarrow> service \<Rightarrow> pod option \<Rightarrow> ('w sys, leader_error + unit) state" where
  "reconcileLeaderService K cfg svc selected =
     do { (leaderPorts, leaderPod) \<leftarrow> resolve_or_fail K svc selected;
          written \<leftarrow> write_leader_service K svc leaderPod leaderPorts;
          case written of
            Inl err \<Rightarrow> ret (Inl err)
          | Inr done \<Rightarrow>
              do { slice \<leftarrow> reconcileEndpointSlice K cfg svc (getLeaderServiceName K svc) leaderPod
                     leaderPorts;
                   case slice of
                     Inl err \<Rightarrow> ret (Inl (EndpointSliceFailed err))
                   | Inr done \<Rightarrow>
                       do { record_stability svc leaderPod; ret (Inr ()) } } }"

subsection \<open>The leader that is published\<close>

text \<open>
  What the ports and the leader are after resolution: as selected when every port resolves, none
  otherwise.
\<close>

definition resolved_leader :: "service \<Rightarrow> pod option \<Rightarrow> service_port list \<times> pod option" where
  "resolved_leader svc selected =
     (case resolution selected (Ports svc) of Some rps \<Rightarrow> (rps, selected) | None \<Rightarrow> ([], None))"

lemma resolve_or_fail_result:
  assumes "run_state (resolve_or_fail K svc selected) s = (r, s')"
  shows "r = resolved_leader svc selected"
proof (cases "run_state (resolveServicePorts svc selected) s")
  case (Pair q t)
  show ?thesis
  proof (cases q)
    case (Inl e)
    with resolveServicePorts_failure Pair have "resolution selected (Ports svc) = None" by blast
    with assms Pair Inl show ?thesis
      by (simp add: resolve_or_fail_def resolved_leader_def split: prod.splits)
  next
    case (Inr rps)
    with resolveServicePorts_success Pair have "resolution selected (Ports svc) = Some rps" by blast
    with assms Pair Inr show ?thesis by (simp add: resolve_or_fail_def resolved_leader_def)
  qed
qed

lemma resolved_leader_numeric:
  "rp \<in> set (fst (resolved_leader svc selected)) \<Longrightarrow> \<exists>i. TargetPort rp = IntPort i"
  by (auto simp: resolved_leader_def dest: resolution_numeric split: option.splits)

lemma resolved_leader_endpoint_ports:
  "\<exists>ports. endpoint_ports (fst (resolved_leader svc selected)) = Inr ports"
  by (auto simp: resolved_leader_def dest: endpoint_ports_resolved split: option.splits)

lemma resolved_leader_selected: "snd (resolved_leader svc selected) = Some p \<Longrightarrow> selected = Some p"
  by (auto simp: resolved_leader_def split: option.splits)

subsection \<open>What reconcileLeaderService writes\<close>

fun leader_write :: "'w kube \<Rightarrow> service \<Rightarrow> pod option \<Rightarrow> api_call \<Rightarrow> bool" where
  "leader_write K svc selected (CallCreateService leaderService r) =
     (\<exists>annotations. leaderService = new_leader_service svc (getLeaderServiceName K svc) annotations
        (fst (resolved_leader svc selected)))"
| "leader_write K svc selected (CallPatchService leaderService original r) =
     (\<exists>annotations. leaderService = original\<lparr>Selector := [],
        Ports := fst (resolved_leader svc selected), ServiceType := leader_service_type svc,
        Annotations := annotations\<rparr>)"
| "leader_write K svc selected (CallDeleteSlice slice r) =
     (resolution selected (Ports svc) = None)"
| "leader_write K svc selected c =
     slice_write svc (getLeaderServiceName K svc) (snd (resolved_leader svc selected))
       (fst (resolved_leader svc selected)) c"

lemma leader_write_read: "is_read c \<Longrightarrow> leader_write K svc selected c"
  by (cases c) auto

lemma slice_write_leader:
  "slice_write svc (getLeaderServiceName K svc) (snd (resolved_leader svc selected))
     (fst (resolved_leader svc selected)) c \<Longrightarrow> leader_write K svc selected c"
  by (cases c) auto

lemma logs_resolveServicePorts:
  "state_io_rel (appends calls ok) (resolveServicePorts svc leaderPod)"
  by (rule call_log.keeps_resolveServicePorts) (auto intro: appends_same)

lemma logs_fail_closed:
  assumes "\<And>c. is_read c \<Longrightarrow> ok c" and "\<And>slice r. ok (CallDeleteSlice slice r)"
  shows "state_io_rel (appends calls ok) (fail_closed K svc)"
  unfolding fail_closed_def by (intro logs_intros logs_call_api assms)

lemma logs_resolve_or_fail:
  "state_io_rel (appends calls (leader_write K svc selected)) (resolve_or_fail K svc selected)"
proof -
  have fail: "state_io_rel (appends calls (leader_write K svc selected)) (do { fail_closed K svc;
      ret ([] :: service_port list, None :: pod option) })"
    if "run_state (resolveServicePorts svc selected) s = (Inl e, s')" for s s' e
    using resolveServicePorts_failure[OF that]
    by (intro logs_intros logs_fail_closed) (auto simp: leader_write_read)
  show ?thesis unfolding resolve_or_fail_def
    by (rule grows.keeps_bind_result[OF logs_resolveServicePorts])
      (auto intro!: grows.keeps_case_sum grows.keeps_return dest: fail)
qed

lemma logs_leader_annotations:
  "state_io_rel (appends calls ok) (leader_annotations K svc leaderPod annotations)"
  unfolding leader_annotations_def by (intro logs_intros)

lemma logs_write_leader_service:
  "state_io_rel (appends calls (leader_write K svc selected))
     (write_leader_service K svc leaderPod (fst (resolved_leader svc selected)))"
  unfolding write_leader_service_def create_leader_service_def patch_leader_service_def
  by (intro logs_intros logs_updateResourceTotals logs_leader_annotations logs_call_api)
    (auto simp: leader_write_read)

lemma logs_reconcileLeaderService:
  assumes "\<And>c. leader_write K svc selected c \<Longrightarrow> ok c"
  shows "state_io_rel (appends calls ok) (reconcileLeaderService K cfg svc selected)"
proof -
  let ?w = "leader_write K svc selected"
  have "state_io_rel (appends calls ?w) (reconcileLeaderService K cfg svc selected)"
    unfolding reconcileLeaderService_def record_stability_def
  proof (rule grows.keeps_bind_result[OF logs_resolve_or_fail])
    fix s s' and r :: "service_port list \<times> pod option"
    assume "run_state (resolve_or_fail K svc selected) s = (r, s')"
    then have r: "r = (fst (resolved_leader svc selected), snd (resolved_leader svc selected))"
      using resolve_or_fail_result by fastforce
    show "state_io_rel (appends calls ?w) (case r of (leaderPorts, leaderPod) \<Rightarrow>
        do { written \<leftarrow> write_leader_service K svc leaderPod leaderPorts;
             case written of Inl err \<Rightarrow> ret (Inl err) | Inr done \<Rightarrow>
             do { slice \<leftarrow> reconcileEndpointSlice K cfg svc (getLeaderServiceName K svc) leaderPod leaderPorts;
                  case slice of Inl err \<Rightarrow> ret (Inl (EndpointSliceFailed err)) | Inr done \<Rightarrow>
                  do { (if leaderPod \<noteq> None \<and> isPodReady (the leaderPod) then
                          do { metric (RecordLeaderStable (Namespace svc) (Name svc) True);
                               metric (RecordLeaderServiceWithoutEndpoints (Namespace svc) (Name svc) False) }
                        else
                          do { metric (RecordLeaderStable (Namespace svc) (Name svc) False);
                               metric (RecordLeaderServiceWithoutEndpoints (Namespace svc) (Name svc) True) });
                       ret (Inr ()) } } })"
      unfolding r prod.case
      by (intro logs_intros logs_write_leader_service logs_reconcileEndpointSlice slice_write_leader)
  qed
  then show ?thesis
    using assms by (auto simp: state_io_rel_def intro: appends_mono)
qed

subsection \<open>The leader annotations\<close>

definition leader_keys :: "string list" where
  "leader_keys = [AnnotationCurrentLeader, AnnotationLeaderPodName, AnnotationLeaderPodUID,
     AnnotationLeaderLastSwitchTime]"

lemma mark_leader_get:
  "map_of (mark_leader p a) = (map_of a)(AnnotationCurrentLeader \<mapsto> Name p,
     AnnotationLeaderPodName \<mapsto> Name p, AnnotationLeaderPodUID \<mapsto> UID p)"
  by (simp add: mark_leader_def)

lemma unmark_leader_get:
  "map_of (unmark_leader a) = (map_of a)(AnnotationCurrentLeader := None,
     AnnotationLeaderPodName := None, AnnotationLeaderPodUID := None)"
  by (simp add: unmark_leader_def)

lemma mark_switch_get:
  "map_of (mark_switch K t a) = (map_of a)(AnnotationLeaderLastSwitchTime \<mapsto> FormatRFC3339 K t)"
  by (simp add: mark_switch_def)

text \<open>
  The annotations name the leader, the switch time changes exactly when the UID does, and the
  event is emitted when the name changes as well. No other annotation is touched.
\<close>

lemma leader_annotations_leader:
  assumes "run_state (leader_annotations K svc (Some p) a) s = (a', s')"
  shows "map_of a' AnnotationCurrentLeader = Some (Name p) \<and>
    map_of a' AnnotationLeaderPodName = Some (Name p) \<and>
    map_of a' AnnotationLeaderPodUID = Some (UID p) \<and>
    map_of a' AnnotationLeaderLastSwitchTime =
      (if map_get a AnnotationLeaderPodUID = UID p then map_of a AnnotationLeaderLastSwitchTime
       else Some (FormatRFC3339 K (fst (Now K (world s))))) \<and>
    (k \<notin> set leader_keys \<longrightarrow> map_of a' k = map_of a k) \<and>
    events s' = events s @
      (if map_get a AnnotationLeaderPodUID \<noteq> UID p \<and> map_get a AnnotationLeaderPodName \<noteq> '''' \<and>
          map_get a AnnotationLeaderPodName \<noteq> Name p
       then [Event (object_key svc) EventTypeNormal ''LeaderChanged''] else [])"
  using assms
  by (auto simp: leader_annotations_def run_now mark_leader_get mark_switch_get leader_keys_def
      annotation_keys Let_def split: if_splits)

lemma leader_annotations_none:
  assumes "run_state (leader_annotations K svc None a) s = (a', s')"
  shows "map_of a' AnnotationCurrentLeader = None \<and> map_of a' AnnotationLeaderPodName = None \<and>
    map_of a' AnnotationLeaderPodUID = None \<and>
    map_of a' AnnotationLeaderLastSwitchTime = map_of a AnnotationLeaderLastSwitchTime \<and>
    (k \<notin> set leader_keys \<longrightarrow> map_of a' k = map_of a k) \<and> s' = s"
  using assms
  by (auto simp: leader_annotations_def unmark_leader_get leader_keys_def annotation_keys)

subsection \<open>What success means\<close>

text \<open>
  The calls \<open>cs\<close> have written the leader Service, and the server has accepted it: the Service of the
  leader name, new or read before and patched, without a selector, with the ports, and with
  annotations that name the leader.
\<close>

definition annotated_with :: "pod option \<Rightarrow> strmap \<Rightarrow> bool" where
  "annotated_with leaderPod a \<longleftrightarrow>
     (case leaderPod of
        None \<Rightarrow> True
      | Some p \<Rightarrow> map_of a AnnotationCurrentLeader = Some (Name p) \<and>
          map_of a AnnotationLeaderPodName = Some (Name p) \<and> map_of a AnnotationLeaderPodUID = Some (UID p))"

definition service_published ::
  "'w kube \<Rightarrow> service \<Rightarrow> pod option \<Rightarrow> service_port list \<Rightarrow> api_call set \<Rightarrow> bool" where
  "service_published K svc leaderPod ports cs \<longleftrightarrow>
     (\<exists>a. annotated_with leaderPod a \<and>
        (CallCreateService (new_leader_service svc (getLeaderServiceName K svc) a ports) (Inr ()) \<in> cs \<or>
         (\<exists>original. CallGetService (leader_key K svc) (Inr original) \<in> cs \<and>
            CallPatchService (original\<lparr>Selector := [], Ports := ports,
              ServiceType := leader_service_type svc, Annotations := a\<rparr>) original (Inr ()) \<in> cs)))"

lemma service_published_mono:
  "service_published K svc leaderPod ports cs \<Longrightarrow> cs \<subseteq> cs' \<Longrightarrow>
   service_published K svc leaderPod ports cs'"
  unfolding service_published_def by blast

lemma leader_annotations_name:
  "run_state (leader_annotations K svc leaderPod a) s = (a', s') \<Longrightarrow> annotated_with leaderPod a'"
  using leader_annotations_leader by (fastforce simp: annotated_with_def split: option.splits)

lemma create_leader_service_success:
  assumes "run_state (create_leader_service K svc leaderPod ports) s = (Inr (), s')"
  shows "\<exists>a. annotated_with leaderPod a \<and> calls_grow s s'
    {CallCreateService (new_leader_service svc (getLeaderServiceName K svc) a ports) (Inr ())}"
proof -
  let ?ann = "case leaderPod of
      Some p \<Rightarrow> do { t \<leftarrow> now K; ret (mark_switch K t (mark_leader p
        (filterGitOpsAnnotations (Annotations svc)))) }
    | None \<Rightarrow> ret (filterGitOpsAnnotations (Annotations svc))"
  obtain a t where ann: "run_state ?ann s = (a, t)" by (metis prod.exhaust)
  then have t: "calls t = calls s" by (auto simp: run_now split: option.splits)
  let ?svc = "new_leader_service svc (getLeaderServiceName K svc) a ports"
  let ?create = "call_api K (DefaultRetry K) (CreateService K ?svc) (CallCreateService ?svc)
    (Namespace svc) (Name svc) ''create_leader_service''"
  let ?rest = "do { emit_event svc EventTypeNormal ''LeaderServiceCreated'';
    emit_event svc EventTypeNormal ''LeaderRoutingAvailable''; recorder \<leftarrow> gets Metrics;
    onlyif (recorder \<noteq> None) (updateResourceTotals K (Namespace svc));
    ret (Inr () :: leader_error + unit) }"
  obtain r u where create: "run_state ?create t = (r, u)" by (metis prod.exhaust)
  have r: "r = Inr ()"
    using assms ann create by (cases r) (auto simp: create_leader_service_def Let_def)
  then have "run_state ?rest u = (Inr (), s')"
    using assms ann create unfolding create_leader_service_def Let_def by simp
  moreover have "state_io_rel (appends calls (\<lambda>_. True)) ?rest"
    by (intro logs_intros logs_updateResourceTotals) simp_all
  ultimately have "calls_grow u s' {}" by (rule calls_grow_io[rotated])
  with call_api_grow(2)[OF create r] have "calls_grow t s' {CallCreateService ?svc (Inr ())}"
    using calls_grow_trans by fastforce
  moreover have "annotated_with leaderPod a"
    using ann by (auto simp: annotated_with_def run_now mark_leader_get mark_switch_get annotation_keys
        split: option.splits)
  ultimately show ?thesis using t by (intro exI[of _ a]) (simp add: grows_by_def)
qed

lemma patch_leader_service_success:
  assumes "run_state (patch_leader_service K svc original leaderPod ports) s = (Inr (), s')"
  shows "\<exists>a. annotated_with leaderPod a \<and> calls_grow s s'
    {CallPatchService (original\<lparr>Selector := [], Ports := ports,
       ServiceType := leader_service_type svc, Annotations := a\<rparr>) original (Inr ())}"
proof -
  obtain a t where ann: "run_state (leader_annotations K svc leaderPod (Annotations original)) s = (a, t)"
    by (metis prod.exhaust)
  have t: "calls_grow s t {}"
    by (rule calls_grow_io[OF logs_leader_annotations ann])
  let ?svc = "original\<lparr>Selector := [], Ports := ports, ServiceType := leader_service_type svc,
    Annotations := a\<rparr>"
  let ?patch = "call_api K (DefaultRetry K) (PatchService K ?svc original)
    (CallPatchService ?svc original) (Namespace svc) (Name svc) ''patch_leader_service''"
  obtain r u where patch: "run_state ?patch t = (r, u)" by (metis prod.exhaust)
  have "r = Inr ()" and "s' = u"
    using assms ann patch by (cases r; auto simp: patch_leader_service_def Let_def)+
  with calls_grow_trans[OF t call_api_grow(2)[OF patch]] leader_annotations_name[OF ann] show ?thesis
    by (intro exI[of _ a]) simp
qed

lemma write_leader_service_success:
  assumes "run_state (write_leader_service K svc leaderPod ports) s = (Inr (), s')"
  shows "\<exists>cs. service_published K svc leaderPod ports cs \<and> calls_grow s s' cs"
proof -
  let ?get = "call_api K (DefaultRetry K) (GetService K (leader_key K svc))
    (CallGetService (leader_key K svc)) (Namespace svc) (Name svc) ''get_leader_service''"
  obtain r t where get: "run_state ?get s = (r, t)" by (metis prod.exhaust)
  show ?thesis
  proof (cases r)
    case (Inl e)
    then have "run_state (create_leader_service K svc leaderPod ports) t = (Inr (), s')"
      using assms get by (auto simp: write_leader_service_def split: if_splits)
    from create_leader_service_success[OF this] obtain a where a: "annotated_with leaderPod a"
      and grow: "calls_grow t s'
        {CallCreateService (new_leader_service svc (getLeaderServiceName K svc) a ports) (Inr ())}"
      by blast
    from calls_grow_trans[OF call_api_grow(1)[OF get] grow] a show ?thesis
      unfolding service_published_def by blast
  next
    case (Inr original)
    then have "run_state (patch_leader_service K svc original leaderPod ports) t = (Inr (), s')"
      using assms get by (auto simp: write_leader_service_def)
    from patch_leader_service_success[OF this] obtain a where a: "annotated_with leaderPod a"
      and grow: "calls_grow t s' {CallPatchService (original\<lparr>Selector := [], Ports := ports,
        ServiceType := leader_service_type svc, Annotations := a\<rparr>) original (Inr ())}"
      by blast
    from calls_grow_trans[OF call_api_grow(2)[OF get Inr] grow] a show ?thesis
      unfolding service_published_def by blast
  qed
qed

text \<open>
  A run without error has written the leader Service and the slice of the resolved leader, both
  accepted by the server.
\<close>

lemma reconcileLeaderService_success:
  assumes "run_state (reconcileLeaderService K cfg svc selected) s = (Inr (), s')"
  shows "\<exists>new. calls s' = calls s @ new \<and>
    service_published K svc (snd (resolved_leader svc selected)) (fst (resolved_leader svc selected)) (set new) \<and>
    slice_published svc (getLeaderServiceName K svc) (snd (resolved_leader svc selected))
      (fst (resolved_leader svc selected)) (set new)"
proof -
  obtain r t where resolve: "run_state (resolve_or_fail K svc selected) s = (r, t)"
    by (metis prod.exhaust)
  have t: "calls_grow s t {}" using grows_by_mono[OF grows_by_io[OF logs_resolve_or_fail resolve]] by simp
  obtain ports leader where r: "r = (ports, leader)" by (cases r)
  have rl: "ports = fst (resolved_leader svc selected)" "leader = snd (resolved_leader svc selected)"
    using resolve_or_fail_result[OF resolve] r by (metis fst_conv snd_conv)+
  obtain w u where wrote: "run_state (write_leader_service K svc leader ports) t = (w, u)"
    by (metis prod.exhaust)
  have w: "w = Inr ()"
    using assms resolve r wrote by (cases w) (auto simp: reconcileLeaderService_def record_stability_def)
  obtain e v where slice: "run_state (reconcileEndpointSlice K cfg svc (getLeaderServiceName K svc)
      leader ports) u = (e, v)" by (metis prod.exhaust)
  have e: "e = Inr ()"
    using assms resolve r wrote w slice by (cases e) (auto simp: reconcileLeaderService_def record_stability_def)
  have "calls s' = calls v"
    using assms resolve r wrote w slice e by (auto simp: reconcileLeaderService_def record_stability_def split: if_splits)
  moreover obtain c where c: "service_published K svc leader ports c" "calls_grow t u c"
    using write_leader_service_success wrote w by blast
  moreover obtain d where d: "slice_published svc (getLeaderServiceName K svc) leader ports d"
    "calls_grow u v d"
    using reconcileEndpointSlice_success slice e by blast
  from calls_grow_trans[OF t calls_grow_trans[OF c(2) d(2)]] obtain new
    where "calls v = calls s @ new" and "c \<union> d \<subseteq> set new" by (auto simp: grows_by_def)
  ultimately show ?thesis unfolding rl[symmetric]
    using service_published_mono[OF c(1)] slice_published_mono[OF d(1)] by auto
qed

end
