(* ===== verification/Director.thy ===== *)
theory Director
  imports LeaderCache OptedCache LeaderService
begin

text \<open>
  The reconciler of opted-in Services (\<^verbatim>\<open>Reconcile\<close>, \<^verbatim>\<open>cleanupLeaderResources\<close> and
  \<^verbatim>\<open>NewServiceDirectorReconciler\<close> of \<^verbatim>\<open>service_director.go\<close>). Every run returns the empty
  \<^verbatim>\<open>ctrl.Result\<close>, so a run is an error or the unit value. \<^verbatim>\<open>Reconcile\<close> is split where it returns
  and at its comments.
\<close>

datatype reconcile_error =
    GetServiceFailed api_err
  | InvalidNamespace "string list"
  | InvalidServiceName "string list"
  | ListPodsFailed nsname strmap api_err
  | LeaderServiceFailed leader_error
  | DeleteLeaderServiceFailed api_err

subsection \<open>NewServiceDirectorReconciler\<close>

definition milliseconds :: "int \<Rightarrow> duration" where
  "milliseconds n = n * 1000000"

definition seconds :: "int \<Rightarrow> duration" where
  "seconds n = n * 1000000000"

definition positive_or :: "int \<Rightarrow> int \<Rightarrow> int" where
  "positive_or fallback n = (if n \<le> 0 then fallback else n)"

definition NewServiceDirectorReconciler ::
  "'w \<Rightarrow> int \<Rightarrow> int \<Rightarrow> duration \<Rightarrow> duration \<Rightarrow> duration \<Rightarrow> duration \<Rightarrow> int \<Rightarrow> bool \<Rightarrow> duration \<Rightarrow> bool \<Rightarrow>
   director_config \<times> 'w sys" where
  "NewServiceDirectorReconciler w maxCacheSize maxConcurrent cacheTimeout metricsTimeout
     fastRetryInitialDelay fastRetryMaxDelay fastRetryMaxAttempts enableLeaderPodCache cacheTTL
     parallelCalls =
     (\<lparr>maxCacheSizePerNamespace = positive_or 1000 maxCacheSize,
       maxConcurrentReconciles = positive_or 10 maxConcurrent,
       cacheUpdateTimeout = positive_or (seconds 10) cacheTimeout,
       metricsCollectionTimeout = positive_or (seconds 5) metricsTimeout,
       fastRetryConfig =
         \<lparr>MaxAttempts = positive_or 2 fastRetryMaxAttempts,
          InitialDelay = positive_or (milliseconds 20) fastRetryInitialDelay,
          MaxDelay = positive_or (milliseconds 500) fastRetryMaxDelay,
          Multiplier = 2\<rparr>,
       enableParallelAPICalls = parallelCalls,
       leaderPodCacheTTL = positive_or (seconds 30) cacheTTL\<rparr>,
      \<lparr>world = w, calls = [], events = [], Metrics = Some [], optedInServicesCache = [],
       leaderPodCache = (if enableLeaderPodCache then Some [] else None)\<rparr>)"

subsection \<open>cleanupLeaderResources\<close>

fun delete_listed :: "'w kube \<Rightarrow> nsname \<Rightarrow> service list \<Rightarrow> ('w sys, unit) state" where
  "delete_listed K svcName [] = skip"
| "delete_listed K svcName (item # rest) =
     do { r \<leftarrow> call_api K (DefaultRetry K) (DeleteService K item) (CallDeleteService item)
            (fst svcName) (snd svcName) ''delete_leader_service_by_label'';
          delete_listed K svcName rest }"

definition source_labels :: "string \<Rightarrow> strmap" where
  "source_labels n = [(LabelSourceService, n), (LabelManagedBy, LabelManagedByValue)]"

definition cleanupLeaderResources ::
  "'w kube \<Rightarrow> nsname \<Rightarrow> ('w sys, reconcile_error + unit) state" where
  "cleanupLeaderResources K svcName =
     do { r \<leftarrow> call_api K (DefaultRetry K) (GetService K svcName) (CallGetService svcName)
            (fst svcName) (snd svcName) ''get_service_cleanup'';
          case r of
            Inr svc \<Rightarrow>
              do { let leaderServiceKey = (fst svcName, getLeaderServiceName K svc);
                   leader \<leftarrow> call_api K (DefaultRetry K) (GetService K leaderServiceKey)
                     (CallGetService leaderServiceKey) (fst svcName) (snd svcName)
                     ''get_leader_service_cleanup'';
                   case leader of
                     Inl err \<Rightarrow> ret (Inr ())
                   | Inr leaderService \<Rightarrow>
                       do { deleted \<leftarrow> call_api K (DefaultRetry K) (DeleteService K leaderService)
                              (CallDeleteService leaderService) (fst svcName) (snd svcName)
                              ''delete_leader_service'';
                            ret (case deleted of
                                Inl err \<Rightarrow> Inl (DeleteLeaderServiceFailed err)
                              | Inr done \<Rightarrow> Inr ()) } }
          | Inl err \<Rightarrow>
              do { listed \<leftarrow> call_api K (DefaultRetry K)
                     (ListServices K (fst svcName) (source_labels (snd svcName)))
                     (CallListServices (fst svcName) (source_labels (snd svcName)))
                     (fst svcName) (snd svcName) ''list_leader_services_cleanup'';
                   case listed of
                     Inl err \<Rightarrow> ret (Inr ())
                   | Inr items \<Rightarrow> do { delete_listed K svcName items; ret (Inr ()) } } }"

subsection \<open>Reconcile\<close>

text \<open>The duration and, for a failed run, the error series.\<close>

definition finish_run ::
  "'w kube \<Rightarrow> go_time \<Rightarrow> nsname \<Rightarrow> string \<Rightarrow> metric_op list \<Rightarrow> ('w sys, unit) state" where
  "finish_run K startTime svcName result errs =
     do { d \<leftarrow> since K startTime;
          metric (RecordReconciliationDuration (fst svcName) (snd svcName) result d @ errs) }"

definition finish_error :: "'w kube \<Rightarrow> go_time \<Rightarrow> nsname \<Rightarrow> string \<Rightarrow> ('w sys, unit) state" where
  "finish_error K startTime svcName errorType =
     finish_run K startTime svcName ''error''
       (RecordReconciliationError (fst svcName) (snd svcName) errorType)"

definition finish_success :: "'w kube \<Rightarrow> go_time \<Rightarrow> nsname \<Rightarrow> ('w sys, unit) state" where
  "finish_success K startTime svcName = finish_run K startTime svcName ''success'' []"

text \<open>The Service cannot be read.\<close>

definition reconcile_unread ::
  "'w kube \<Rightarrow> director_config \<Rightarrow> go_time \<Rightarrow> nsname \<Rightarrow> api_err \<Rightarrow> ('w sys, reconcile_error + unit) state"
  where
  "reconcile_unread K cfg startTime req err =
     do { updateOptedInServicesCache K cfg (fst req);
          if is_not_found err then
            do { r \<leftarrow> cleanupLeaderResources K req;
                 finish_success K startTime req;
                 ret r }
          else
            do { finish_error K startTime req ''service_not_found'';
                 ret (Inl (GetServiceFailed err)) } }"

text \<open>The Service is not opted in.\<close>

definition reconcile_disabled ::
  "'w kube \<Rightarrow> go_time \<Rightarrow> nsname \<Rightarrow> service \<Rightarrow> ('w sys, reconcile_error + unit) state" where
  "reconcile_disabled K startTime req svc =
     do { updateOptedInServicesCacheForService K svc;
          r \<leftarrow> cleanupLeaderResources K req;
          finish_success K startTime (fst req, Name svc);
          ret r }"

text \<open>No pod matches the selector.\<close>

definition reconcile_no_pods ::
  "'w kube \<Rightarrow> director_config \<Rightarrow> go_time \<Rightarrow> service \<Rightarrow> ('w sys, reconcile_error + unit) state" where
  "reconcile_no_pods K cfg startTime svc =
     do { emit_event svc EventTypeWarning ''NoPodsFound'';
          r \<leftarrow> reconcileLeaderService K cfg svc None;
          case r of
            Inl err \<Rightarrow>
              do { finish_error K startTime (object_key svc) ''reconcile_service_failed'';
                   ret (Inl (LeaderServiceFailed err)) }
          | Inr done \<Rightarrow>
              do { finish_success K startTime (object_key svc);
                   ret (Inr ()) } }"

text \<open>
  The leader-fast-path. The result is the current leader if it is healthy, and otherwise the start
  and the reason of the failover, which also says that stickiness is bypassed. (\<^verbatim>\<open>time.Now\<close> is
  never the zero time, so \<^verbatim>\<open>failoverStartTime.IsZero()\<close> says that no failover was started.)
\<close>

definition check_current_leader ::
  "'w kube \<Rightarrow> director_config \<Rightarrow> service \<Rightarrow>
   ('w sys, pod option \<times> (go_time \<times> string) option) state" where
  "check_current_leader K cfg svc =
     do { current \<leftarrow> getCurrentLeaderPod K cfg svc;
          case current of
            None \<Rightarrow> ret (None, None)
          | Some p \<Rightarrow>
              if unhealthy p then
                do { failoverStartTime \<leftarrow> now K;
                     clearLeaderPodCache (service_key (Namespace svc) (Name svc));
                     ret (None, Some (failoverStartTime, failover_reason p)) }
              else ret (Some p, None) }"

definition leader_changed :: "pod option \<Rightarrow> pod option \<Rightarrow> bool" where
  "leader_changed current leader =
     (case (current, leader) of
        (Some c, Some l) \<Rightarrow> UID c \<noteq> UID l
      | (None, None) \<Rightarrow> False
      | _ \<Rightarrow> True)"

definition change_reason :: "pod option \<Rightarrow> (go_time \<times> string) option \<Rightarrow> string" where
  "change_reason current failover =
     (let reason = (case current of
          Some p \<Rightarrow> failover_reason p
        | None \<Rightarrow> (case failover of Some (t, why) \<Rightarrow> why | None \<Rightarrow> ''''))
      in if reason = '''' then ''noneReady'' else reason)"

definition record_leader_change ::
  "'w kube \<Rightarrow> service \<Rightarrow> pod option \<Rightarrow> pod option \<Rightarrow> (go_time \<times> string) option \<Rightarrow> ('w sys, unit) state"
  where
  "record_leader_change K svc current leader failover =
     do { (case leader of
             Some p \<Rightarrow> updateLeaderPodCache K (service_key (Namespace svc) (Name svc)) p defaultCacheTTL
           | None \<Rightarrow> clearLeaderPodCache (service_key (Namespace svc) (Name svc)));
          recorder \<leftarrow> gets Metrics;
          onlyif (recorder \<noteq> None)
            (do { let reason = change_reason current failover;
                  metric (RecordFailover (Namespace svc) (Name svc) reason);
                  (case failover of
                     Some (failoverStartTime, why) \<Rightarrow>
                       do { latency \<leftarrow> since K failoverStartTime;
                            metric (RecordFailoverLatency (Namespace svc) (Name svc) reason latency) }
                   | None \<Rightarrow> skip);
                  metric (ResetLeaderDuration (Namespace svc) (Name svc)) }) }"

text \<open>The metrics of a finished run with pods.\<close>

definition record_leader ::
  "'w kube \<Rightarrow> service \<Rightarrow> pod option \<Rightarrow> ('w sys, unit) state" where
  "record_leader K svc leader =
     (case leader of
        Some p \<Rightarrow>
          do { d \<leftarrow> since K (CreationTimestamp p);
               metric (RecordLeaderDuration (Namespace svc) (Name svc) d);
               metric (RecordLeaderPodAge (Namespace svc) (Name svc) d) }
      | None \<Rightarrow> metric (RecordLeaderServiceWithoutEndpoints (Namespace svc) (Name svc) True))"

definition publish_leader ::
  "'w kube \<Rightarrow> director_config \<Rightarrow> go_time \<Rightarrow> service \<Rightarrow> pod option \<Rightarrow>
   ('w sys, reconcile_error + unit) state" where
  "publish_leader K cfg startTime svc leader =
     do { r \<leftarrow> reconcileLeaderService K cfg svc leader;
          case r of
            Inl err \<Rightarrow>
              do { finish_error K startTime (object_key svc) ''reconcile_service_failed'';
                   ret (Inl (LeaderServiceFailed err)) }
          | Inr done \<Rightarrow>
              do { record_leader K svc leader;
                   finish_success K startTime (object_key svc);
                   ret (Inr ()) } }"

definition reconcile_pods ::
  "'w kube \<Rightarrow> director_config \<Rightarrow> go_time \<Rightarrow> service \<Rightarrow> pod list \<Rightarrow>
   ('w sys, reconcile_error + unit) state" where
  "reconcile_pods K cfg startTime svc pods =
     do { (current, failover) \<leftarrow> check_current_leader K cfg svc;
          metric (RecordLeaderSelectionAttempt (Namespace svc) (Name svc));
          metric (RecordReconciliation (Namespace svc) (Name svc) ''success'');
          leader \<leftarrow> selectLeaderPod K svc pods (failover \<noteq> None);
          onlyif (leader_changed current leader) (record_leader_change K svc current leader failover);
          publish_leader K cfg startTime svc leader }"

text \<open>An opted-in Service.\<close>

definition reconcile_enabled ::
  "'w kube \<Rightarrow> director_config \<Rightarrow> go_time \<Rightarrow> nsname \<Rightarrow> service \<Rightarrow>
   ('w sys, reconcile_error + unit) state" where
  "reconcile_enabled K cfg startTime req svc =
     do { updateOptedInServicesCacheForService K svc;
          if IsDNS1123Label K (fst req) \<noteq> [] then
            do { finish_error K startTime req ''invalid_namespace'';
                 ret (Inl (InvalidNamespace (IsDNS1123Label K (fst req)))) }
          else if IsDNS1123Subdomain K (snd req) \<noteq> [] then
            do { finish_error K startTime req ''invalid_service_name'';
                 ret (Inl (InvalidServiceName (IsDNS1123Subdomain K (snd req)))) }
          else if Selector svc = [] then
            do { emit_event svc EventTypeWarning ''InvalidService'';
                 finish_success K startTime (object_key svc);
                 ret (Inr ()) }
          else
            do { listed \<leftarrow> call_api K (DefaultRetry K) (ListPods K (Namespace svc) (Selector svc))
                   (CallListPods (Namespace svc) (Selector svc)) (Namespace svc) (Name svc) ''list_pods'';
                 case listed of
                   Inl err \<Rightarrow>
                     do { finish_error K startTime (object_key svc) ''list_pods_failed'';
                          ret (Inl (ListPodsFailed (object_key svc) (Selector svc) err)) }
                 | Inr pods \<Rightarrow>
                     do { metric (RecordPodsAvailable (Namespace svc) (Name svc)
                            (length (filter isPodReady pods)));
                          if pods = [] then reconcile_no_pods K cfg startTime svc
                          else reconcile_pods K cfg startTime svc pods } } }"

definition Reconcile ::
  "'w kube \<Rightarrow> director_config \<Rightarrow> nsname \<Rightarrow> ('w sys, reconcile_error + unit) state" where
  "Reconcile K cfg req =
     do { startTime \<leftarrow> now K;
          r \<leftarrow> call_api K (DefaultRetry K) (GetService K req) (CallGetService req)
            (fst req) (snd req) ''get_service'';
          case r of
            Inl err \<Rightarrow> reconcile_unread K cfg startTime req err
          | Inr svc \<Rightarrow>
              if \<not> zen_lead_enabled svc then reconcile_disabled K startTime req svc
              else reconcile_enabled K cfg startTime req svc }"

subsection \<open>What the clean-up deletes\<close>

fun delete_of :: "service set \<Rightarrow> api_call \<Rightarrow> bool" where
  "delete_of targets (CallDeleteService item r) = (item \<in> targets)"
| "delete_of targets c = is_read c"

lemma delete_of_read: "is_read c \<Longrightarrow> delete_of targets c"
  by (cases c) auto

lemma delete_of_mono: "delete_of A c \<Longrightarrow> A \<subseteq> B \<Longrightarrow> delete_of B c"
  by (cases c) auto

definition cleanup_targets :: "'w kube \<Rightarrow> nsname \<Rightarrow> api_call list \<Rightarrow> service set" where
  "cleanup_targets K req new =
     {item. \<exists>svc. CallGetService req (Inr svc) \<in> set new \<and>
        CallGetService (fst req, getLeaderServiceName K svc) (Inr item) \<in> set new} \<union>
     {item. \<exists>items. CallListServices (fst req) (source_labels (snd req)) (Inr items) \<in> set new \<and>
        item \<in> set items}"

lemma logs_delete_listed:
  "list_all (\<lambda>item. \<forall>r. ok (CallDeleteService item r)) items \<Longrightarrow>
   state_io_rel (appends calls ok) (delete_listed K svcName items)"
  by (induction items) (auto intro!: grows.keeps_bind grows.keeps_return logs_call_api)

lemma cleanup_result:
  assumes "run_state (cleanupLeaderResources K req) s = (r, s')"
  shows "\<exists>new. calls s' = calls s @ new \<and> list_all (delete_of (cleanup_targets K req new)) new"
proof -
  let ?get = "call_api K (DefaultRetry K) (GetService K req) (CallGetService req) (fst req) (snd req)
    ''get_service_cleanup''"
  obtain q t where get: "run_state ?get s = (q, t)" by (metis prod.exhaust)
  have "\<exists>targets cs. grows_by s s' (delete_of targets) cs \<and>
    (\<forall>new. cs \<subseteq> set new \<longrightarrow> targets \<subseteq> cleanup_targets K req new)"
  proof (cases q)
    case (Inr svc)
    let ?key = "(fst req, getLeaderServiceName K svc)"
    let ?leader = "call_api K (DefaultRetry K) (GetService K ?key) (CallGetService ?key) (fst req)
      (snd req) ''get_leader_service_cleanup''"
    obtain l u where leader: "run_state ?leader t = (l, u)" by (metis prod.exhaust)
    show ?thesis
    proof (cases l)
      case (Inl e)
      then have "s' = u" using assms get Inr leader
        by (simp add: cleanupLeaderResources_def Let_def)
      then have "grows_by s s' (delete_of {}) ({} \<union> {})"
        using grows_by_trans[OF grows_by_call(1)[OF get] grows_by_call(1)[OF leader]] by simp
      then show ?thesis by blast
    next
      case (Inr item)
      let ?ok = "delete_of {item}"
      let ?del = "call_api K (DefaultRetry K) (DeleteService K item) (CallDeleteService item)
        (fst req) (snd req) ''delete_leader_service''"
      obtain d v where del: "run_state ?del u = (d, v)" by (metis prod.exhaust)
      have "s' = v" using assms get \<open>q = Inr svc\<close> leader Inr del
        by (simp add: cleanupLeaderResources_def Let_def)
      moreover have "grows_by s t ?ok {CallGetService req (Inr svc)}"
        using grows_by_call(2)[OF get _ \<open>q = Inr svc\<close>] by simp
      moreover have "grows_by t u ?ok {CallGetService ?key (Inr item)}"
        using grows_by_call(2)[OF leader _ Inr] by simp
      moreover have "grows_by u v ?ok {}" using grows_by_call(1)[OF del] by simp
      ultimately have "grows_by s s' ?ok ({CallGetService req (Inr svc)} \<union>
          ({CallGetService ?key (Inr item)} \<union> {}))"
        by (blast intro: grows_by_trans)
      then show ?thesis
        by (intro exI[of _ "{item}"] exI conjI) (auto simp: cleanup_targets_def)
    qed
  next
    case (Inl e)
    let ?list = "call_api K (DefaultRetry K) (ListServices K (fst req) (source_labels (snd req)))
      (CallListServices (fst req) (source_labels (snd req))) (fst req) (snd req)
      ''list_leader_services_cleanup''"
    obtain l u where listed: "run_state ?list t = (l, u)" by (metis prod.exhaust)
    show ?thesis
    proof (cases l)
      case (Inl e')
      then have "s' = u" using assms get \<open>q = Inl e\<close> listed
        by (simp add: cleanupLeaderResources_def)
      then have "grows_by s s' (delete_of {}) ({} \<union> {})"
        using grows_by_trans[OF grows_by_call(1)[OF get] grows_by_call(1)[OF listed]] by simp
      then show ?thesis by blast
    next
      case (Inr items)
      let ?ok = "delete_of (set items)"
      have "grows_by s t ?ok {}" using grows_by_call(1)[OF get] by simp
      moreover have "grows_by t u ?ok
          {CallListServices (fst req) (source_labels (snd req)) (Inr items)}"
        using grows_by_call(2)[OF listed _ Inr] by simp
      moreover have "grows_by u s' ?ok {}"
        using assms get Inl listed Inr
        by (auto simp: cleanupLeaderResources_def list_all_iff split: prod.splits
            intro: grows_by_io[OF logs_delete_listed])
      ultimately have "grows_by s s' ?ok ({} \<union>
          ({CallListServices (fst req) (source_labels (snd req)) (Inr items)} \<union> {}))"
        by (blast intro: grows_by_trans)
      then show ?thesis
        by (intro exI[of _ "set items"] exI conjI) (auto simp: cleanup_targets_def)
    qed
  qed
  then show ?thesis
    by (auto simp: grows_by_def list_all_iff) (metis delete_of_mono)
qed

subsection \<open>What a run writes\<close>

lemma logs_modify_cache:
  "state_io_rel (appends calls ok) (clearLeaderPodCache k)"
  "state_io_rel (appends calls ok) (updateLeaderPodCache K k p ttl)"
  "state_io_rel (appends calls ok) (set_opted ns cached)"
  by (rule state_io_relI; auto simp: clearLeaderPodCache_def dest: run_updateLeaderPodCache(1)
      intro: appends_same)+

lemma logs_cached_leader:
  assumes "\<And>c. is_read c \<Longrightarrow> ok c"
  shows "state_io_rel (appends calls ok) (cached_leader K cfg svc)"
  unfolding cached_leader_def by (intro logs_intros assms)

lemma logs_slice_leader:
  assumes "\<And>c. is_read c \<Longrightarrow> ok c"
  shows "state_io_rel (appends calls ok) (slice_leader K cfg svc es)"
  by (induction es) (auto intro!: logs_intros logs_modify_cache assms)

lemma logs_getCurrentLeaderPod:
  assumes "\<And>c. is_read c \<Longrightarrow> ok c"
  shows "state_io_rel (appends calls ok) (getCurrentLeaderPod K cfg svc)"
  unfolding getCurrentLeaderPod_def
  by (intro logs_intros logs_cached_leader logs_slice_leader logs_modify_cache assms)

lemma logs_check_current_leader:
  assumes "\<And>c. is_read c \<Longrightarrow> ok c"
  shows "state_io_rel (appends calls ok) (check_current_leader K cfg svc)"
  unfolding check_current_leader_def
  by (intro logs_intros logs_getCurrentLeaderPod logs_modify_cache assms)

lemma logs_selectLeaderPod:
  assumes "\<And>c. is_read c \<Longrightarrow> ok c"
  shows "state_io_rel (appends calls ok) (selectLeaderPod K svc pods b)"
  unfolding selectLeaderPod_def select_fresh_def by (intro logs_intros assms)

lemma logs_records:
  "state_io_rel (appends calls ok) (record_leader_change K svc current leader failover)"
  "state_io_rel (appends calls ok) (record_leader K svc leader)"
  "state_io_rel (appends calls ok) (finish_error K start req e)"
  "state_io_rel (appends calls ok) (finish_success K start req)"
  unfolding record_leader_change_def record_leader_def finish_error_def finish_success_def
    finish_run_def
  by (intro logs_intros logs_modify_cache | split prod.split | intro allI impI)+

lemma logs_updateForService:
  "state_io_rel (appends calls ok) (updateOptedInServicesCacheForService K svc)"
  unfolding updateOptedInServicesCacheForService_def by (intro logs_intros logs_modify_cache)

lemma logs_collect_opted: "state_io_rel (appends calls ok) (collect_opted K items)"
  by (induction items) (auto intro!: logs_intros)

lemma logs_updateLocked:
  assumes "\<And>c. is_read c \<Longrightarrow> ok c"
  shows "state_io_rel (appends calls ok) (updateOptedInServicesCache K cfg ns)"
  unfolding updateOptedInServicesCache_def updateOptedInServicesCacheLocked_def
  by (intro logs_intros logs_collect_opted logs_modify_cache assms)

definition candidate :: "pod list \<Rightarrow> pod option \<Rightarrow> bool" where
  "candidate pods leader \<longleftrightarrow> (\<forall>p. leader = Some p \<longrightarrow> p \<in> set pods \<and> isPodReady p)"

lemma logs_publish_leader:
  "state_io_rel (appends calls (leader_write K svc leader)) (publish_leader K cfg start svc leader)"
  unfolding publish_leader_def by (intro logs_intros logs_reconcileLeaderService logs_records)

lemma reconcile_pods_writes:
  assumes "run_state (reconcile_pods K cfg start svc pods) s = (r, s')"
  shows "\<exists>leader. candidate pods leader \<and> grows_by s s' (leader_write K svc leader) {}"
proof -
  obtain current failover t where check: "run_state (check_current_leader K cfg svc) s
      = ((current, failover), t)" by (metis prod.exhaust)
  let ?marks = "do { metric (RecordLeaderSelectionAttempt (Namespace svc) (Name svc));
    metric (RecordReconciliation (Namespace svc) (Name svc) ''success'') }"
  obtain t' where marks: "run_state ?marks t = ((), t')" and t': "calls t' = calls t" by simp
  obtain leader u where select: "run_state (selectLeaderPod K svc pods (failover \<noteq> None)) t' = (leader, u)"
    by (metis prod.exhaust)
  let ?rest = "do { onlyif (leader_changed current leader)
    (record_leader_change K svc current leader failover); publish_leader K cfg start svc leader }"
  let ?ok = "leader_write K svc leader"
  have "run_state ?rest u = (r, s')"
    using assms check marks select by (simp add: reconcile_pods_def split: prod.splits)
  moreover have "state_io_rel (appends calls ?ok) ?rest"
    by (intro logs_intros logs_records logs_publish_leader)
  ultimately have "grows_by u s' ?ok {}" by (rule grows_by_io[rotated])
  moreover have "grows_by t' u ?ok {}"
    by (rule grows_by_io[OF logs_selectLeaderPod select]) (rule leader_write_read)
  moreover have "grows_by t t' ?ok {}" using t' by (rule grows_by_same)
  moreover have "grows_by s t ?ok {}"
    by (rule grows_by_io[OF logs_check_current_leader check]) (rule leader_write_read)
  ultimately have "grows_by s s' ?ok ({} \<union> ({} \<union> ({} \<union> {})))"
    by (blast intro: grows_by_trans)
  moreover have "candidate pods leader"
    using selectLeaderPod_ready select by (fastforce simp: candidate_def)
  ultimately show ?thesis by auto
qed

text \<open>
  The writes of a run: those of the clean-up, or those that publish one leader, a ready pod of the
  list that was read in the run, for a Service that was read in the run and is opted in.
\<close>

definition published_in ::
  "'w kube \<Rightarrow> nsname \<Rightarrow> api_call list \<Rightarrow> service \<Rightarrow> pod option \<Rightarrow> bool" where
  "published_in K req new svc leader \<longleftrightarrow>
     zen_lead_enabled svc \<and> Selector svc \<noteq> [] \<and> CallGetService req (Inr svc) \<in> set new \<and>
     (\<exists>pods. CallListPods (Namespace svc) (Selector svc) (Inr pods) \<in> set new \<and>
        candidate pods leader) \<and>
     list_all (leader_write K svc leader) new"

definition run_writes :: "'w kube \<Rightarrow> nsname \<Rightarrow> api_call list \<Rightarrow> bool" where
  "run_writes K req new \<longleftrightarrow>
     list_all (delete_of (cleanup_targets K req new)) new \<or>
     (\<exists>svc leader. published_in K req new svc leader)"

lemma cleanup_targets_append: "cleanup_targets K req new \<subseteq> cleanup_targets K req (old @ new @ later)"
  by (auto simp: cleanup_targets_def)

lemma run_writes_cleanup:
  assumes "run_state (cleanupLeaderResources K req) t = (r, u)"
    and "grows_by s t is_read {}" and "grows_by u s' is_read {}"
  shows "\<exists>new. calls s' = calls s @ new \<and> run_writes K req new"
proof -
  obtain new where new: "calls u = calls t @ new" "list_all (delete_of (cleanup_targets K req new)) new"
    using cleanup_result[OF assms(1)] by blast
  obtain old later where "calls t = calls s @ old" "list_all is_read old"
    "calls s' = calls u @ later" "list_all is_read later"
    using assms(2,3) by (auto simp: grows_by_def)
  moreover from this new have "list_all (delete_of (cleanup_targets K req (old @ new @ later)))
      (old @ new @ later)"
    using cleanup_targets_append[of K req new old later]
    by (auto simp: list_all_iff delete_of_read intro: delete_of_mono)
  ultimately show ?thesis using new by (auto simp: run_writes_def)
qed

lemma run_writes_reads:
  assumes "grows_by s s' is_read {}"
  shows "\<exists>new. calls s' = calls s @ new \<and> run_writes K req new"
  using assms by (auto simp: grows_by_def run_writes_def list_all_iff delete_of_read)

lemma reconcile_unread_writes:
  assumes "run_state (reconcile_unread K cfg start req err) t = (r, s')"
    and "grows_by s t is_read {}"
  shows "\<exists>new. calls s' = calls s @ new \<and> run_writes K req new"
proof -
  obtain u where upd: "run_state (updateOptedInServicesCache K cfg (fst req)) t = ((), u)"
    by (metis prod.exhaust unit.exhaust)
  have u: "grows_by s u is_read {}"
    using grows_by_trans[OF assms(2) grows_by_io[OF logs_updateLocked upd]] by simp
  show ?thesis
  proof (cases "is_not_found err")
    case True
    obtain q v where clean: "run_state (cleanupLeaderResources K req) u = (q, v)"
      by (metis prod.exhaust)
    have "run_state (finish_success K start req) v = ((), s')"
      using assms(1) upd True clean by (auto simp: reconcile_unread_def split: prod.splits)
    then show ?thesis
      by (intro run_writes_cleanup[OF clean u] grows_by_io[OF logs_records(4)])
  next
    case False
    then have "run_state (finish_error K start req ''service_not_found'') u = ((), s')"
      using assms(1) upd by (auto simp: reconcile_unread_def split: prod.splits)
    from grows_by_trans[OF u grows_by_io[OF logs_records(3) this]] show ?thesis
      by (intro run_writes_reads) simp
  qed
qed

lemma reconcile_disabled_writes:
  assumes "run_state (reconcile_disabled K start req svc) t = (r, s')"
    and "grows_by s t is_read {}"
  shows "\<exists>new. calls s' = calls s @ new \<and> run_writes K req new"
proof -
  obtain u where upd: "run_state (updateOptedInServicesCacheForService K svc) t = ((), u)"
    by (metis prod.exhaust unit.exhaust)
  have u: "grows_by s u is_read {}"
    using grows_by_trans[OF assms(2) grows_by_io[OF logs_updateForService upd]] by simp
  obtain q v where clean: "run_state (cleanupLeaderResources K req) u = (q, v)"
    by (metis prod.exhaust)
  have "run_state (finish_success K start (fst req, Name svc)) v = ((), s')"
    using assms(1) upd clean by (auto simp: reconcile_disabled_def split: prod.splits)
  then show ?thesis
    by (intro run_writes_cleanup[OF clean u] grows_by_io[OF logs_records(4)])
qed

text \<open>The part of a run after the pods were listed.\<close>

definition reconcile_listed ::
  "'w kube \<Rightarrow> director_config \<Rightarrow> go_time \<Rightarrow> service \<Rightarrow> pod list \<Rightarrow>
   ('w sys, reconcile_error + unit) state" where
  "reconcile_listed K cfg startTime svc pods =
     do { metric (RecordPodsAvailable (Namespace svc) (Name svc) (length (filter isPodReady pods)));
          if pods = [] then reconcile_no_pods K cfg startTime svc
          else reconcile_pods K cfg startTime svc pods }"

lemma reconcile_listed_writes:
  assumes "run_state (reconcile_listed K cfg start svc pods) s = (r, s')"
  shows "\<exists>leader. candidate pods leader \<and> grows_by s s' (leader_write K svc leader) {}"
proof -
  let ?m = "metric (RecordPodsAvailable (Namespace svc) (Name svc) (length (filter isPodReady pods)))"
  obtain t where m: "run_state ?m s = ((), t)" and t: "calls t = calls s" by simp
  have same: "grows_by s t ok {}" for ok using t by (rule grows_by_same)
  show ?thesis
  proof (cases "pods = []")
    case True
    then have "run_state (reconcile_no_pods K cfg start svc) t = (r, s')"
      using assms m by (auto simp: reconcile_listed_def)
    moreover have "state_io_rel (appends calls (leader_write K svc None)) (reconcile_no_pods K cfg start svc)"
      unfolding reconcile_no_pods_def by (intro logs_intros logs_reconcileLeaderService logs_records)
    ultimately have "grows_by t s' (leader_write K svc None) {}" by (rule grows_by_io[rotated])
    from grows_by_trans[OF same this] show ?thesis
      by (intro exI[of _ None]) (simp add: candidate_def)
  next
    case False
    then have "run_state (reconcile_pods K cfg start svc pods) t = (r, s')"
      using assms m by (auto simp: reconcile_listed_def)
    then obtain leader where "candidate pods leader" "grows_by t s' (leader_write K svc leader) {}"
      using reconcile_pods_writes by blast
    with grows_by_trans[OF same this(2)] show ?thesis by auto
  qed
qed

lemma reconcile_enabled_writes:
  assumes run: "run_state (reconcile_enabled K cfg start req svc) t = (r, s')"
    and enabled: "zen_lead_enabled svc"
    and before: "grows_by s t is_read {CallGetService req (Inr svc)}"
  shows "\<exists>new. calls s' = calls s @ new \<and> run_writes K req new"
proof -
  obtain u where upd: "run_state (updateOptedInServicesCacheForService K svc) t = ((), u)"
    by (metis prod.exhaust unit.exhaust)
  have u: "grows_by s u is_read {CallGetService req (Inr svc)}"
    using grows_by_trans[OF before grows_by_io[OF logs_updateForService upd]] by simp
  have quiet: "\<exists>new. calls s' = calls s @ new \<and> run_writes K req new"
    if "state_io_rel (appends calls is_read) m" and "run_state m u = (r, s')"
    for m :: "('a sys, reconcile_error + unit) state"
    by (rule run_writes_reads, rule grows_by_subset[OF grows_by_trans[OF u grows_by_io[OF that]]]) simp
  note unfold = reconcile_enabled_def
  consider "IsDNS1123Label K (fst req) \<noteq> []"
    | "IsDNS1123Label K (fst req) = []" "IsDNS1123Subdomain K (snd req) \<noteq> []"
    | "IsDNS1123Label K (fst req) = []" "IsDNS1123Subdomain K (snd req) = []" "Selector svc = []"
    | "IsDNS1123Label K (fst req) = []" "IsDNS1123Subdomain K (snd req) = []" "Selector svc \<noteq> []"
    by blast
  then show ?thesis
  proof cases
    case 1
    show ?thesis
      by (rule quiet[of "do { finish_error K start req ''invalid_namespace'';
            ret (Inl (InvalidNamespace (IsDNS1123Label K (fst req)))) }"])
        (intro logs_intros logs_records, use run upd 1 in \<open>simp add: unfold\<close>)
  next
    case 2
    show ?thesis
      by (rule quiet[of "do { finish_error K start req ''invalid_service_name'';
            ret (Inl (InvalidServiceName (IsDNS1123Subdomain K (snd req)))) }"])
        (intro logs_intros logs_records, use run upd 2 in \<open>simp add: unfold\<close>)
  next
    case 3
    show ?thesis
      by (rule quiet[of "do { emit_event svc EventTypeWarning ''InvalidService'';
            finish_success K start (object_key svc); ret (Inr ()) }"])
        (intro logs_intros logs_records, use run upd 3 in \<open>simp add: unfold\<close>)
  next
    case 4
    let ?list = "call_api K (DefaultRetry K) (ListPods K (Namespace svc) (Selector svc))
      (CallListPods (Namespace svc) (Selector svc)) (Namespace svc) (Name svc) ''list_pods''"
    obtain q v where listed: "run_state ?list u = (q, v)" by (metis prod.exhaust)
    show ?thesis
    proof (cases q)
      case (Inl e)
      then show ?thesis
        by (intro quiet[of "do { listed \<leftarrow> ?list; finish_error K start (object_key svc) ''list_pods_failed'';
              ret (Inl (ListPodsFailed (object_key svc) (Selector svc) e)) }"] logs_intros logs_records)
          (use run upd 4 listed in \<open>simp_all add: unfold\<close>)
    next
      case (Inr pods)
      have "run_state (reconcile_listed K cfg start svc pods) v = (r, s')"
        using run upd 4 listed Inr by (simp add: unfold reconcile_listed_def)
      then obtain leader where cand: "candidate pods leader"
        and after: "grows_by v s' (leader_write K svc leader) {}"
        using reconcile_listed_writes by blast
      have "grows_by u v is_read {CallListPods (Namespace svc) (Selector svc) (Inr pods)}"
        using grows_by_call(2)[OF listed _ Inr] by simp
      from grows_by_mono[OF grows_by_trans[OF u this]]
      have "grows_by s v (leader_write K svc leader)
          {CallGetService req (Inr svc), CallListPods (Namespace svc) (Selector svc) (Inr pods)}"
        by (auto simp: leader_write_read insert_commute)
      from grows_by_trans[OF this after] obtain new where "calls s' = calls s @ new"
        and "list_all (leader_write K svc leader) new"
        and "CallGetService req (Inr svc) \<in> set new"
        and "CallListPods (Namespace svc) (Selector svc) (Inr pods) \<in> set new"
        by (auto simp: grows_by_def)
      then show ?thesis using cand enabled 4
        by (auto simp: run_writes_def published_in_def)
    qed
  qed
qed

lemma Reconcile_writes:
  assumes run: "run_state (Reconcile K cfg req) s = (r, s')"
  shows "\<exists>new. calls s' = calls s @ new \<and> run_writes K req new"
proof -
  obtain start s1 where clock: "run_state (now K) s = (start, s1)" by (metis prod.exhaust)
  have s1: "grows_by s s1 is_read {}"
    using clock by (auto simp: run_now intro: grows_by_same)
  let ?get = "call_api K (DefaultRetry K) (GetService K req) (CallGetService req) (fst req) (snd req)
    ''get_service''"
  obtain q t where get: "run_state ?get s1 = (q, t)" by (metis prod.exhaust)
  have t: "grows_by s t is_read {}"
    using grows_by_trans[OF s1 grows_by_call(1)[OF get]] by simp
  show ?thesis
  proof (cases q)
    case (Inl err)
    then have "run_state (reconcile_unread K cfg start req err) t = (r, s')"
      using run clock get by (simp add: Reconcile_def)
    then show ?thesis using t by (rule reconcile_unread_writes)
  next
    case (Inr svc)
    show ?thesis
    proof (cases "zen_lead_enabled svc")
      case False
      then have "run_state (reconcile_disabled K start req svc) t = (r, s')"
        using run clock get Inr by (simp add: Reconcile_def)
      then show ?thesis using t by (rule reconcile_disabled_writes)
    next
      case True
      then have "run_state (reconcile_enabled K cfg start req svc) t = (r, s')"
        using run clock get Inr by (simp add: Reconcile_def)
      moreover have "grows_by s t is_read {CallGetService req (Inr svc)}"
        using grows_by_trans[OF s1 grows_by_call(2)[OF get _ Inr]] by simp
      ultimately show ?thesis using True by (intro reconcile_enabled_writes)
    qed
  qed
qed

subsection \<open>What is published\<close>

text \<open>
  A slice routes safely when its one endpoint either has no address and no target, or is the
  endpoint of a ready pod from a pod list that the run has read.
\<close>

definition routes_safely :: "api_call list \<Rightarrow> endpoint_slice \<Rightarrow> bool" where
  "routes_safely new slice \<longleftrightarrow>
     (\<exists>e. Endpoints slice = [e] \<and>
       (case TargetRef e of
          None \<Rightarrow> Addresses e = []
        | Some ref \<Rightarrow>
            \<exists>ns selector pods p. CallListPods ns selector (Inr pods) \<in> set new \<and> p \<in> set pods \<and>
              isPodReady p \<and> PodIP p \<noteq> '''' \<and> Addresses e = [PodIP p] \<and> Ready e = Some True \<and>
              ref = \<lparr>RefKind = ''Pod'', RefNamespace = Namespace p, RefName = Name p, RefUID = UID p\<rparr>))"

fun slices_safe :: "api_call list \<Rightarrow> api_call \<Rightarrow> bool" where
  "slices_safe new (CallCreateSlice slice r) = routes_safely new slice"
| "slices_safe new (CallPatchSlice slice original r) = routes_safely new slice"
| "slices_safe new c = True"

text \<open>A leader Service has no selector and only numeric target ports.\<close>

definition numeric_ports :: "service \<Rightarrow> bool" where
  "numeric_ports svc \<longleftrightarrow> list_all (\<lambda>p. case TargetPort p of IntPort n \<Rightarrow> True | NamedPort n \<Rightarrow> False) (Ports svc)"

definition read_service :: "api_call list \<Rightarrow> service \<Rightarrow> bool" where
  "read_service new svc \<longleftrightarrow> (\<exists>req. CallGetService req (Inr svc) \<in> set new)"

fun services_safe :: "'w kube \<Rightarrow> api_call list \<Rightarrow> api_call \<Rightarrow> bool" where
  "services_safe K new (CallCreateService leaderService r) =
     (Selector leaderService = [] \<and> numeric_ports leaderService \<and>
      (\<exists>svc. read_service new svc \<and> zen_lead_enabled svc \<and>
         object_key leaderService = leader_key K svc))"
| "services_safe K new (CallPatchService leaderService original r) =
     (Selector leaderService = [] \<and> numeric_ports leaderService \<and>
      object_key leaderService = object_key original \<and> UID leaderService = UID original)"
| "services_safe K new c = True"

lemma routes_safely_leader:
  assumes "Endpoints slice = [leader_endpoint leader]" and "candidate pods leader"
    and "CallListPods ns selector (Inr pods) \<in> set new"
  shows "routes_safely new slice"
proof (cases leader)
  case None
  then show ?thesis using assms(1) by (simp add: routes_safely_def leader_endpoint_def)
next
  case (Some p)
  then have p: "p \<in> set pods" "isPodReady p" using assms(2) by (auto simp: candidate_def)
  show ?thesis
  proof (cases "PodIP p = ''''")
    case True
    then show ?thesis using assms(1) Some by (simp add: routes_safely_def leader_endpoint_def)
  next
    case False
    then show ?thesis
      using assms(1,3) Some p
      by (auto simp: routes_safely_def leader_endpoint_def ready_condition_pod)
  qed
qed

lemma leader_write_slices_safe:
  assumes "leader_write K svc leader c" and "candidate pods leader"
    and "CallListPods ns selector (Inr pods) \<in> set new"
  shows "slices_safe new c"
proof -
  have "candidate pods (snd (resolved_leader svc leader))"
    using assms(2) by (auto simp: candidate_def dest: resolved_leader_selected)
  from routes_safely_leader[OF _ this assms(3)] assms(1) show ?thesis
    by (cases c) (auto simp: new_slice_def updated_slice_def)
qed

lemma numeric_ports_resolved: "Ports sv = fst (resolved_leader svc leader) \<Longrightarrow> numeric_ports sv"
  by (auto simp: numeric_ports_def list_all_iff dest!: resolved_leader_numeric)

lemma leader_write_services_safe:
  assumes "leader_write K svc leader c" and "read_service new svc"
    and "zen_lead_enabled svc"
  shows "services_safe K new c"
  using assms
  by (cases c) (auto simp: new_leader_service_def object_key_def intro!: numeric_ports_resolved
      exI[of _ svc])

lemma delete_of_safe: "delete_of targets c \<Longrightarrow> slices_safe new c \<and> services_safe K new c"
  by (cases c) auto

lemma run_writes_safe:
  assumes "run_writes K req new"
  shows "list_all (slices_safe new) new \<and> list_all (services_safe K new) new"
  using assms unfolding run_writes_def
proof (elim disjE exE)
  assume "list_all (delete_of (cleanup_targets K req new)) new"
  then show ?thesis by (auto simp: list_all_iff dest: delete_of_safe)
next
  fix svc leader
  assume pub: "published_in K req new svc leader"
  then have "read_service new svc" unfolding published_in_def read_service_def by blast
  with pub show ?thesis
    by (auto simp: published_in_def list_all_iff
        intro: leader_write_slices_safe leader_write_services_safe)
qed

subsection \<open>Every write is safe\<close>

lemma Reconcile_safe:
  assumes "run_state (Reconcile K cfg req) s = (r, s')"
  shows "\<exists>new. calls s' = calls s @ new \<and> list_all (slices_safe new) new"
    and "\<exists>new. calls s' = calls s @ new \<and> list_all (services_safe K new) new"
  using Reconcile_writes[OF assms] run_writes_safe by blast+

end
