(* ===== verification/Handlers.thy ===== *)
theory Handlers
  imports Director
begin

text \<open>
  What the handlers keep, whatever the API server answers. The locale \<open>handler_evolution\<close> lists the
  elementary changes a handler makes to the state of the reconciler: API calls, events, metrics and
  the operations of the two caches. A relation that allows each of them holds between the states
  before and after every handler. A pod or a Service may only be put in a cache after it was read,
  so the log of calls says where each entry of a cache comes from.
\<close>

subsection \<open>Objects that were read\<close>

definition read_pod :: "api_call list \<Rightarrow> pod \<Rightarrow> bool" where
  "read_pod log p \<longleftrightarrow>
     (\<exists>k. CallGetPod k (Inr p) \<in> set log) \<or>
     (\<exists>ns selector pods. CallListPods ns selector (Inr pods) \<in> set log \<and> p \<in> set pods)"

lemma read_pod_append: "read_pod log p \<Longrightarrow> read_pod (log @ new) p"
  unfolding read_pod_def set_append by blast

lemma read_service_append: "read_service log svc \<Longrightarrow> read_service (log @ new) svc"
  by (auto simp: read_service_def)

text \<open>A condition on the log that later calls cannot break, and evolutions that may assume it.\<close>

definition persistent :: "(api_call list \<Rightarrow> bool) \<Rightarrow> bool" where
  "persistent P \<longleftrightarrow> (\<forall>log new. P log \<longrightarrow> P (log @ new))"

definition given :: "(api_call list \<Rightarrow> bool) \<Rightarrow> ('w sys \<Rightarrow> 'w sys \<Rightarrow> bool) \<Rightarrow> 'w sys \<Rightarrow> 'w sys \<Rightarrow> bool" where
  "given P rel s t \<longleftrightarrow> (P (calls s) \<longrightarrow> rel s t)"

lemma persistent_intros:
  "persistent (\<lambda>log. True)"
  "persistent (\<lambda>log. c \<in> set log)"
  "persistent (\<lambda>log. read_service log svc)"
  "persistent (\<lambda>log. \<forall>p \<in> A. read_pod log p)"
  "persistent P \<Longrightarrow> persistent Q \<Longrightarrow> persistent (\<lambda>log. P log \<and> Q log)"
  by (auto simp: persistent_def intro: read_pod_append read_service_append)

lemma given_io: "state_io_rel rel m \<Longrightarrow> state_io_rel (given P rel) m"
  by (auto simp: state_io_rel_def given_def)

lemma given_weaken:
  "state_io_rel (given P rel) m \<Longrightarrow> (\<And>log. Q log \<Longrightarrow> P log) \<Longrightarrow> state_io_rel (given Q rel) m"
  by (auto simp: state_io_rel_def given_def)

lemma given_True: "state_io_rel (given (\<lambda>log. True) rel) m \<Longrightarrow> state_io_rel rel m"
  by (auto simp: state_io_rel_def given_def)

subsection \<open>The changes a handler makes\<close>

locale handler_evolution = system_evolution rel K
  for rel :: "'w sys \<Rightarrow> 'w sys \<Rightarrow> bool" and K :: "'w kube" +
  assumes rel_extends: "rel s t \<Longrightarrow> \<exists>new. calls t = calls s @ new"
    and rel_call: "rel s (s\<lparr>world := w, calls := calls s @ [c]\<rparr>)"
    and rel_event: "rel s (s\<lparr>events := events s @ [e]\<rparr>)"
    and rel_put: "read_pod (calls s) p \<Longrightarrow>
      rel s (s\<lparr>leaderPodCache := map_option (put_leader k p expiry) (leaderPodCache s)\<rparr>)"
    and rel_clear: "rel s (s\<lparr>leaderPodCache := map_option (AList.delete k) (leaderPodCache s)\<rparr>)"
    and rel_prune: "rel s (s\<lparr>leaderPodCache := map_option (prune_leaders tick) (leaderPodCache s)\<rparr>)"
    and rel_observe: "read_service (calls s) svc \<Longrightarrow>
      run_state (updateOptedInServicesCacheForService K svc) s = (u, s') \<Longrightarrow> rel s s'"
    and rel_refresh: "run_state (updateOptedInServicesCacheLocked K cfg ns) s = (u, s') \<Longrightarrow> rel s s'"
    and rel_touch: "rel s (s\<lparr>optedInServicesCache := AList.update ns
      (map (\<lambda>c. c\<lparr>cs_lastAccess := access\<rparr>) (opted_of (optedInServicesCache s) ns)) (optedInServicesCache s)\<rparr>)"
begin

lemma given_evolution: "persistent P \<Longrightarrow> evolution (given P rel)"
  by unfold_locales (auto simp: given_def persistent_def rel_refl dest: rel_extends intro: rel_trans)

lemmas given_intros = evolution.keeps_intros[OF given_evolution]

lemma keeps_call: "state_io_rel rel (call_api K cfg f c ns service operation)"
  by (rule keeps_call_api[OF rel_call])

lemma keeps_event: "state_io_rel rel (emit_event ob ty reason)"
  by (auto simp: state_io_rel_def rel_event)

lemma keeps_clear: "state_io_rel rel (clearLeaderPodCache k)"
  by (auto simp: clearLeaderPodCache_def state_io_rel_def rel_clear)

lemma keeps_tick: "state_io_rel rel (cleanup_tick K)"
  unfolding cleanup_tick_def
  by (rule keeps_bind[OF keeps_now]) (auto simp: state_io_rel_def rel_prune)

lemma keeps_refresh: "state_io_rel rel (updateOptedInServicesCache K cfg ns)"
  unfolding updateOptedInServicesCache_def by (rule state_io_relI) (rule rel_refresh)

lemmas handler_intros = keeps_intros keeps_effects keeps_call keeps_event keeps_clear keeps_refresh
  records_well_labelled well_labelled_Nil well_labelled_append

text \<open>After a successful call the answer is in the log.\<close>

lemma given_bind_call:
  assumes P: "persistent P"
    and "\<And>e. state_io_rel (given P rel) (f (Inl e))"
    and "\<And>a. state_io_rel (given (\<lambda>log. P log \<and> c (Inr a) \<in> set log) rel) (f (Inr a))"
  shows "state_io_rel (given P rel)
    (Monad_Syntax.bind (call_api K cfg g c ns service operation) f)"
proof (rule state_io_relI)
  fix s r u
  assume run: "run_state (Monad_Syntax.bind (call_api K cfg g c ns service operation) f) s = (r, u)"
  obtain q t where call: "run_state (call_api K cfg g c ns service operation) s = (q, t)"
    by (metis prod.exhaust)
  then have f: "run_state (f q) t = (r, u)" using run by simp
  have st: "rel s t" by (rule state_io_relD[OF keeps_call call])
  obtain new where new: "calls t = calls s @ new" and logged: "\<And>a. q = Inr a \<Longrightarrow> c q \<in> set new"
    by (rule call_api_calls[OF call]) blast
  have "given P rel t u" if "P (calls t)"
  proof (cases q)
    case (Inl e)
    then show ?thesis using state_io_relD[OF assms(2)] f by blast
  next
    case (Inr a)
    then have "c (Inr a) \<in> set (calls t)" using logged new by auto
    then show ?thesis using state_io_relD[OF assms(3)] f Inr that unfolding given_def by blast
  qed
  then show "given P rel s u"
    using P st new unfolding given_def persistent_def by (metis rel_trans)
qed

lemma bind_call:
  assumes "\<And>e. state_io_rel rel (f (Inl e))"
    and "\<And>a. state_io_rel (given (\<lambda>log. c (Inr a) \<in> set log) rel) (f (Inr a))"
  shows "state_io_rel rel (Monad_Syntax.bind (call_api K cfg g c ns service operation) f)"
  by (rule given_True, rule given_bind_call) (auto intro: persistent_intros given_io assms)

text \<open>The leader pod cache.\<close>

lemma keeps_put: "state_io_rel (given (\<lambda>log. read_pod log p) rel) (updateLeaderPodCache K k p ttl)"
proof (rule state_io_relI)
  fix s r u
  assume run: "run_state (updateLeaderPodCache K k p ttl) s = (r, u)"
  let ?s = "s\<lparr>world := snd (Now K (world s))\<rparr>"
  have "rel s ?s" by (rule rel_background[OF background.clock])
  moreover have "rel ?s (?s\<lparr>leaderPodCache := map_option (put_leader k p e) (leaderPodCache ?s)\<rparr>)"
    if "read_pod (calls s) p" for e
    using that by (intro rel_put) simp
  ultimately show "given (\<lambda>log. read_pod log p) rel s u"
    using run rel_refl[of s]
    by (auto simp: given_def updateLeaderPodCache_def run_now split: if_splits intro: rel_trans)
qed

lemma keeps_slice_leader: "state_io_rel rel (slice_leader K cfg svc es)"
proof (induction es)
  case (Cons e es)
  have read: "state_io_rel (given (\<lambda>log. CallGetPod k (Inr p) \<in> set log) rel)
      (updateLeaderPodCache K key p ttl)" for k p key ttl
    by (rule given_weaken[OF keeps_put]) (unfold read_pod_def, blast)
  show ?case
  proof (cases "pod_ref e")
    case None
    then show ?thesis using Cons.IH by simp
  next
    case (Some ref)
    then show ?thesis unfolding slice_leader.simps option.case Let_def
      by (simp, intro bind_call)
        (auto intro!: given_intros persistent_intros read given_io[OF Cons.IH] Cons.IH)
  qed
qed (simp add: keeps_return)

lemma keeps_current: "state_io_rel rel (check_current_leader K cfg svc)"
  unfolding check_current_leader_def getCurrentLeaderPod_def cached_leader_def
  by (intro handler_intros keeps_slice_leader)

lemma keeps_select: "state_io_rel rel (selectLeaderPod K svc pods b)"
  unfolding selectLeaderPod_def select_fresh_def by (intro handler_intros)

subsection \<open>Publishing\<close>

lemma keeps_resolve: "state_io_rel rel (resolve_or_fail K svc leader)"
proof -
  have "state_io_rel rel (resolveServicePorts svc leader)"
    by (rule keeps_resolveServicePorts[OF rel_event])
  then show ?thesis unfolding resolve_or_fail_def fail_closed_def by (intro handler_intros)
qed

lemma keeps_totals: "state_io_rel rel (updateResourceTotals K ns)"
  unfolding updateResourceTotals_def by (intro handler_intros)

lemma keeps_write_service: "state_io_rel rel (write_leader_service K svc leader ports)"
  unfolding write_leader_service_def create_leader_service_def patch_leader_service_def
    leader_annotations_def
  by (intro handler_intros keeps_totals)

lemma keeps_slice: "state_io_rel rel (reconcileEndpointSlice K cfg svc n leader ports)"
  unfolding reconcileEndpointSlice_def create_slice_def patch_slice_def
  by (intro handler_intros keeps_totals)

lemma keeps_leader_service: "state_io_rel rel (reconcileLeaderService K cfg svc leader)"
  unfolding reconcileLeaderService_def record_stability_def
  by (intro handler_intros keeps_resolve keeps_write_service keeps_slice)

lemma keeps_finish:
  "state_io_rel rel (finish_error K start req e)"
  "state_io_rel rel (finish_success K start req)"
  unfolding finish_error_def finish_success_def finish_run_def
  by (intro handler_intros; simp)+

lemma keeps_publish:
  "state_io_rel rel (publish_leader K cfg start svc leader)"
  "state_io_rel rel (reconcile_no_pods K cfg start svc)"
  unfolding publish_leader_def record_leader_def reconcile_no_pods_def
  by (intro handler_intros keeps_leader_service keeps_finish)+

lemma keeps_delete: "state_io_rel rel (delete_listed K svcName items)"
  by (induction items) (auto intro!: handler_intros)

lemma keeps_cleanup: "state_io_rel rel (cleanupLeaderResources K req)"
  unfolding cleanupLeaderResources_def by (intro handler_intros keeps_delete)

subsection \<open>Reconcile\<close>

lemma keeps_leader_change:
  assumes "\<And>p. leader = Some p \<Longrightarrow> p \<in> set pods"
  shows "state_io_rel (given (\<lambda>log. \<forall>p \<in> set pods. read_pod log p) rel)
    (record_leader_change K svc current leader failover)"
proof -
  have put: "state_io_rel (given (\<lambda>log. \<forall>p \<in> set pods. read_pod log p) rel)
      (updateLeaderPodCache K k p ttl)" if "leader = Some p" for k p ttl
    by (rule given_weaken[OF keeps_put]) (simp add: assms[OF that])
  show ?thesis
    unfolding record_leader_change_def
    by (intro given_intros persistent_intros put given_io handler_intros) simp_all
qed

lemma keeps_pods:
  "state_io_rel (given (\<lambda>log. \<forall>p \<in> set pods. read_pod log p) rel)
     (reconcile_pods K cfg start svc pods)"
proof -
  let ?given = "given (\<lambda>log. \<forall>p \<in> set pods. read_pod log p) rel"
  have "state_io_rel ?given (do { leader \<leftarrow> selectLeaderPod K svc pods (failover \<noteq> None);
      onlyif (leader_changed current leader) (record_leader_change K svc current leader failover);
      publish_leader K cfg start svc leader })" for current failover
    by (rule evolution.keeps_bind_result[OF given_evolution[OF persistent_intros(4)]
          given_io[OF keeps_select]])
      (auto dest: selectLeaderPod_ready
        intro!: given_intros persistent_intros keeps_leader_change given_io[OF keeps_publish(1)])
  note published = this
  show ?thesis unfolding reconcile_pods_def
    by (intro published given_intros persistent_intros given_io[OF keeps_current]
        given_io[OF keeps_metric] records_well_labelled)
qed

lemma given_observe:
  "state_io_rel (given (\<lambda>log. read_service log svc) rel) (updateOptedInServicesCacheForService K svc)"
  by (rule state_io_relI) (auto simp: given_def intro: rel_observe)

lemma keeps_enabled:
  "state_io_rel (given (\<lambda>log. read_service log svc) rel) (reconcile_enabled K cfg start req svc)"
proof -
  let ?P = "\<lambda>log. read_service log svc"
  have pods: "state_io_rel (given (\<lambda>log. ?P log \<and> CallListPods ns sel (Inr pods) \<in> set log) rel)
      (reconcile_pods K cfg start svc pods)" for ns sel pods
    by (rule given_weaken[OF keeps_pods]) (unfold read_pod_def, blast)
  have listed: "state_io_rel (given ?P rel) (do {
      listed \<leftarrow> call_api K (DefaultRetry K) (ListPods K (Namespace svc) (Selector svc))
        (CallListPods (Namespace svc) (Selector svc)) (Namespace svc) (Name svc) ''list_pods'';
      case listed of
        Inl err \<Rightarrow> do { finish_error K start (object_key svc) ''list_pods_failed'';
          ret (Inl (ListPodsFailed (object_key svc) (Selector svc) err)) }
      | Inr pods \<Rightarrow> do {
          metric (RecordPodsAvailable (Namespace svc) (Name svc) (length (filter isPodReady pods)));
          if pods = [] then reconcile_no_pods K cfg start svc
          else reconcile_pods K cfg start svc pods } })"
    by (rule given_bind_call[OF persistent_intros(3)])
      (auto intro!: given_intros persistent_intros pods given_io[OF keeps_publish(2)]
        given_io[OF keeps_finish(1)] given_io[OF keeps_metric])
  show ?thesis unfolding reconcile_enabled_def
    by (intro given_intros persistent_intros given_observe listed given_io[OF keeps_finish(1)]
        given_io[OF keeps_finish(2)] given_io[OF keeps_event])
qed

theorem keeps_Reconcile: "state_io_rel rel (Reconcile K cfg req)"
proof -
  have read: "state_io_rel (given (\<lambda>log. CallGetService req (Inr svc) \<in> set log) rel) m"
    if "state_io_rel (given (\<lambda>log. read_service log svc) rel) m"
    for svc and m :: "('w sys, reconcile_error + unit) state"
    using that by (rule given_weaken) (unfold read_service_def, blast)
  have disabled: "state_io_rel (given (\<lambda>log. read_service log svc) rel)
      (reconcile_disabled K start req svc)" for start svc
    unfolding reconcile_disabled_def
    by (intro given_intros persistent_intros given_observe given_io[OF keeps_cleanup]
        given_io[OF keeps_finish(2)])
  have unread: "state_io_rel rel (reconcile_unread K cfg start req err)" for start err
    unfolding reconcile_unread_def by (intro handler_intros keeps_cleanup keeps_finish)
  have "state_io_rel rel (Monad_Syntax.bind (call_api K (DefaultRetry K) (GetService K req)
      (CallGetService req) (fst req) (snd req) ''get_service'')
      (\<lambda>r. case r of Inl err \<Rightarrow> reconcile_unread K cfg start req err
        | Inr svc \<Rightarrow> if \<not> zen_lead_enabled svc then reconcile_disabled K start req svc
            else reconcile_enabled K cfg start req svc))" for start
    by (rule bind_call) (auto intro!: read disabled keeps_enabled unread)
  then show ?thesis unfolding Reconcile_def by (rule keeps_bind[OF keeps_now])
qed

subsection \<open>The watch handler of pods\<close>

theorem keeps_mapPodToService: "state_io_rel rel (mapPodToService K cfg p)"
proof -
  have touch: "state_io_rel rel (do { again \<leftarrow> gets (\<lambda>s. opted_of (optedInServicesCache s) ns);
      set_opted ns (map (\<lambda>c. c\<lparr>cs_lastAccess := t\<rparr>) again); metric (RecordCacheHit ns) })" for ns t
  proof (rule state_io_relI)
    fix s u :: "'w sys" and r
    let ?touch = "\<lambda>s :: 'w sys. s\<lparr>optedInServicesCache := AList.update ns (map (\<lambda>c. c\<lparr>cs_lastAccess := t\<rparr>)
      (opted_of (optedInServicesCache s) ns)) (optedInServicesCache s)\<rparr>"
    assume "run_state (do { again \<leftarrow> gets (\<lambda>s. opted_of (optedInServicesCache s) ns);
      set_opted ns (map (\<lambda>c. c\<lparr>cs_lastAccess := t\<rparr>) again); metric (RecordCacheHit ns) }) s = (r, u)"
    then have "run_state (metric (RecordCacheHit ns)) (?touch s) = (r, u)" by simp
    then have "rel (?touch s) u"
      by (rule state_io_relD[OF keeps_metric[OF records_well_labelled(22)]])
    with rel_touch[of s ns t] show "rel s u" by (rule rel_trans)
  qed
  have locked: "state_io_rel rel (updateOptedInServicesCacheLocked K cfg ns)" for ns
    by (rule state_io_relI) (rule rel_refresh)
  show ?thesis unfolding mapPodToService_def
    by (intro touch handler_intros locked)
qed

end

subsection \<open>Metrics and events\<close>

text \<open>The log of calls only grows, and every call of the recorder is well labelled.\<close>

definition recorded_calls :: "'w sys \<Rightarrow> 'w sys \<Rightarrow> bool" where
  "recorded_calls s t \<longleftrightarrow> (\<exists>new. calls t = calls s @ new) \<and> records_ok s t"

lemma records_ok_same: "Metrics t = Metrics s \<Longrightarrow> records_ok s t"
  by (auto simp: records_ok_def split: option.splits)

lemma recorded_refl: "recorded_calls s s"
  by (simp add: recorded_calls_def records_ok_same)

lemma recorded_trans: "recorded_calls s t \<Longrightarrow> recorded_calls t u \<Longrightarrow> recorded_calls s u"
  by (auto simp: recorded_calls_def intro: recorded.rel_trans)

lemma recorded_same: "calls t = calls s \<Longrightarrow> Metrics t = Metrics s \<Longrightarrow> recorded_calls s t"
  by (simp add: recorded_calls_def records_ok_same)

lemma recorded_refresh:
  assumes "run_state (updateOptedInServicesCacheLocked K cfg ns) s = (u, s')"
  shows "records_ok s s'"
proof -
  have call: "state_io_rel records_ok (call_api K cf f c ns' service operation)" for cf f c ns' service operation
    by (rule recorded.keeps_call_api) (simp add: records_ok_same)
  have set: "state_io_rel records_ok (set_opted ns cached)" for ns cached
    by (auto simp: state_io_rel_def records_ok_same)
  have collect: "state_io_rel records_ok (collect_opted K items)" for items
    by (induction items) (auto intro!: recorded.keeps_intros recorded.keeps_effects)
  have "state_io_rel records_ok (updateOptedInServicesCacheLocked K cfg ns)"
    unfolding updateOptedInServicesCacheLocked_def
    by (intro recorded.keeps_intros recorded.keeps_effects call set collect records_well_labelled
        well_labelled_append)
  then show ?thesis using assms by (rule state_io_relD)
qed

interpretation metered: handler_evolution recorded_calls K for K
proof
  fix s t u :: "'a sys" and K :: "'a kube" and cfg ns v svc
  show "recorded_calls s s" by (rule recorded_refl)
  show "recorded_calls s u" if "recorded_calls s t" "recorded_calls t u" using that by (rule recorded_trans)
  show "recorded_calls s t" if "background K s t"
    using that by (simp add: recorded_calls_def background_fields recorded.rel_background)
  show "\<exists>new. calls t = calls s @ new" if "recorded_calls s t"
    using that by (simp add: recorded_calls_def)
  show "recorded_calls s t" if "run_state (updateOptedInServicesCacheForService K svc) s = (v, t)"
    by (rule run_updateForService[OF that]) (rule recorded_same)
  show "recorded_calls s t" if "run_state (updateOptedInServicesCacheLocked K cfg ns) s = (v, t)"
    using recorded_refresh[OF that] updateLocked_result[OF that] by (auto simp: recorded_calls_def)
qed (auto intro!: recorded_same simp: recorded_calls_def records_ok_same)

lemma recorded_Reconcile: "state_io_rel records_ok (Reconcile K cfg req)"
  using metered.keeps_Reconcile[of K cfg req] by (auto simp: state_io_rel_def recorded_calls_def)

subsection \<open>Where the entries of the caches come from\<close>

text \<open>
  An entry of the opted-in cache stands for a watched Service that was read under its namespace, or
  listed there; an entry of the leader pod cache is a pod that was read or listed.
\<close>

definition read_watched :: "api_call list \<Rightarrow> string \<Rightarrow> cached_service \<Rightarrow> bool" where
  "read_watched log ns c \<longleftrightarrow>
     (\<exists>svc. watched svc \<and> Name svc = cs_name c \<and> Selector svc = cs_selector c \<and>
        (Namespace svc = ns \<and> read_service log svc \<or>
         (\<exists>items. CallListServices ns [] (Inr items) \<in> set log \<and> svc \<in> set items)))"

definition opted_backed :: "api_call list \<Rightarrow> opted_cache \<Rightarrow> bool" where
  "opted_backed log c \<longleftrightarrow>
     opted_cache_ok c \<and> list_all (\<lambda>(ns, cached). list_all (read_watched log ns) cached) c"

definition leaders_backed :: "api_call list \<Rightarrow> leader_cache \<Rightarrow> bool" where
  "leaders_backed log c \<longleftrightarrow> leader_cache_ok c \<and> list_all (\<lambda>(k, e). read_pod log (clp_pod e)) c"

definition caches_backed :: "'w sys \<Rightarrow> bool" where
  "caches_backed s \<longleftrightarrow>
     opted_backed (calls s) (optedInServicesCache s) \<and>
     (case leaderPodCache s of None \<Rightarrow> True | Some c \<Rightarrow> leaders_backed (calls s) c)"

text \<open>Names are unique in the lists of Services the server gave; it is a law of the API.\<close>

definition lists_distinct :: "api_call list \<Rightarrow> bool" where
  "lists_distinct log \<longleftrightarrow>
     (\<forall>ns items. CallListServices ns [] (Inr items) \<in> set log \<longrightarrow> distinct (map Name items))"

definition keeps_backing :: "'w sys \<Rightarrow> 'w sys \<Rightarrow> bool" where
  "keeps_backing s t \<longleftrightarrow>
     (\<exists>new. calls t = calls s @ new) \<and>
     (lists_distinct (calls t) \<longrightarrow> caches_backed s \<longrightarrow> caches_backed t)"

lemma lists_distinct_append: "lists_distinct (log @ new) \<Longrightarrow> lists_distinct log"
  by (auto simp: lists_distinct_def)

lemma read_watched_append: "read_watched log ns c \<Longrightarrow> read_watched (log @ new) ns c"
  unfolding read_watched_def using read_service_append by fastforce

lemma keeps_backing_trans: "keeps_backing s t \<Longrightarrow> keeps_backing t u \<Longrightarrow> keeps_backing s u"
  unfolding keeps_backing_def by (metis append.assoc lists_distinct_append)

lemma opted_backed_append: "opted_backed log c \<Longrightarrow> opted_backed (log @ new) c"
  by (auto simp: opted_backed_def read_watched_append elim!: list.pred_mono_strong)

lemma leaders_backed_append: "leaders_backed log c \<Longrightarrow> leaders_backed (log @ new) c"
  by (auto simp: leaders_backed_def read_pod_append elim!: list.pred_mono_strong)

lemma caches_backed_same:
  "caches_backed s \<Longrightarrow> calls t = calls s @ new \<Longrightarrow> optedInServicesCache t = optedInServicesCache s \<Longrightarrow>
   leaderPodCache t = leaderPodCache s \<Longrightarrow> caches_backed t"
  by (auto simp: caches_backed_def opted_backed_append leaders_backed_append split: option.splits)

text \<open>Each change of a cache keeps its backing.\<close>

lemma leaders_backed_put: "leaders_backed log c \<Longrightarrow> read_pod log p \<Longrightarrow> leaders_backed log (put_leader k p e c)"
  by (simp add: leaders_backed_def leader_cache_ok_put) (simp add: put_leader_def list_all_update)

lemma leaders_backed_delete: "leaders_backed log c \<Longrightarrow> leaders_backed log (AList.delete k c)"
  by (auto simp: leaders_backed_def leader_cache_ok_delete) (auto simp: AList.delete_eq list_all_iff)

lemma leaders_backed_prune: "leaders_backed log c \<Longrightarrow> leaders_backed log (prune_leaders t c)"
  by (auto simp: leaders_backed_def leader_cache_ok_prune) (auto simp: prune_leaders_def list_all_iff)

lemma opted_backed_update:
  assumes "opted_backed log c" and "cached_ok cached" and "list_all (read_watched log ns) cached"
  shows "opted_backed log (AList.update ns cached c)"
  using assms by (simp add: opted_backed_def opted_cache_ok_def distinct_update list_all_update)

lemma opted_backed_of:
  assumes "opted_backed log c"
  shows "cached_ok (opted_of c ns)" and "list_all (read_watched log ns) (opted_of c ns)"
  using assms
  by (auto simp: opted_of_def opted_backed_def opted_cache_ok_def cached_ok_def list_all_iff
      split: option.splits dest!: map_of_SomeD)

lemma read_watched_put:
  "list_all (read_watched log ns) cached \<Longrightarrow> read_service log svc \<Longrightarrow> watched svc \<Longrightarrow> Namespace svc = ns \<Longrightarrow>
   list_all (read_watched log ns) (put_service (Name svc) (Selector svc) t cached)"
  by (induction cached) (auto simp: read_watched_def)

lemma read_watched_remove:
  "list_all (read_watched log ns) cached \<Longrightarrow> list_all (read_watched log ns) (remove_service n cached)"
  by (induction cached) auto

lemma opted_backed_observe:
  assumes "opted_backed (calls s) (optedInServicesCache s)" and "read_service (calls s) svc"
    and "run_state (updateOptedInServicesCacheForService K svc) s = (u, s')"
  shows "opted_backed (calls s') (optedInServicesCache s')"
proof -
  let ?c = "opted_of (optedInServicesCache s) (Namespace svc)"
  note of = opted_backed_of[OF assms(1), of "Namespace svc"]
  have "opted_backed (calls s) (AList.update (Namespace svc)
      (put_service (Name svc) (Selector svc) t ?c) (optedInServicesCache s))" if "watched svc" for t
    using that of assms(1,2)
    by (intro opted_backed_update cached_ok_put read_watched_put) (auto simp: watched_def)
  moreover have "opted_backed (calls s) (AList.update (Namespace svc)
      (remove_service (Name svc) ?c) (optedInServicesCache s))"
    using of assms(1) by (intro opted_backed_update cached_ok_remove read_watched_remove)
  ultimately show ?thesis
    using assms(1,3)
    by (auto simp: updateOptedInServicesCacheForService_def watched_def run_now split: if_splits)
qed

lemma read_watched_found:
  assumes "registry found = map_of (map (\<lambda>svc. (Name svc, Selector svc)) (filter watched items))"
    and "cached_ok found" and "CallListServices ns [] (Inr items) \<in> set log"
  shows "list_all (read_watched log ns) found"
  unfolding list_all_iff
proof
  fix e assume e: "e \<in> set found"
  then have "registry found (cs_name e) = Some (cs_selector e)"
    using assms(2) by (auto simp: registry_def cached_ok_def comp_def intro!: map_of_is_SomeI)
  then have "(cs_name e, cs_selector e) \<in>
      set (map (\<lambda>svc. (Name svc, Selector svc)) (filter watched items))"
    unfolding assms(1) by (rule map_of_SomeD)
  then show "read_watched log ns e" using assms(3) by (auto simp: read_watched_def)
qed

lemma opted_backed_refresh:
  assumes "opted_backed (calls s) (optedInServicesCache s)"
    and run: "run_state (updateOptedInServicesCacheLocked K cfg ns) s = (u, s')"
    and "lists_distinct (calls s')"
  shows "opted_backed (calls s') (optedInServicesCache s')"
proof -
  obtain new where new: "calls s' = calls s @ new"
    and "optedInServicesCache s' = optedInServicesCache s \<or>
      (\<exists>items. CallListServices ns [] (Inr items) \<in> set new \<and>
        refreshed K cfg ns (optedInServicesCache s) items (optedInServicesCache s'))"
    using updateLocked_result[OF run] by blast
  then show ?thesis
  proof (elim disjE exE conjE)
    assume "optedInServicesCache s' = optedInServicesCache s"
    then show ?thesis using assms(1) new opted_backed_append by simp
  next
    fix items
    assume list: "CallListServices ns [] (Inr items) \<in> set new"
      and "refreshed K cfg ns (optedInServicesCache s) items (optedInServicesCache s')"
    then obtain found where found: "registry found = map_of (map (\<lambda>svc. (Name svc, Selector svc))
        (filter watched items))" "distinct (map Name items) \<longrightarrow> cached_ok found"
      and s': "optedInServicesCache s' = AList.update ns
        (limit_cache K (maxCacheSizePerNamespace cfg) found) (optedInServicesCache s)"
      by (auto simp: refreshed_def)
    have "cached_ok found" using found(2) list assms(3) new by (auto simp: lists_distinct_def)
    moreover from this list new have "list_all (read_watched (calls s') ns) found"
      by (intro read_watched_found[OF found(1)]) auto
    ultimately show ?thesis
      using assms(1) new opted_backed_append s' limit_cache_subset
      by (auto intro!: opted_backed_update cached_ok_limit simp: list_all_iff) blast+
  qed
qed

lemma opted_backed_touch:
  assumes "opted_backed log c"
  shows "opted_backed log (AList.update ns (map (\<lambda>e. e\<lparr>cs_lastAccess := t\<rparr>) (opted_of c ns)) c)"
proof (rule opted_backed_update[OF assms])
  show "cached_ok (map (\<lambda>e. e\<lparr>cs_lastAccess := t\<rparr>) (opted_of c ns))"
    using opted_backed_of(1)[OF assms, of ns] by (auto simp: cached_ok_def list_all_iff comp_def)
  show "list_all (read_watched log ns) (map (\<lambda>e. e\<lparr>cs_lastAccess := t\<rparr>) (opted_of c ns))"
    using opted_backed_of(2)[OF assms, of ns] by (auto simp: list_all_iff read_watched_def)
qed

lemma backing_opted:
  assumes "calls t = calls s @ new" and "leaderPodCache t = leaderPodCache s"
    and "lists_distinct (calls t) \<Longrightarrow> opted_backed (calls s) (optedInServicesCache s) \<Longrightarrow>
      opted_backed (calls t) (optedInServicesCache t)"
  shows "keeps_backing s t"
  using assms leaders_backed_append
  by (simp add: keeps_backing_def caches_backed_def split: option.splits)

lemma backing_leaders:
  assumes "calls t = calls s" and "optedInServicesCache t = optedInServicesCache s"
    and "leaderPodCache t = map_option f (leaderPodCache s)"
    and "\<And>c. leaders_backed (calls s) c \<Longrightarrow> leaders_backed (calls s) (f c)"
  shows "keeps_backing s t"
  using assms by (simp add: keeps_backing_def caches_backed_def split: option.splits)

lemma backing_same:
  "calls t = calls s @ new \<Longrightarrow> optedInServicesCache t = optedInServicesCache s \<Longrightarrow>
   leaderPodCache t = leaderPodCache s \<Longrightarrow> keeps_backing s t"
  by (rule backing_opted) (simp_all add: opted_backed_append)

lemma backing_observe:
  assumes "read_service (calls s) svc"
    and "run_state (updateOptedInServicesCacheForService K svc) s = (u, t)"
  shows "keeps_backing s t"
proof (rule run_updateForService[OF assms(2)])
  assume frame: "calls t = calls s" "leaderPodCache t = leaderPodCache s"
  show ?thesis
    by (rule backing_opted[where new = "[]"]) (simp_all add: frame opted_backed_observe[OF _ assms, unfolded frame])
qed

lemma backing_refresh:
  assumes "run_state (updateOptedInServicesCacheLocked K cfg ns) s = (u, t)"
  shows "keeps_backing s t"
proof -
  obtain new where "calls t = calls s @ new" and "leaderPodCache t = leaderPodCache s"
    using updateLocked_result[OF assms] by blast
  then show ?thesis by (rule backing_opted) (rule opted_backed_refresh[OF _ assms])
qed

interpretation backed: handler_evolution keeps_backing K for K
proof
  fix s t u :: "'a sys" and K :: "'a kube" and p k x y cfg ns v svc
  show "keeps_backing s s" by (simp add: keeps_backing_def)
  show "keeps_backing s u" if "keeps_backing s t" "keeps_backing t u"
    using that by (rule keeps_backing_trans)
  show "keeps_backing s t" if "background K s t"
    by (rule backing_same[where new = "[]"]) (simp_all add: background_fields[OF that])
  show "\<exists>new. calls t = calls s @ new" if "keeps_backing s t"
    using that by (simp add: keeps_backing_def)
  show "keeps_backing s (s\<lparr>leaderPodCache := map_option (put_leader k p x) (leaderPodCache s)\<rparr>)"
    if "read_pod (calls s) p"
    by (rule backing_leaders[where f = "put_leader k p x"]) (simp_all add: leaders_backed_put that)
  show "keeps_backing s (s\<lparr>leaderPodCache := map_option (AList.delete k) (leaderPodCache s)\<rparr>)"
    by (rule backing_leaders[where f = "AList.delete k"]) (simp_all add: leaders_backed_delete)
  show "keeps_backing s (s\<lparr>leaderPodCache := map_option (prune_leaders x) (leaderPodCache s)\<rparr>)"
    by (rule backing_leaders[where f = "prune_leaders x"]) (simp_all add: leaders_backed_prune)
  show "keeps_backing s (s\<lparr>optedInServicesCache := AList.update ns (map (\<lambda>c. c\<lparr>cs_lastAccess := y\<rparr>)
      (opted_of (optedInServicesCache s) ns)) (optedInServicesCache s)\<rparr>)"
    by (rule backing_opted[where new = "[]"]) (simp_all add: opted_backed_touch)
qed (auto intro: backing_same backing_observe backing_refresh)

subsection \<open>The leader pod cache stays a map\<close>

text \<open>A cache that is there is not taken away, and one that is disabled stays so.\<close>

definition keeps_enabled_cache :: "'w sys \<Rightarrow> 'w sys \<Rightarrow> bool" where
  "keeps_enabled_cache s t \<longleftrightarrow>
     (\<exists>new. calls t = calls s @ new) \<and> (leaderPodCache t = None \<longleftrightarrow> leaderPodCache s = None)"



interpretation mapped: handler_evolution keeps_enabled_cache K for K
proof
  fix s t u :: "'a sys" and K :: "'a kube" and cfg ns v svc
  show "keeps_enabled_cache s u" if "keeps_enabled_cache s t" "keeps_enabled_cache t u"
    using that by (auto simp: keeps_enabled_cache_def)
  show "keeps_enabled_cache s t" if "background K s t"
    using that by (simp add: keeps_enabled_cache_def background_fields)
  show "keeps_enabled_cache s t" if "run_state (updateOptedInServicesCacheForService K svc) s = (v, t)"
    by (rule run_updateForService[OF that]) (simp add: keeps_enabled_cache_def)
  show "keeps_enabled_cache s t" if "run_state (updateOptedInServicesCacheLocked K cfg ns) s = (v, t)"
    using updateLocked_result[OF that] by (auto simp: keeps_enabled_cache_def)
qed (simp_all add: keeps_enabled_cache_def)

end
