(* ===== verification/Cluster.thy ===== *)
theory Cluster
  imports Kube GoNet
begin

text \<open>
  One concrete instance of the \<open>kube\<close> record: an API server in memory, with the clock, the
  validation functions and the retry decisions of the packages the program calls, as far as they
  are documented. The theorems do not depend on it; it shows that their hypotheses can hold and
  lets runs of the program be evaluated. A world holds the objects, a clock, a counter for new
  UIDs and the faults that the next calls meet. With \<open>cl_strict\<close> the server validates
  EndpointSlices and the presence of ports as the API does.
\<close>

record cluster =
  cl_services :: "service list"
  cl_pods :: "pod list"
  cl_slices :: "endpoint_slice list"
  cl_clock :: go_time
  cl_next :: nat
  cl_faults :: "api_err option list"
  cl_strict :: bool

subsection \<open>Validation of names\<close>

definition dns_char :: "char \<Rightarrow> bool" where
  "dns_char c \<longleftrightarrow> (CHR ''a'' \<le> c \<and> c \<le> CHR ''z'') \<or> (CHR ''0'' \<le> c \<and> c \<le> CHR ''9'')"

definition dns_label :: "string \<Rightarrow> bool" where
  "dns_label s \<longleftrightarrow>
     s \<noteq> [] \<and> list_all (\<lambda>c. dns_char c \<or> c = CHR ''-'') s \<and> dns_char (hd s) \<and> dns_char (last s)"

fun labels_of :: "string \<Rightarrow> string \<Rightarrow> string list" where
  "labels_of acc [] = [rev acc]"
| "labels_of acc (c # s) = (if c = CHR ''.'' then rev acc # labels_of [] s else labels_of (c # acc) s)"

definition dns1123_label :: "string \<Rightarrow> string list" where
  "dns1123_label s = (if dns_label s \<and> length s \<le> 63 then [] else [''invalid label''])"

definition dns1123_subdomain :: "string \<Rightarrow> string list" where
  "dns1123_subdomain s =
     (if list_all dns_label (labels_of [] s) \<and> length s \<le> 253 then [] else [''invalid subdomain''])"

subsection \<open>The server\<close>

definition matches :: "strmap \<Rightarrow> strmap \<Rightarrow> bool" where
  "matches selector ls \<longleftrightarrow> list_all (\<lambda>(k, v). map_of ls k = Some v) selector"

definition faulty ::
  "(cluster \<Rightarrow> (api_err + 'a) \<times> cluster) \<Rightarrow> cluster \<Rightarrow> (api_err + 'a) \<times> cluster" where
  "faulty f w =
     (case cl_faults w of
        [] \<Rightarrow> f w
      | None # rest \<Rightarrow> f (w\<lparr>cl_faults := rest\<rparr>)
      | Some e # rest \<Rightarrow> (Inl e, w\<lparr>cl_faults := rest\<rparr>))"

definition lookup_key :: "('a) object_meta_scheme list \<Rightarrow> nsname \<Rightarrow> api_err + ('a) object_meta_scheme" where
  "lookup_key obs k =
     (case List.find (\<lambda>ob. object_key ob = k) obs of Some ob \<Rightarrow> Inr ob | None \<Rightarrow> Inl NotFound)"

definition in_namespace ::
  "string \<Rightarrow> strmap \<Rightarrow> ('a) object_meta_scheme list \<Rightarrow> ('a) object_meta_scheme list" where
  "in_namespace ns selector obs =
     filter (\<lambda>ob. Namespace ob = ns \<and> matches selector (Labels ob)) obs"

definition admit :: "cluster \<Rightarrow> ('a) object_meta_scheme \<Rightarrow> ('a) object_meta_scheme" where
  "admit w ob = ob\<lparr>UID := ''uid-'' @ decimal (cl_next w), ResourceVersion := ''1'',
     CreationTimestamp := cl_clock w\<rparr>"

definition replace :: "('a) object_meta_scheme \<Rightarrow> ('a) object_meta_scheme list \<Rightarrow>
    ('a) object_meta_scheme list" where
  "replace ob obs = map (\<lambda>o'. if object_key o' = object_key ob then ob else o') obs"

definition remove :: "nsname \<Rightarrow> ('a) object_meta_scheme list \<Rightarrow> ('a) object_meta_scheme list" where
  "remove k obs = filter (\<lambda>ob. object_key ob \<noteq> k) obs"

text \<open>
  The validation of EndpointSlices: each endpoint has an address, and the addresses are of the
  declared type, which is immutable.
\<close>

definition address_ok :: "string \<Rightarrow> string \<Rightarrow> bool" where
  "address_ok ty a =
     (case ParseIP a of
        None \<Rightarrow> False
      | Some ip \<Rightarrow> if To4 ip = None then ty = AddressTypeIPv6 else ty = AddressTypeIPv4)"

definition acceptable :: "endpoint_slice \<Rightarrow> bool" where
  "acceptable slice \<longleftrightarrow>
     list_all (\<lambda>e. Addresses e \<noteq> [] \<and> list_all (address_ok (AddressType slice)) (Addresses e))
       (Endpoints slice)"

text \<open>A Service needs ports, unless it is headless or an alias.\<close>

definition portless :: "service \<Rightarrow> bool" where
  "portless svc \<longleftrightarrow> Ports svc = [] \<and> ClusterIP svc \<noteq> ClusterIPNone \<and> ServiceType svc \<noteq> ''ExternalName''"

definition create_service :: "service \<Rightarrow> cluster \<Rightarrow> (api_err + unit) \<times> cluster" where
  "create_service svc w =
     (if object_key svc \<in> set (map object_key (cl_services w)) then (Inl AlreadyExists, w)
      else if cl_strict w \<and> portless svc then (Inl (ApiFailure ''Invalid''), w)
      else (Inr (), w\<lparr>cl_services := cl_services w @ [admit w svc], cl_next := cl_next w + 1\<rparr>))"

definition patch_service :: "service \<Rightarrow> cluster \<Rightarrow> (api_err + unit) \<times> cluster" where
  "patch_service svc w =
     (if object_key svc \<notin> set (map object_key (cl_services w)) then (Inl NotFound, w)
      else if cl_strict w \<and> portless svc then (Inl (ApiFailure ''Invalid''), w)
      else (Inr (), w\<lparr>cl_services := replace svc (cl_services w)\<rparr>))"

definition delete_service :: "service \<Rightarrow> cluster \<Rightarrow> (api_err + unit) \<times> cluster" where
  "delete_service svc w =
     (if object_key svc \<in> set (map object_key (cl_services w))
      then (Inr (), w\<lparr>cl_services := remove (object_key svc) (cl_services w)\<rparr>)
      else (Inl NotFound, w))"

definition create_slice_obj :: "endpoint_slice \<Rightarrow> cluster \<Rightarrow> (api_err + unit) \<times> cluster" where
  "create_slice_obj slice w =
     (if object_key slice \<in> set (map object_key (cl_slices w)) then (Inl AlreadyExists, w)
      else if cl_strict w \<and> \<not> acceptable slice then (Inl (ApiFailure ''Invalid''), w)
      else (Inr (), w\<lparr>cl_slices := cl_slices w @ [admit w slice], cl_next := cl_next w + 1\<rparr>))"

definition patch_slice_obj ::
  "endpoint_slice \<Rightarrow> endpoint_slice \<Rightarrow> cluster \<Rightarrow> (api_err + unit) \<times> cluster" where
  "patch_slice_obj slice original w =
     (if object_key slice \<notin> set (map object_key (cl_slices w)) then (Inl NotFound, w)
      else if cl_strict w \<and> (\<not> acceptable slice \<or> AddressType slice \<noteq> AddressType original)
      then (Inl (ApiFailure ''Invalid''), w)
      else (Inr (), w\<lparr>cl_slices := replace slice (cl_slices w)\<rparr>))"

definition delete_slice_obj :: "endpoint_slice \<Rightarrow> cluster \<Rightarrow> (api_err + unit) \<times> cluster" where
  "delete_slice_obj slice w =
     (if object_key slice \<in> set (map object_key (cl_slices w))
      then (Inr (), w\<lparr>cl_slices := remove (object_key slice) (cl_slices w)\<rparr>)
      else (Inl NotFound, w))"

text \<open>A missing or existing object is not worth a retry; other errors are until the attempts end.\<close>

primrec mem_retries :: "retry_config \<Rightarrow> nat \<Rightarrow> cluster retrier" where
  "mem_retries cfg 0 = Attempt GiveUp"
| "mem_retries cfg (Suc n) = Attempt (\<lambda>e.
     if e = NotFound \<or> e = AlreadyExists then GiveUp e
     else Wait (\<lambda>w. w\<lparr>cl_clock := cl_clock w + InitialDelay cfg\<rparr>) (mem_retries cfg n))"

definition mem_kube :: "cluster kube" where
  "mem_kube =
     \<lparr>GetService = (\<lambda>k. faulty (\<lambda>w. (lookup_key (cl_services w) k, w))),
      GetPod = (\<lambda>k. faulty (\<lambda>w. (lookup_key (cl_pods w) k, w))),
      GetSlice = (\<lambda>k. faulty (\<lambda>w. (lookup_key (cl_slices w) k, w))),
      ListPods = (\<lambda>ns selector. faulty (\<lambda>w. (Inr (in_namespace ns selector (cl_pods w)), w))),
      ListServices = (\<lambda>ns selector. faulty (\<lambda>w. (Inr (in_namespace ns selector (cl_services w)), w))),
      ListSlices = (\<lambda>ns selector. faulty (\<lambda>w. (Inr (in_namespace ns selector (cl_slices w)), w))),
      CreateService = (\<lambda>svc. faulty (create_service svc)),
      PatchService = (\<lambda>svc original. faulty (patch_service svc)),
      DeleteService = (\<lambda>svc. faulty (delete_service svc)),
      CreateSlice = (\<lambda>slice. faulty (create_slice_obj slice)),
      PatchSlice = (\<lambda>slice original. faulty (patch_slice_obj slice original)),
      DeleteSlice = (\<lambda>slice. faulty (delete_slice_obj slice)),
      Now = (\<lambda>w. (cl_clock w, w\<lparr>cl_clock := cl_clock w + 1000000\<rparr>)),
      RetryDo = (\<lambda>cfg. mem_retries cfg (nat (MaxAttempts cfg) - 1)),
      DefaultRetry = \<lparr>MaxAttempts = 3, InitialDelay = 100000000, MaxDelay = 5000000000, Multiplier = 2\<rparr>,
      DeadlineExceeded = (\<lambda>w. False),
      SelectorMatches = matches,
      IsDNS1123Label = dns1123_label,
      IsDNS1123Subdomain = dns1123_subdomain,
      FormatRFC3339 = (\<lambda>t. decimal (nat (t div 1000000000))),
      FracUnits = (\<lambda>f unit scale. nat (f * unit div scale)),
      SortTies = (\<lambda>cached c. length (takeWhile (\<lambda>d. d \<noteq> c) cached))\<rparr>"

subsection \<open>Sample objects\<close>

definition sample_pod :: "string \<Rightarrow> string \<Rightarrow> go_time \<Rightarrow> string \<Rightarrow> string \<Rightarrow> pod" where
  "sample_pod n uid created ready ip =
     \<lparr>Name = n, Namespace = ''prod'', UID = uid, ResourceVersion = ''1'', Labels = [(''app'', ''db'')],
      Annotations = [], OwnerReferences = [], CreationTimestamp = created, DeletionTimestamp = None,
      NodeName = ''node-1'',
      Containers = [\<lparr>ContainerPorts = [\<lparr>ContainerPortName = ''sql'', ContainerPort = 5432\<rparr>]\<rparr>],
      Phase = ''Running'', PodIP = ip,
      Conditions = [\<lparr>ConditionType = ''Ready'', ConditionStatus = ready, LastTransitionTime = created\<rparr>]\<rparr>"

definition sample_service :: service where
  "sample_service =
     \<lparr>Name = ''db'', Namespace = ''prod'', UID = ''svc-1'', ResourceVersion = ''1'',
      Labels = [(''team'', ''data''), (''app.kubernetes.io/instance'', ''argo'')],
      Annotations = [(''zen-lead.io/enabled'', ''true'')], OwnerReferences = [],
      CreationTimestamp = 5, DeletionTimestamp = None,
      Selector = [(''app'', ''db'')],
      Ports = [\<lparr>PortName = ''sql'', PortProtocol = ''TCP'', Port = 5432, TargetPort = NamedPort ''sql'',
        NodePort = 0\<rparr>],
      ServiceType = ''ClusterIP'', ClusterIP = ''10.0.0.1''\<rparr>"

definition sample_cluster :: cluster where
  "sample_cluster =
     \<lparr>cl_services = [sample_service],
      cl_pods = [sample_pod ''db-1'' ''uid-b'' 2000 ''True'' ''10.0.0.12'',
                 sample_pod ''db-0'' ''uid-a'' 1000 ''True'' ''10.0.0.11''],
      cl_slices = [], cl_clock = 5000000000, cl_next = 1, cl_faults = [], cl_strict = True\<rparr>"

definition start_state :: "cluster \<Rightarrow> cluster sys" where
  "start_state w =
     \<lparr>world = w, calls = [], events = [], Metrics = Some [], optedInServicesCache = [],
      leaderPodCache = Some []\<rparr>"

end
