(* ===== verification/Store.thy ===== *)
theory Store
  imports Director Cluster
begin

text \<open>
  What the controller may expect of an API server that is up, with no faults and no other writers:
  reads return what is stored, writes are stored, and the passing of time changes nothing. The
  locale \<open>api_server\<close> states these laws over an abstract store; \<open>holds v w\<close> says that the world \<open>w\<close>
  is such a calm one with the contents \<open>v\<close>. The server fills in fields of its own (UIDs, versions,
  node ports), so a stored object equals the written one in the fields that are published. The
  server in memory of theory Cluster is an instance.
\<close>

subsection \<open>Contents and laws\<close>

record store =
  st_services :: "nsname \<Rightarrow> service option"
  st_pods :: "nsname \<Rightarrow> pod option"
  st_slices :: "nsname \<Rightarrow> endpoint_slice option"

abbreviation put_service_in :: "nsname \<Rightarrow> service option \<Rightarrow> store \<Rightarrow> store" where
  "put_service_in k x v \<equiv> v\<lparr>st_services := (st_services v)(k := x)\<rparr>"

abbreviation put_slice_in :: "nsname \<Rightarrow> endpoint_slice option \<Rightarrow> store \<Rightarrow> store" where
  "put_slice_in k x v \<equiv> v\<lparr>st_slices := (st_slices v)(k := x)\<rparr>"

definition selected_pods :: "'w kube \<Rightarrow> store \<Rightarrow> string \<Rightarrow> strmap \<Rightarrow> pod set" where
  "selected_pods K v ns selector =
     {p. st_pods v (object_key p) = Some p \<and> Namespace p = ns \<and> SelectorMatches K selector (Labels p)}"

definition selected_services :: "'w kube \<Rightarrow> store \<Rightarrow> string \<Rightarrow> strmap \<Rightarrow> service set" where
  "selected_services K v ns selector =
     {x. st_services v (object_key x) = Some x \<and> Namespace x = ns \<and> SelectorMatches K selector (Labels x)}"

text \<open>Every object is stored under its own key, and no two pods share a UID.\<close>

definition well_keyed :: "store \<Rightarrow> bool" where
  "well_keyed v \<longleftrightarrow>
     (\<forall>k x. st_services v k = Some x \<longrightarrow> object_key x = k) \<and>
     (\<forall>k p. st_pods v k = Some p \<longrightarrow> object_key p = k) \<and>
     (\<forall>k x. st_slices v k = Some x \<longrightarrow> object_key x = k) \<and>
     inj_on UID (ran (st_pods v))"

lemma well_keyedD:
  assumes "well_keyed v"
  shows "st_services v k = Some x \<Longrightarrow> object_key x = k"
    and "st_pods v k = Some p \<Longrightarrow> object_key p = k"
    and "st_slices v k = Some z \<Longrightarrow> object_key z = k"
  using assms unfolding well_keyed_def by blast+

lemma well_keyed_uid:
  assumes "well_keyed v" and "st_pods v k = Some p" and "st_pods v l = Some q" and "UID p = UID q"
  shows "p = q"
proof -
  have "inj_on UID (ran (st_pods v))" using assms(1) by (simp add: well_keyed_def)
  moreover have "p \<in> ran (st_pods v)" and "q \<in> ran (st_pods v)"
    using assms(2,3) by (auto intro: ranI)
  ultimately show ?thesis using assms(4) by (simp add: inj_on_eq_iff)
qed

definition same_service :: "service \<Rightarrow> service \<Rightarrow> bool" where
  "same_service sent stored \<longleftrightarrow>
     object_key stored = object_key sent \<and> Labels stored = Labels sent \<and>
     Annotations stored = Annotations sent \<and> OwnerReferences stored = OwnerReferences sent \<and>
     Selector stored = Selector sent \<and>
     map (\<lambda>p. p\<lparr>NodePort := 0\<rparr>) (Ports stored) = map (\<lambda>p. p\<lparr>NodePort := 0\<rparr>) (Ports sent)"

definition same_slice :: "endpoint_slice \<Rightarrow> endpoint_slice \<Rightarrow> bool" where
  "same_slice sent stored \<longleftrightarrow>
     object_key stored = object_key sent \<and> Labels stored = Labels sent \<and>
     OwnerReferences stored = OwnerReferences sent \<and> AddressType stored = AddressType sent \<and>
     Endpoints stored = Endpoints sent \<and> EndpointPorts stored = EndpointPorts sent"

text \<open>
  A Service that the server takes for sure: its name is a DNS-1035 label, it is of type ClusterIP,
  and its ports are those of a stored Service up to numeric targets, without fixed node ports.
\<close>

definition service_name_ok :: "'w kube \<Rightarrow> string \<Rightarrow> bool" where
  "service_name_ok K n \<longleftrightarrow>
     IsDNS1123Label K n = [] \<and> n \<noteq> [] \<and> CHR ''a'' \<le> hd n \<and> hd n \<le> CHR ''z''"

definition ports_of :: "service_port list \<Rightarrow> service_port list \<Rightarrow> bool" where
  "ports_of stored sent \<longleftrightarrow>
     list_all2 (\<lambda>p q. \<exists>i. q = p\<lparr>TargetPort := IntPort i\<rparr> \<and> NodePort p = 0) stored sent"

definition service_taken :: "'w kube \<Rightarrow> store \<Rightarrow> service \<Rightarrow> bool" where
  "service_taken K v x \<longleftrightarrow>
     service_name_ok K (Name x) \<and> ServiceType x = ServiceTypeClusterIP \<and> Ports x \<noteq> [] \<and>
     (\<exists>k src. st_services v k = Some src \<and> ports_of (Ports src) (Ports x))"

lemma service_taken_ports: "service_taken K v x \<Longrightarrow> \<not> portless x"
  by (auto simp: service_taken_def portless_def)

definition found :: "'a option \<Rightarrow> api_err + 'a" where
  "found x = (case x of Some a \<Rightarrow> Inr a | None \<Rightarrow> Inl NotFound)"

lemma found_simps [simp]: "found (Some a) = Inr a" "found None = Inl NotFound"
  by (simp_all add: found_def)

definition answers :: "('w \<Rightarrow> bool) \<Rightarrow> 'r \<Rightarrow> 'r \<times> 'w \<Rightarrow> bool" where
  "answers P r x \<longleftrightarrow> fst x = r \<and> P (snd x)"

locale api_server =
  fixes K :: "'w kube" and holds :: "store \<Rightarrow> 'w \<Rightarrow> bool"
  assumes keyed: "holds v w \<Longrightarrow> well_keyed v"
    and clock: "holds v w \<Longrightarrow> holds v (snd (Now K w))"
    and wait: "holds v w \<Longrightarrow> h \<in> waits (RetryDo K cfg) \<Longrightarrow> holds v (h w)"
    and gives_back: "gives_back {} (RetryDo K cfg)"
    and get_service: "holds v w \<Longrightarrow> answers (holds v) (found (st_services v k)) (GetService K k w)"
    and get_pod: "holds v w \<Longrightarrow> answers (holds v) (found (st_pods v k)) (GetPod K k w)"
    and get_slice: "holds v w \<Longrightarrow> answers (holds v) (found (st_slices v k)) (GetSlice K k w)"
    and list_pods: "holds v w \<Longrightarrow> \<exists>pods. set pods = selected_pods K v ns selector \<and>
      answers (holds v) (Inr pods) (ListPods K ns selector w)"
    and list_services: "holds v w \<Longrightarrow> \<exists>items. set items = selected_services K v ns selector \<and>
      distinct (map object_key items) \<and> answers (holds v) (Inr items) (ListServices K ns selector w)"
    and list_slices: "holds v w \<Longrightarrow> \<exists>items. answers (holds v) (Inr items) (ListSlices K ns selector w)"
    and create_service: "holds v w \<Longrightarrow> st_services v (object_key x) = None \<Longrightarrow> service_taken K v x \<Longrightarrow>
      \<exists>y. same_service x y \<and>
        answers (holds (put_service_in (object_key x) (Some y) v)) (Inr ()) (CreateService K x w)"
    and patch_service: "holds v w \<Longrightarrow> st_services v (object_key x) = Some old \<Longrightarrow> service_taken K v x \<Longrightarrow>
      \<exists>y. same_service x y \<and>
        answers (holds (put_service_in (object_key x) (Some y) v)) (Inr ()) (PatchService K x old w)"
    and delete_service: "holds v w \<Longrightarrow> st_services v (object_key x) \<noteq> None \<Longrightarrow>
      answers (holds (put_service_in (object_key x) None v)) (Inr ()) (DeleteService K x w)"
    and create_slice: "holds v w \<Longrightarrow> st_slices v (object_key z) = None \<Longrightarrow> acceptable z \<Longrightarrow>
      \<exists>y. same_slice z y \<and>
        answers (holds (put_slice_in (object_key z) (Some y) v)) (Inr ()) (CreateSlice K z w)"
    and patch_slice: "holds v w \<Longrightarrow> st_slices v (object_key z) = Some old_slice \<Longrightarrow> acceptable z \<Longrightarrow>
      AddressType z = AddressType old_slice \<Longrightarrow> \<exists>y. same_slice z y \<and>
        answers (holds (put_slice_in (object_key z) (Some y) v)) (Inr ()) (PatchSlice K z old_slice w)"
    and delete_slice: "holds v w \<Longrightarrow> st_slices v (object_key z) \<noteq> None \<Longrightarrow>
      answers (holds (put_slice_in (object_key z) None v)) (Inr ()) (DeleteSlice K z w)"
begin

subsection \<open>Retried calls on a calm server\<close>

definition at :: "store \<Rightarrow> 'w sys \<Rightarrow> bool" where
  "at v s \<longleftrightarrow> holds v (world s)"

text \<open>Programs that leave the contents alone.\<close>

definition calm :: "'w sys \<Rightarrow> 'w sys \<Rightarrow> bool" where
  "calm s t \<longleftrightarrow> (\<forall>v. at v s \<longrightarrow> at v t)"

lemma steady_at: "steady K (at v)"
  by (auto intro!: steadyI elim!: backgroundE simp: at_def clock wait)

lemma passes_on_errors: "passes_on K E"
  using gives_back_passes[OF gives_back] by (simp add: passes_on_def)

lemma call_outcome:
  assumes "\<And>w. holds v w \<Longrightarrow> (case f w of
      (Inl e, w') \<Rightarrow> E e \<and> holds v w' | (Inr a, w') \<Rightarrow> \<exists>v'. P a v' \<and> holds v' w')"
    and run: "run_state (call_api K cfg f c ns service operation) s = (r, s')" and "at v s"
  shows "case r of Inl e \<Rightarrow> E e \<and> at v s' | Inr a \<Rightarrow> \<exists>v'. P a v' \<and> at v' s'"
proof -
  let ?Q = "\<lambda>a t. \<exists>v'. P a v' \<and> at v' t"
  have "steady K (?Q a)" for a
    using steady_at by (auto simp: steady_def)
  moreover have "outcome E (at v) ?Q (fst (f (world t)))
      (t\<lparr>world := snd (f (world t)), calls := calls t @ [c (fst (f (world t)))]\<rparr>)" if "at v t" for t
    using assms(1)[of "world t"] that
    by (auto simp: at_def outcome_def split: prod.splits sum.splits)
  ultimately have "outcome E (at v) ?Q r s'"
    by (intro call_api_outcome[OF steady_at _ passes_on_errors _ run \<open>at v s\<close>])
  then show ?thesis by (simp add: outcome_def split: sum.splits)
qed

lemma call_answers:
  assumes "\<And>w. holds v w \<Longrightarrow> answers (holds v) r0 (f w)"
    and run: "run_state (call_api K cfg f c ns service operation) s = (r, s')" and "at v s"
  shows "r = r0 \<and> at v s'"
proof -
  have "case r of Inl e \<Rightarrow> (r0 = Inl e) \<and> at v s' | Inr a \<Rightarrow> \<exists>v'. (r0 = Inr a \<and> v' = v) \<and> at v' s'"
    by (rule call_outcome[OF _ run \<open>at v s\<close>])
      (use assms(1) in \<open>fastforce simp: answers_def split: prod.splits sum.splits\<close>)
  then show ?thesis by (auto split: sum.splits)
qed

lemma call_succeeds:
  assumes "\<And>w. holds v w \<Longrightarrow> \<exists>a v'. P a v' \<and> answers (holds v') (Inr a) (f w)"
    and run: "run_state (call_api K cfg f c ns service operation) s = (r, s')" and "at v s"
  shows "\<exists>a v'. r = Inr a \<and> P a v' \<and> at v' s'"
proof -
  have "case r of Inl e \<Rightarrow> False \<and> at v s' | Inr a \<Rightarrow> \<exists>v'. P a v' \<and> at v' s'"
    by (rule call_outcome[OF _ run \<open>at v s\<close>])
      (use assms(1) in \<open>fastforce simp: answers_def split: prod.splits sum.splits\<close>)
  then show ?thesis by (auto split: sum.splits)
qed

end

sublocale api_server \<subseteq> quiet: system_evolution calm K
proof
  fix s t u :: "'w sys"
  show "calm s s" by (simp add: calm_def)
  show "calm s u" if "calm s t" "calm t u" using that by (simp add: calm_def)
  show "calm s t" if "background K s t"
    using that steadyD[OF steady_at that] by (simp add: calm_def)
qed

context api_server
begin

lemma at_keyed: "at v s \<Longrightarrow> well_keyed v"
  by (simp add: at_def keyed)

lemma calmD: "calm s t \<Longrightarrow> at v s \<Longrightarrow> at v t"
  by (simp add: calm_def)

lemma calm_run: "state_io_rel calm m \<Longrightarrow> run_state m s = (r, t) \<Longrightarrow> at v s \<Longrightarrow> at v t"
  by (auto simp: calm_def dest: state_io_relD)

lemma calm_world: "(\<And>s. world (f s) = world s) \<Longrightarrow> state_io_rel calm (modify f)"
  by (auto simp: state_io_rel_def calm_def at_def)

lemma calm_call:
  "(\<And>v w. holds v w \<Longrightarrow> holds v (snd (f w))) \<Longrightarrow>
   state_io_rel calm (call_api K cfg f c ns service operation)"
  by (rule quiet.keeps_call_api) (auto simp: calm_def at_def)

lemma answers_holds: "answers P r x \<Longrightarrow> P (snd x)"
  by (simp add: answers_def)

lemma calm_reads:
  "state_io_rel calm (call_api K cfg (GetService K k) c ns service operation)"
  "state_io_rel calm (call_api K cfg (GetPod K k) c' ns service operation)"
  "state_io_rel calm (call_api K cfg (GetSlice K k) d ns service operation)"
  "state_io_rel calm (call_api K cfg (ListPods K n m) d' ns service operation)"
  "state_io_rel calm (call_api K cfg (ListServices K n m) e ns service operation)"
  "state_io_rel calm (call_api K cfg (ListSlices K n m) e' ns service operation)"
proof -
  show "state_io_rel calm (call_api K cfg (GetService K k) c ns service operation)"
    by (rule calm_call) (blast dest: get_service answers_holds)
  show "state_io_rel calm (call_api K cfg (GetPod K k) c' ns service operation)"
    by (rule calm_call) (blast dest: get_pod answers_holds)
  show "state_io_rel calm (call_api K cfg (GetSlice K k) d ns service operation)"
    by (rule calm_call) (blast dest: get_slice answers_holds)
  show "state_io_rel calm (call_api K cfg (ListPods K n m) d' ns service operation)"
    by (rule calm_call) (blast dest: list_pods answers_holds)
  show "state_io_rel calm (call_api K cfg (ListServices K n m) e ns service operation)"
    by (rule calm_call) (blast dest: list_services answers_holds)
  show "state_io_rel calm (call_api K cfg (ListSlices K n m) e' ns service operation)"
    by (rule calm_call) (blast dest: list_slices answers_holds)
qed

lemma calm_updates:
  "state_io_rel calm (emit_event ob ty reason)"
  "state_io_rel calm (set_opted n cached)"
  "state_io_rel calm (clearLeaderPodCache k)"
  "state_io_rel calm (modify (\<lambda>s. s\<lparr>leaderPodCache := g s\<rparr>))"
  by (simp_all add: emit_event_def set_opted_def clearLeaderPodCache_def calm_world)

lemmas calm_intros = quiet.keeps_intros quiet.keeps_effects calm_reads calm_updates
  records_well_labelled well_labelled_Nil well_labelled_append

lemma calm_cache: "state_io_rel calm (updateLeaderPodCache K k p ttl)"
  unfolding updateLeaderPodCache_def by (intro calm_intros)

lemma calm_slice_leader: "state_io_rel calm (slice_leader K cfg svc es)"
  by (induction es) (auto intro!: calm_intros calm_cache)

lemma calm_current: "state_io_rel calm (check_current_leader K cfg svc)"
  unfolding check_current_leader_def getCurrentLeaderPod_def cached_leader_def
  by (intro calm_intros calm_slice_leader)

lemma calm_totals: "state_io_rel calm (updateResourceTotals K ns)"
  unfolding updateResourceTotals_def by (intro calm_intros)

lemma calm_finish:
  "state_io_rel calm (finish_error K start req e)"
  "state_io_rel calm (finish_success K start req)"
  unfolding finish_error_def finish_success_def finish_run_def
  by (intro calm_intros; simp)+

lemma calm_records:
  "state_io_rel calm (record_leader_change K svc current leader failover)"
  "state_io_rel calm (record_leader K svc leader)"
  unfolding record_leader_change_def record_leader_def by (intro calm_intros calm_cache)+

lemma calm_opted:
  "state_io_rel calm (updateOptedInServicesCacheForService K svc)"
  unfolding updateOptedInServicesCacheForService_def by (intro calm_intros)

lemma calm_collect: "state_io_rel calm (collect_opted K items)"
  by (induction items) (auto intro!: calm_intros)

lemma calm_refresh: "state_io_rel calm (updateOptedInServicesCache K cfg ns)"
  unfolding updateOptedInServicesCache_def updateOptedInServicesCacheLocked_def
  by (intro calm_intros calm_collect)

text \<open>What the reads and writes answer.\<close>

lemma read_service:
  "run_state (call_api K cfg (GetService K k) c ns service operation) s = (r, s') \<Longrightarrow> at v s \<Longrightarrow>
   r = found (st_services v k) \<and> at v s'"
  by (rule call_answers) (rule get_service)

lemma read_pod:
  "run_state (call_api K cfg (GetPod K k) c ns service operation) s = (r, s') \<Longrightarrow> at v s \<Longrightarrow>
   r = found (st_pods v k) \<and> at v s'"
  by (rule call_answers) (rule get_pod)

lemma read_slice:
  "run_state (call_api K cfg (GetSlice K k) c ns service operation) s = (r, s') \<Longrightarrow> at v s \<Longrightarrow>
   r = found (st_slices v k) \<and> at v s'"
  by (rule call_answers) (rule get_slice)

lemma read_pods:
  assumes "run_state (call_api K cfg (ListPods K n selector) c ns service operation) s = (r, s')"
    and "at v s"
  shows "\<exists>pods. r = Inr pods \<and> set pods = selected_pods K v n selector \<and> at v s'"
  using call_succeeds[OF _ assms, of "\<lambda>pods v'. set pods = selected_pods K v n selector \<and> v' = v"]
    list_pods by blast

lemma read_services:
  assumes "run_state (call_api K cfg (ListServices K n selector) c ns service operation) s = (r, s')"
    and "at v s"
  shows "\<exists>items. r = Inr items \<and> set items = selected_services K v n selector \<and>
    distinct (map object_key items) \<and> at v s'"
  using call_succeeds[OF _ assms, of "\<lambda>items v'. set items = selected_services K v n selector \<and>
      distinct (map object_key items) \<and> v' = v"] list_services by blast

lemma call_writes:
  assumes "\<And>w. holds v w \<Longrightarrow> \<exists>y. S y \<and> answers (holds (u y)) (Inr ()) (f w)"
    and run: "run_state (call_api K cfg f c ns service operation) s = (r, s')" and "at v s"
  shows "\<exists>y. r = Inr () \<and> S y \<and> at (u y) s'"
proof -
  have "\<exists>a v'. r = Inr a \<and> (\<exists>y. S y \<and> v' = u y) \<and> at v' s'"
    by (rule call_succeeds[OF _ run \<open>at v s\<close>]) (use assms(1) in fastforce)
  then show ?thesis by auto
qed

lemma service_created:
  assumes "run_state (call_api K cfg (CreateService K x) c ns service operation) s = (r, s')"
    and "at v s" and "st_services v (object_key x) = None" and "service_taken K v x"
  shows "\<exists>y. r = Inr () \<and> same_service x y \<and> at (put_service_in (object_key x) (Some y) v) s'"
  by (rule call_writes[OF create_service assms(1,2)]) (use assms(3,4) in simp_all)

lemma service_patched:
  assumes "run_state (call_api K cfg (PatchService K x old) c ns service operation) s = (r, s')"
    and "at v s" and "st_services v (object_key x) = Some old" and "service_taken K v x"
  shows "\<exists>y. r = Inr () \<and> same_service x y \<and> at (put_service_in (object_key x) (Some y) v) s'"
  by (rule call_writes[OF patch_service assms(1,2)]) (use assms(3,4) in simp_all)

lemma service_deleted:
  assumes "run_state (call_api K cfg (DeleteService K x) c ns service operation) s = (r, s')"
    and "at v s" and "st_services v (object_key x) \<noteq> None"
  shows "r = Inr () \<and> at (put_service_in (object_key x) None v) s'"
proof -
  have "\<exists>y :: unit. r = Inr () \<and> True \<and> at (put_service_in (object_key x) None v) s'"
    by (rule call_writes[OF _ assms(1,2)]) (use delete_service assms(3) in blast)
  then show ?thesis by simp
qed

lemma slice_deleted:
  assumes "run_state (call_api K cfg (DeleteSlice K z) c ns service operation) s = (r, s')"
    and "at v s" and "st_slices v (object_key z) \<noteq> None"
  shows "r = Inr () \<and> at (put_slice_in (object_key z) None v) s'"
proof -
  have "\<exists>y :: unit. r = Inr () \<and> True \<and> at (put_slice_in (object_key z) None v) s'"
    by (rule call_writes[OF _ assms(1,2)]) (use delete_slice assms(3) in blast)
  then show ?thesis by simp
qed

lemma slice_created:
  assumes "run_state (call_api K cfg (CreateSlice K z) c ns service operation) s = (r, s')"
    and "at v s" and "st_slices v (object_key z) = None" and "acceptable z"
  shows "\<exists>y. r = Inr () \<and> same_slice z y \<and> at (put_slice_in (object_key z) (Some y) v) s'"
  by (rule call_writes[OF create_slice assms(1,2)]) (use assms(3,4) in simp_all)

lemma slice_patched:
  assumes "run_state (call_api K cfg (PatchSlice K z old) c ns service operation) s = (r, s')"
    and "at v s" and "st_slices v (object_key z) = Some old" and "acceptable z"
    and "AddressType z = AddressType old"
  shows "\<exists>y. r = Inr () \<and> same_slice z y \<and> at (put_slice_in (object_key z) (Some y) v) s'"
  by (rule call_writes[OF patch_slice assms(1,2)]) (use assms(3-5) in simp_all)

end

subsection \<open>A server that validates\<close>

text \<open>
  An EndpointSlice is refused when an endpoint has no address or one of another type, and when its
  type would change; a Service is refused when it has no ports.
\<close>

locale validating_server = api_server K holds
  for K :: "'w kube" and holds :: "store \<Rightarrow> 'w \<Rightarrow> bool" +
  assumes refuse_create: "holds v w \<Longrightarrow> \<not> acceptable z \<Longrightarrow>
      \<exists>e. answers (holds v) (Inl e) (CreateSlice K z w)"
    and refuse_patch: "holds v w \<Longrightarrow> \<not> acceptable z \<or> AddressType z \<noteq> AddressType old_slice \<Longrightarrow>
      \<exists>e. answers (holds v) (Inl e) (PatchSlice K z old_slice w)"
    and refuse_portless: "holds v w \<Longrightarrow> portless x \<Longrightarrow>
      \<exists>e. answers (holds v) (Inl e) (CreateService K x w)"
    and refuse_portless_patch: "holds v w \<Longrightarrow> portless x \<Longrightarrow>
      \<exists>e. answers (holds v) (Inl e) (PatchService K x old w)"
begin

lemma call_refused:
  assumes "\<And>w. holds v w \<Longrightarrow> \<exists>e. answers (holds v) (Inl e) (f w)"
    and run: "run_state (call_api K cfg f c ns service operation) s = (r, s')" and "at v s"
  shows "\<exists>e. r = Inl e \<and> at v s'"
proof -
  have "case r of Inl e \<Rightarrow> True \<and> at v s' | Inr a \<Rightarrow> \<exists>v'. False \<and> at v' s'"
    by (rule call_outcome[OF _ run \<open>at v s\<close>])
      (use assms(1) in \<open>fastforce simp: answers_def split: prod.splits sum.splits\<close>)
  then show ?thesis by (auto split: sum.splits)
qed

lemma slice_refused:
  "run_state (call_api K cfg (CreateSlice K z) c ns service operation) s = (r, s') \<Longrightarrow> at v s \<Longrightarrow>
   \<not> acceptable z \<Longrightarrow> \<exists>e. r = Inl e \<and> at v s'"
  by (rule call_refused) (auto intro: refuse_create)

lemma slice_change_refused:
  "run_state (call_api K cfg (PatchSlice K z old) c ns service operation) s = (r, s') \<Longrightarrow> at v s \<Longrightarrow>
   \<not> acceptable z \<or> AddressType z \<noteq> AddressType old \<Longrightarrow> \<exists>e. r = Inl e \<and> at v s'"
  by (rule call_refused) (auto intro: refuse_patch)

lemma service_refused:
  "run_state (call_api K cfg (CreateService K x) c ns service operation) s = (r, s') \<Longrightarrow> at v s \<Longrightarrow>
   portless x \<Longrightarrow> \<exists>e. r = Inl e \<and> at v s'"
  by (rule call_refused) (auto intro: refuse_portless)

lemma service_change_refused:
  "run_state (call_api K cfg (PatchService K x old) c ns service operation) s = (r, s') \<Longrightarrow> at v s \<Longrightarrow>
   portless x \<Longrightarrow> \<exists>e. r = Inl e \<and> at v s'"
  by (rule call_refused) (auto intro: refuse_portless_patch)

end

subsection \<open>The server in memory keeps the laws\<close>

definition find_key :: "('a) object_meta_scheme list \<Rightarrow> nsname \<Rightarrow> ('a) object_meta_scheme option" where
  "find_key obs k = List.find (\<lambda>ob. object_key ob = k) obs"

definition store_of :: "cluster \<Rightarrow> store" where
  "store_of w =
     \<lparr>st_services = find_key (cl_services w), st_pods = find_key (cl_pods w),
      st_slices = find_key (cl_slices w)\<rparr>"

definition mem_holds :: "store \<Rightarrow> cluster \<Rightarrow> bool" where
  "mem_holds v w \<longleftrightarrow>
     cl_faults w = [] \<and> cl_strict w \<and> v = store_of w \<and>
     distinct (map object_key (cl_services w)) \<and> distinct (map object_key (cl_pods w)) \<and>
     distinct (map object_key (cl_slices w)) \<and> distinct (map UID (cl_pods w))"

lemma find_key_iff:
  "distinct (map object_key obs) \<Longrightarrow> find_key obs k = Some x \<longleftrightarrow> x \<in> set obs \<and> object_key x = k"
  by (induction obs) (auto simp: find_key_def)

lemma find_key_key: "find_key obs k = Some x \<Longrightarrow> x \<in> set obs \<and> object_key x = k"
  using find_SomeD by (fastforce simp: find_key_def)

lemma find_key_None: "find_key obs k = None \<longleftrightarrow> k \<notin> object_key ` set obs"
  by (auto simp: find_key_def find_None_iff)

lemma lookup_found: "lookup_key obs k = found (find_key obs k)"
  by (simp add: lookup_key_def found_def find_key_def)

lemma find_key_append: "find_key obs (object_key x) = None \<Longrightarrow>
    find_key (obs @ [x]) = (find_key obs)(object_key x := Some x)"
  by (rule ext, induction obs) (auto simp: find_key_def split: if_splits)

lemma object_key_replace: "map object_key (replace x obs) = map object_key obs"
  by (simp add: replace_def)

lemma find_key_replace_at:
  "find_key (replace x obs) k =
     (if k = object_key x \<and> find_key obs k \<noteq> None then Some x else find_key obs k)"
  by (induction obs) (auto simp: find_key_def replace_def)

lemma find_key_replace: "find_key obs (object_key x) = Some old \<Longrightarrow>
    find_key (replace x obs) = (find_key obs)(object_key x := Some x)"
  by (auto simp: fun_eq_iff find_key_replace_at)

lemma find_key_remove: "find_key (remove k obs) = (find_key obs)(k := None)"
  by (rule ext, induction obs) (auto simp: find_key_def remove_def split: if_splits)

lemma distinct_remove: "distinct (map object_key obs) \<Longrightarrow> distinct (map object_key (remove k obs))"
  by (simp add: remove_def distinct_map_filter)

lemma object_key_admit [simp]: "object_key (admit w x) = object_key x"
  by (simp add: object_key_def admit_def)

lemma selected_in_namespace:
  "distinct (map object_key obs) \<Longrightarrow>
   set (in_namespace n sel obs) =
     {x. find_key obs (object_key x) = Some x \<and> Namespace x = n \<and> matches sel (Labels x)}"
  by (auto simp: in_namespace_def find_key_iff)

lemma same_service_admit: "same_service x (admit w x)"
  by (simp add: same_service_def admit_def object_key_def)

lemma same_slice_admit: "same_slice x (admit w x)"
  by (simp add: same_slice_def admit_def object_key_def)

lemma same_refl [simp]: "same_service x x" "same_slice z z"
  by (simp_all add: same_service_def same_slice_def)



lemma distinct_in_namespace:
  "distinct (map object_key obs) \<Longrightarrow> distinct (map object_key (in_namespace n sel obs))"
  by (simp add: in_namespace_def distinct_map_filter)

lemma mem_holdsD:
  assumes "mem_holds v w"
  shows "cl_faults w = []" and "st_services v = find_key (cl_services w)"
    and "st_pods v = find_key (cl_pods w)" and "st_slices v = find_key (cl_slices w)"
    and "distinct (map object_key (cl_services w))" and "distinct (map object_key (cl_pods w))"
    and "distinct (map object_key (cl_slices w))"
  using assms by (simp_all add: mem_holds_def store_of_def)

lemma mem_well_keyed: "mem_holds v w \<Longrightarrow> well_keyed v"
proof -
  assume "mem_holds v w"
  note w = mem_holdsD[OF this] \<open>mem_holds v w\<close>
  have "ran (find_key (cl_pods w)) \<subseteq> set (cl_pods w)"
    by (auto simp: ran_def dest: find_key_key)
  moreover have "inj_on UID (set (cl_pods w))"
    using w(8) by (simp add: mem_holds_def distinct_map)
  ultimately have "inj_on UID (ran (st_pods v))" unfolding w(3) by (rule inj_on_subset[rotated])
  then show ?thesis
    unfolding well_keyed_def using find_key_key by (auto simp: w(2-4) dest: find_key_key)
qed

lemma mem_services:
  assumes "mem_holds v w" and "find_key services = (st_services v)(k := x)"
    and "distinct (map object_key services)"
  shows "mem_holds (put_service_in k x v) (w\<lparr>cl_services := services, cl_next := n\<rparr>)"
  using assms by (simp add: mem_holds_def store_of_def)

lemma mem_slices:
  assumes "mem_holds v w" and "find_key slices = (st_slices v)(k := x)"
    and "distinct (map object_key slices)"
  shows "mem_holds (put_slice_in k x v) (w\<lparr>cl_slices := slices, cl_next := n\<rparr>)"
  using assms by (simp add: mem_holds_def store_of_def)

lemma mem_same_next:
  "mem_holds v (w\<lparr>cl_services := services, cl_next := n\<rparr>) \<longleftrightarrow> mem_holds v (w\<lparr>cl_services := services\<rparr>)"
  "mem_holds v (w\<lparr>cl_slices := slices, cl_next := n\<rparr>) \<longleftrightarrow> mem_holds v (w\<lparr>cl_slices := slices\<rparr>)"
  by (simp_all add: mem_holds_def store_of_def)

lemma mem_reads:
  assumes "mem_holds v w"
  shows "GetService mem_kube k w = (found (st_services v k), w)"
    and "GetPod mem_kube k w = (found (st_pods v k), w)"
    and "GetSlice mem_kube k w = (found (st_slices v k), w)"
    and "ListPods mem_kube n sel w = (Inr (in_namespace n sel (cl_pods w)), w)"
    and "ListServices mem_kube n sel w = (Inr (in_namespace n sel (cl_services w)), w)"
    and "ListSlices mem_kube n sel w = (Inr (in_namespace n sel (cl_slices w)), w)"
  using mem_holdsD[OF assms] by (simp_all add: mem_kube_def faulty_def lookup_found)

lemma mem_selects:
  assumes "mem_holds v w"
  shows "set (in_namespace n sel (cl_pods w)) = selected_pods mem_kube v n sel"
    and "set (in_namespace n sel (cl_services w)) = selected_services mem_kube v n sel"
  using mem_holdsD[OF assms]
  by (simp_all add: selected_in_namespace selected_pods_def selected_services_def mem_kube_def)

lemma mem_create_service:
  assumes "mem_holds v w" and "st_services v (object_key x) = None" and "service_taken mem_kube v x"
  shows "answers (mem_holds (put_service_in (object_key x) (Some (admit w x)) v)) (Inr ())
    (CreateService mem_kube x w)"
proof -
  note w = mem_holdsD[OF assms(1)]
  have fresh: "find_key (cl_services w) (object_key x) = None" using assms(2) w(2) by simp
  have "CreateService mem_kube x w =
      (Inr (), w\<lparr>cl_services := cl_services w @ [admit w x], cl_next := cl_next w + 1\<rparr>)"
    using fresh w(1) service_taken_ports[OF assms(3)]
    by (simp add: mem_kube_def faulty_def create_service_def find_key_None)
  moreover have "mem_holds (put_service_in (object_key x) (Some (admit w x)) v)
      (w\<lparr>cl_services := cl_services w @ [admit w x], cl_next := cl_next w + 1\<rparr>)"
    using find_key_append[of "cl_services w" "admit w x"] fresh w
    by (intro mem_services[OF assms(1)]) (simp_all add: find_key_None)
  ultimately show ?thesis by (simp add: answers_def)
qed

lemma mem_patch_service:
  assumes "mem_holds v w" and "st_services v (object_key x) = Some old" and "service_taken mem_kube v x"
  shows "answers (mem_holds (put_service_in (object_key x) (Some x) v)) (Inr ())
    (PatchService mem_kube x old w)"
proof -
  note w = mem_holdsD[OF assms(1)]
  have old: "find_key (cl_services w) (object_key x) = Some old" using assms(2) w(2) by simp
  then have "object_key x \<in> object_key ` set (cl_services w)"
    using find_key_None[of "cl_services w" "object_key x"] by simp
  then have "PatchService mem_kube x old w = (Inr (), w\<lparr>cl_services := replace x (cl_services w)\<rparr>)"
    using w(1) service_taken_ports[OF assms(3)] by (simp add: mem_kube_def faulty_def patch_service_def)
  moreover have "mem_holds (put_service_in (object_key x) (Some x) v)
      (w\<lparr>cl_services := replace x (cl_services w)\<rparr>)"
    using find_key_replace[OF old] w
    by (intro mem_services[OF assms(1), unfolded mem_same_next]) (simp_all add: object_key_replace)
  ultimately show ?thesis by (simp add: answers_def)
qed

lemma mem_delete_service:
  assumes "mem_holds v w" and "st_services v (object_key x) \<noteq> None"
  shows "answers (mem_holds (put_service_in (object_key x) None v)) (Inr ())
    (DeleteService mem_kube x w)"
proof -
  note w = mem_holdsD[OF assms(1)]
  have "object_key x \<in> object_key ` set (cl_services w)"
    using assms(2) w(2) find_key_None[of "cl_services w" "object_key x"] by simp
  then have "DeleteService mem_kube x w =
      (Inr (), w\<lparr>cl_services := remove (object_key x) (cl_services w)\<rparr>)"
    using w(1) by (simp add: mem_kube_def faulty_def delete_service_def)
  moreover have "mem_holds (put_service_in (object_key x) None v)
      (w\<lparr>cl_services := remove (object_key x) (cl_services w)\<rparr>)"
    using w
    by (intro mem_services[OF assms(1), unfolded mem_same_next]) (simp_all add: find_key_remove distinct_remove)
  ultimately show ?thesis by (simp add: answers_def)
qed

lemma mem_delete_slice:
  assumes "mem_holds v w" and "st_slices v (object_key z) \<noteq> None"
  shows "answers (mem_holds (put_slice_in (object_key z) None v)) (Inr ()) (DeleteSlice mem_kube z w)"
proof -
  note w = mem_holdsD[OF assms(1)]
  have "object_key z \<in> object_key ` set (cl_slices w)"
    using assms(2) w(4) find_key_None[of "cl_slices w" "object_key z"] by simp
  then have "DeleteSlice mem_kube z w = (Inr (), w\<lparr>cl_slices := remove (object_key z) (cl_slices w)\<rparr>)"
    using w(1) by (simp add: mem_kube_def faulty_def delete_slice_obj_def)
  moreover have "mem_holds (put_slice_in (object_key z) None v)
      (w\<lparr>cl_slices := remove (object_key z) (cl_slices w)\<rparr>)"
    using w
    by (intro mem_slices[OF assms(1), unfolded mem_same_next]) (simp_all add: find_key_remove distinct_remove)
  ultimately show ?thesis by (simp add: answers_def)
qed

lemma mem_create_slice:
  assumes "mem_holds v w" and "st_slices v (object_key z) = None" and "acceptable z"
  shows "answers (mem_holds (put_slice_in (object_key z) (Some (admit w z)) v)) (Inr ())
    (CreateSlice mem_kube z w)"
proof -
  note w = mem_holdsD[OF assms(1)]
  have fresh: "find_key (cl_slices w) (object_key z) = None" using assms(2) w(4) by simp
  have "CreateSlice mem_kube z w =
      (Inr (), w\<lparr>cl_slices := cl_slices w @ [admit w z], cl_next := cl_next w + 1\<rparr>)"
    using fresh w(1) assms(3)
    by (simp add: mem_kube_def faulty_def create_slice_obj_def find_key_None)
  moreover have "mem_holds (put_slice_in (object_key z) (Some (admit w z)) v)
      (w\<lparr>cl_slices := cl_slices w @ [admit w z], cl_next := cl_next w + 1\<rparr>)"
    using find_key_append[of "cl_slices w" "admit w z"] fresh w
    by (intro mem_slices[OF assms(1)]) (simp_all add: find_key_None)
  ultimately show ?thesis by (simp add: answers_def)
qed

lemma mem_patch_slice:
  assumes "mem_holds v w" and "st_slices v (object_key z) = Some old" and "acceptable z"
    and "AddressType z = AddressType old"
  shows "answers (mem_holds (put_slice_in (object_key z) (Some z) v)) (Inr ())
    (PatchSlice mem_kube z old w)"
proof -
  note w = mem_holdsD[OF assms(1)]
  have old: "find_key (cl_slices w) (object_key z) = Some old" using assms(2) w(4) by simp
  then have "object_key z \<in> object_key ` set (cl_slices w)"
    using find_key_None[of "cl_slices w" "object_key z"] by simp
  then have "PatchSlice mem_kube z old w = (Inr (), w\<lparr>cl_slices := replace z (cl_slices w)\<rparr>)"
    using w(1) assms(3,4) by (simp add: mem_kube_def faulty_def patch_slice_obj_def)
  moreover have "mem_holds (put_slice_in (object_key z) (Some z) v)
      (w\<lparr>cl_slices := replace z (cl_slices w)\<rparr>)"
    using find_key_replace[OF old] w
    by (intro mem_slices[OF assms(1), unfolded mem_same_next]) (simp_all add: object_key_replace)
  ultimately show ?thesis by (simp add: answers_def)
qed

lemma mem_waits:
  "h \<in> waits (mem_retries cfg n) \<Longrightarrow> h = (\<lambda>w. w\<lparr>cl_clock := cl_clock w + InitialDelay cfg\<rparr>)"
  by (induction n) (auto split: if_splits)

lemma mem_gives_back: "gives_back es (mem_retries cfg n)"
  by (induction n arbitrary: es) auto

interpretation mem: api_server mem_kube mem_holds
proof
  fix v w assume w: "mem_holds v w"
  note reads = mem_reads[OF w] answers_def w
  show "well_keyed v" using w by (rule mem_well_keyed)
  show "mem_holds v (snd (Now mem_kube w))"
    using w by (simp add: mem_holds_def store_of_def mem_kube_def)
  show "mem_holds v (h w)" if "h \<in> waits (RetryDo mem_kube cfg)" for h cfg
    using w that by (auto simp: mem_kube_def dest!: mem_waits) (simp add: mem_holds_def store_of_def)
  show "answers (mem_holds v) (found (st_services v k)) (GetService mem_kube k w)" for k
    by (simp add: reads)
  show "answers (mem_holds v) (found (st_pods v k)) (GetPod mem_kube k w)" for k
    by (simp add: reads)
  show "answers (mem_holds v) (found (st_slices v k)) (GetSlice mem_kube k w)" for k
    by (simp add: reads)
  show "\<exists>pods. set pods = selected_pods mem_kube v n sel \<and>
      answers (mem_holds v) (Inr pods) (ListPods mem_kube n sel w)" for n sel
    using mem_selects(1)[OF w] by (auto simp: reads)
  show "\<exists>items. set items = selected_services mem_kube v n sel \<and> distinct (map object_key items) \<and>
      answers (mem_holds v) (Inr items) (ListServices mem_kube n sel w)" for n sel
    using mem_selects(2)[OF w] distinct_in_namespace[OF mem_holdsD(5)[OF w]] by (auto simp: reads)
  show "\<exists>items. answers (mem_holds v) (Inr items) (ListSlices mem_kube n sel w)" for n sel
    by (simp add: reads)
  show "\<exists>y. same_service x y \<and> answers (mem_holds (put_service_in (object_key x) (Some y) v)) (Inr ())
      (CreateService mem_kube x w)"
    if "st_services v (object_key x) = None" and "service_taken mem_kube v x" for x
    using mem_create_service[OF w that] same_service_admit by blast
  show "\<exists>y. same_service x y \<and> answers (mem_holds (put_service_in (object_key x) (Some y) v)) (Inr ())
      (PatchService mem_kube x old w)"
    if "st_services v (object_key x) = Some old" and "service_taken mem_kube v x" for x old
    using mem_patch_service[OF w that] same_refl by blast
  show "answers (mem_holds (put_service_in (object_key x) None v)) (Inr ()) (DeleteService mem_kube x w)"
    if "st_services v (object_key x) \<noteq> None" for x
    using mem_delete_service[OF w that] .
  show "\<exists>y. same_slice z y \<and> answers (mem_holds (put_slice_in (object_key z) (Some y) v)) (Inr ())
      (CreateSlice mem_kube z w)" if "st_slices v (object_key z) = None" and "acceptable z" for z
    using mem_create_slice[OF w that] same_slice_admit by blast
  show "\<exists>y. same_slice z y \<and> answers (mem_holds (put_slice_in (object_key z) (Some y) v)) (Inr ())
      (PatchSlice mem_kube z old_slice w)"
    if "st_slices v (object_key z) = Some old_slice" and "acceptable z"
      and "AddressType z = AddressType old_slice" for z old_slice
    using mem_patch_slice[OF w that] same_refl by blast
  show "answers (mem_holds (put_slice_in (object_key z) None v)) (Inr ()) (DeleteSlice mem_kube z w)"
    if "st_slices v (object_key z) \<noteq> None" for z
    using mem_delete_slice[OF w that] .
next
  show "gives_back {} (RetryDo mem_kube cfg)" for cfg
    by (simp add: mem_kube_def mem_gives_back)
qed

interpretation validating_mem: validating_server mem_kube mem_holds
proof
  fix v w z assume w: "mem_holds v w"
  show "\<exists>e. answers (mem_holds v) (Inl e) (CreateSlice mem_kube z w)" if "\<not> acceptable z"
    using w that by (auto simp: answers_def mem_kube_def faulty_def create_slice_obj_def mem_holds_def)
  show "\<exists>e. answers (mem_holds v) (Inl e) (PatchSlice mem_kube z old w)"
    if "\<not> acceptable z \<or> AddressType z \<noteq> AddressType old" for old
    using w that by (auto simp: answers_def mem_kube_def faulty_def patch_slice_obj_def mem_holds_def)
  show "\<exists>e. answers (mem_holds v) (Inl e) (CreateService mem_kube x w)" if "portless x" for x
    using w that by (auto simp: answers_def mem_kube_def faulty_def create_service_def mem_holds_def)
  show "\<exists>e. answers (mem_holds v) (Inl e) (PatchService mem_kube x old w)" if "portless x" for x old
    using w that by (auto simp: answers_def mem_kube_def faulty_def patch_service_def mem_holds_def)
qed

end
