(* ===== verification/Convergence.thy ===== *)
theory Convergence
  imports Store
begin

text \<open>
  What the controller achieves on a calm API server: a run publishes a ready pod, further runs keep
  it, and the clean-up takes the leader Service away. All lemmas are proved from the laws of the
  locale \<open>api_server\<close> (theory Store), for any start of the run: whatever the caches hold and whatever
  an earlier, failed run has left behind.
\<close>

subsection \<open>The published state\<close>

definition portless_nodes :: "service_port list \<Rightarrow> service_port list" where
  "portless_nodes ports = map (\<lambda>p. p\<lparr>NodePort := 0\<rparr>) ports"

text \<open>The leader Service carries the leader's ports and names it.\<close>

definition names_leader :: "pod option \<Rightarrow> service_port list \<Rightarrow> service \<Rightarrow> bool" where
  "names_leader leader rps y \<longleftrightarrow>
     Selector y = [] \<and> portless_nodes (Ports y) = portless_nodes rps \<and>
     (\<forall>p. leader = Some p \<longrightarrow>
        map_of (Annotations y) AnnotationLeaderPodName = Some (Name p) \<and>
        map_of (Annotations y) AnnotationLeaderPodUID = Some (UID p))"

lemma names_leader_same: "same_service x y \<Longrightarrow> names_leader leader rps x \<Longrightarrow> names_leader leader rps y"
  by (simp add: names_leader_def same_service_def portless_nodes_def)

lemma names_leader_new:
  "names_leader (Some p) rps (new_leader_service svc n (mark_switch K t (mark_leader p a)) rps)"
  "names_leader None rps (new_leader_service svc n a rps)"
  by (simp_all add: names_leader_def new_leader_service_def mark_leader_get mark_switch_get annotation_keys)

definition routes_to :: "service \<Rightarrow> pod \<Rightarrow> service \<Rightarrow> endpoint_slice \<Rightarrow> bool" where
  "routes_to svc p leaderService slice \<longleftrightarrow>
     (\<exists>rps. list_all2 (resolves_to (Some p)) (Ports svc) rps \<and> names_leader (Some p) rps leaderService \<and>
        list_all2 endpoint_port_for rps (EndpointPorts slice)) \<and>
     Endpoints slice = [leader_endpoint (Some p)] \<and> AddressType slice = address_type (Some p)"

text \<open>The contents \<open>v'\<close> differ from \<open>v\<close> in the leader Service and its slice only.\<close>

definition published :: "'w kube \<Rightarrow> service \<Rightarrow> pod \<Rightarrow> store \<Rightarrow> store \<Rightarrow> bool" where
  "published K svc p v v' \<longleftrightarrow>
     (\<exists>leaderService slice. routes_to svc p leaderService slice \<and>
        v' = put_slice_in (leader_key K svc) (Some slice)
               (put_service_in (leader_key K svc) (Some leaderService) v))"

text \<open>A pod that can be the leader: its ports resolve and it has an address.\<close>

definition addressed :: "pod \<Rightarrow> bool" where
  "addressed p \<longleftrightarrow> PodIP p \<noteq> '''' \<and> ParseIP (PodIP p) \<noteq> None"

definition reachable_by :: "service \<Rightarrow> pod \<Rightarrow> bool" where
  "reachable_by svc p \<longleftrightarrow> addressed p \<and> (\<exists>rps. list_all2 (resolves_to (Some p)) (Ports svc) rps)"

text \<open>A slice of the leader Service that is there already has the pod's type of addresses.\<close>

definition fits :: "'w kube \<Rightarrow> store \<Rightarrow> service \<Rightarrow> pod \<Rightarrow> bool" where
  "fits K v svc p \<longleftrightarrow>
     (\<forall>slice. st_slices v (leader_key K svc) = Some slice \<longrightarrow> AddressType slice = address_type (Some p))"

text \<open>The server takes the leader Service of \<open>svc\<close>.\<close>

definition hostable :: "'w kube \<Rightarrow> service \<Rightarrow> bool" where
  "hostable K svc \<longleftrightarrow>
     service_name_ok K (getLeaderServiceName K svc) \<and>
     leader_service_type svc = ServiceTypeClusterIP \<and>
     Ports svc \<noteq> [] \<and> list_all (\<lambda>p. NodePort p = 0) (Ports svc)"

lemma ports_of_resolved:
  "list_all2 (resolves_to leader) ports rps \<Longrightarrow> list_all (\<lambda>p. NodePort p = 0) ports \<Longrightarrow> ports_of ports rps"
proof -
  have "\<exists>i. q = p\<lparr>TargetPort := IntPort i\<rparr>" if "resolves_to leader p q" for p q
  proof (cases "TargetPort p")
    case (IntPort i)
    with that have "q = p\<lparr>TargetPort := IntPort i\<rparr>" by (cases p) (simp add: resolves_to_def)
    then show ?thesis by blast
  qed (use that in \<open>auto simp: resolves_to_def split: option.splits\<close>)
  then show "list_all2 (resolves_to leader) ports rps \<Longrightarrow> list_all (\<lambda>p. NodePort p = 0) ports \<Longrightarrow>
      ports_of ports rps"
    unfolding ports_of_def by (auto simp: list_all2_conv_all_nth list_all_length)
qed

lemma service_taken_leader:
  assumes "hostable K svc" and "st_services v k = Some svc"
    and ports: "list_all2 (resolves_to leader) (Ports svc) (Ports x)"
    and "Name x = getLeaderServiceName K svc" and "ServiceType x = leader_service_type svc"
  shows "service_taken K v x"
proof -
  have "Ports x \<noteq> []" using ports assms(1) by (auto simp: hostable_def)
  with assms ports_of_resolved[OF ports] show ?thesis
    unfolding service_taken_def hostable_def by (metis (no_types))
qed

text \<open>
  The remembered leader of a Service has the UID \<open>u\<close>, if one is remembered.
\<close>

definition remembers :: "service \<Rightarrow> string \<Rightarrow> 'w sys \<Rightarrow> bool" where
  "remembers svc u s \<longleftrightarrow>
     (\<forall>c cached. leaderPodCache s = Some c \<longrightarrow>
        map_of c (service_key (Namespace svc) (Name svc)) = Some cached \<longrightarrow> UID (clp_pod cached) = u)"

text \<open>The stored slice of the Service points to \<open>p\<close>, which is stored and healthy.\<close>

definition in_place :: "'w kube \<Rightarrow> store \<Rightarrow> service \<Rightarrow> pod \<Rightarrow> bool" where
  "in_place K v svc p \<longleftrightarrow>
     st_pods v (object_key p) = Some p \<and> UID p \<noteq> '''' \<and> \<not> unhealthy p \<and>
     (\<exists>slice. st_slices v (leader_key K svc) = Some slice \<and> Endpoints slice = [leader_endpoint (Some p)])"

lemma pod_ref_leader:
  "PodIP p \<noteq> '''' \<Longrightarrow> UID p \<noteq> '''' \<Longrightarrow> pod_ref (leader_endpoint (Some p)) =
     Some \<lparr>RefKind = ''Pod'', RefNamespace = Namespace p, RefName = Name p, RefUID = UID p\<rparr>"
  by (simp add: pod_ref_def leader_endpoint_def)

text \<open>
  A Service that can be served: it is opted in and valid, and its selection has a ready pod; every
  ready pod of it can be the leader.
\<close>

definition admitted :: "'w kube \<Rightarrow> nsname \<Rightarrow> service \<Rightarrow> store \<Rightarrow> bool" where
  "admitted K req svc v \<longleftrightarrow>
     st_services v req = Some svc \<and> zen_lead_enabled svc \<and> Selector svc \<noteq> [] \<and>
     IsDNS1123Label K (fst req) = [] \<and> IsDNS1123Subdomain K (snd req) = []"

abbreviation candidates :: "'w kube \<Rightarrow> store \<Rightarrow> service \<Rightarrow> pod set" where
  "candidates K v svc \<equiv> {p \<in> selected_pods K v (Namespace svc) (Selector svc). isPodReady p}"

definition one_family :: "'w kube \<Rightarrow> store \<Rightarrow> service \<Rightarrow> bool" where
  "one_family K v svc \<longleftrightarrow> (\<exists>ty. \<forall>p. p \<in> candidates K v svc \<longrightarrow> address_type (Some p) = ty)"

definition serviceable :: "'w kube \<Rightarrow> nsname \<Rightarrow> service \<Rightarrow> store \<Rightarrow> bool" where
  "serviceable K req svc v \<longleftrightarrow>
     admitted K req svc v \<and> leader_key K svc \<noteq> req \<and>
     hostable K svc \<and> getMinReadyDuration K svc \<le> 0 \<and>
     (\<exists>p. p \<in> candidates K v svc) \<and>
     (\<forall>p. p \<in> candidates K v svc \<longrightarrow> reachable_by svc p \<and> fits K v svc p) \<and> one_family K v svc"

lemma serviceable_candidate: "serviceable K req svc v \<Longrightarrow> \<exists>p. p \<in> candidates K v svc"
  unfolding serviceable_def by (elim conjE)

lemma serviceable_fits:
  "serviceable K req svc v \<Longrightarrow> p \<in> candidates K v svc \<Longrightarrow> reachable_by svc p \<and> fits K v svc p"
  unfolding serviceable_def by (elim conjE, drule spec, erule mp)

text \<open>The Service is served: traffic to its leader Service goes to the ready pod \<open>p\<close>.\<close>

definition settled :: "'w kube \<Rightarrow> nsname \<Rightarrow> service \<Rightarrow> pod \<Rightarrow> store \<Rightarrow> bool" where
  "settled K req svc p v \<longleftrightarrow>
     serviceable K req svc v \<and> p \<in> candidates K v svc \<and>
     (\<exists>leaderService slice. st_services v (leader_key K svc) = Some leaderService \<and>
        st_slices v (leader_key K svc) = Some slice \<and> routes_to svc p leaderService slice)"

lemma published_settled:
  assumes pub: "published K svc p v v'" and srv: "serviceable K req svc v" and p: "p \<in> candidates K v svc"
  shows "settled K req svc p v'"
proof -
  obtain y z where y: "routes_to svc p y z" and v': "v' = put_slice_in (leader_key K svc) (Some z)
      (put_service_in (leader_key K svc) (Some y) v)"
    using pub by (auto simp: published_def)
  have pods: "selected_pods K v' n sel = selected_pods K v n sel" for n sel
    by (simp add: v' selected_pods_def)
  have "fits K v' svc q" if q: "q \<in> candidates K v svc" for q
  proof -
    have "one_family K v svc" using srv by (simp add: serviceable_def)
    then have "address_type (Some p) = address_type (Some q)" using p q by (metis one_family_def)
    then show ?thesis using y by (simp add: fits_def v' routes_to_def)
  qed
  moreover have "admitted K req svc v'"
    using srv by (auto simp: serviceable_def admitted_def v')
  ultimately have "serviceable K req svc v'"
    using srv by (simp add: serviceable_def one_family_def pods)
  then show ?thesis using p y unfolding settled_def pods by (auto simp: v')
qed

lemma settled_in_place:
  assumes "settled K req svc p v" and "UID p \<noteq> ''''" and "DeletionTimestamp p = None"
  shows "in_place K v svc p" and "reachable_by svc p"
proof -
  show "reachable_by svc p" using assms(1) by (auto simp: settled_def serviceable_def)
  then show "in_place K v svc p"
    using assms
    by (auto simp: settled_def in_place_def selected_pods_def unhealthy_def reachable_by_def
        addressed_def routes_to_def)
qed

text \<open>The state after a number of runs for the same Service.\<close>

primrec reconciled ::
  "'w kube \<Rightarrow> director_config \<Rightarrow> nsname \<Rightarrow> nat \<Rightarrow> 'w sys \<Rightarrow> 'w sys" where
  "reconciled K cfg req 0 s = s"
| "reconciled K cfg req (Suc n) s = snd (run_state (Reconcile K cfg req) (reconciled K cfg req n s))"

lemma reconciled_first:
  "reconciled K cfg req (Suc n) s = reconciled K cfg req n (snd (run_state (Reconcile K cfg req) s))"
  by (induction n) simp_all

subsection \<open>The remembered leader\<close>

lemma remembers_put:
  assumes "run_state (updateLeaderPodCache K (service_key (Namespace svc) (Name svc)) p ttl) s = (u, s')"
  shows "remembers svc (UID p) s'"
  using run_updateLeaderPodCache(5)[OF assms]
  by (auto simp: remembers_def put_leader_def update_conv')

lemma remembers_same: "leaderPodCache t = leaderPodCache s \<Longrightarrow> remembers svc u t \<longleftrightarrow> remembers svc u s"
  by (simp add: remembers_def)

lemma slice_leader_remembers:
  assumes "run_state (slice_leader K cfg svc es) s = (Some p, s')"
  shows "remembers svc (UID p) s'"
  using assms
proof (induction es arbitrary: s)
  case (Cons e es)
  show ?case
  proof (cases "pod_ref e")
    case None
    with Cons show ?thesis by simp
  next
    case (Some ref)
    let ?k = "(RefNamespace ref, RefName ref)"
    obtain q u where get: "run_state (call_api K (fastRetryConfig cfg) (GetPod K ?k) (CallGetPod ?k)
        (Namespace svc) (Name svc) ''get_pod'') s = (q, u)"
      by (metis prod.exhaust)
    show ?thesis
    proof (cases "\<exists>p. q = Inr p \<and> UID p = RefUID ref")
      case True
      then obtain c where c: "q = Inr c" "UID c = RefUID ref" by blast
      obtain x w where upd: "run_state (updateLeaderPodCache K
          (service_key (Namespace svc) (Name svc)) c defaultCacheTTL) u = (x, w)"
        by (metis prod.exhaust)
      then have "p = c" and "s' = w" using Cons.prems Some get c by (auto simp: Let_def)
      with remembers_put[OF upd] show ?thesis by simp
    next
      case False
      then have "run_state (slice_leader K cfg svc es) u = (Some p, s')"
        using Cons.prems Some get by (auto simp: Let_def split: sum.splits)
      then show ?thesis by (rule Cons.IH)
    qed
  qed
qed simp

lemma cached_leader_remembers:
  assumes "run_state (cached_leader K cfg svc) s = (Some p, s')"
  shows "remembers svc (UID p) s'"
proof -
  have cache: "leaderPodCache s' = leaderPodCache s" using cached_leader_result[OF assms] by blast
  obtain cached where cached: "Option.bind (leaderPodCache s)
      (\<lambda>c. map_of c (service_key (Namespace svc) (Name svc))) = Some cached"
    using assms by (auto simp: cached_leader_def split: option.splits)
  let ?k = "object_key (clp_pod cached)" and ?s = "s\<lparr>world := snd (Now K (world s))\<rparr>"
  obtain q u where get: "run_state (call_api K (fastRetryConfig cfg) (GetPod K ?k) (CallGetPod ?k)
      (Namespace svc) (Name svc) ''get_pod_cached'') ?s = (q, u)"
    by (metis prod.exhaust)
  have "UID p = UID (clp_pod cached)"
    using assms cached get by (auto simp: cached_leader_def run_now Let_def split: if_splits sum.splits)
  then show ?thesis using cache cached by (auto simp: remembers_def)
qed

lemma current_leader_remembers:
  assumes "run_state (getCurrentLeaderPod K cfg svc) s = (Some p, s')"
  shows "remembers svc (UID p) s'"
proof -
  obtain hit t where hit: "run_state (cached_leader K cfg svc) s = (hit, t)" by (metis prod.exhaust)
  show ?thesis
  proof (cases hit)
    case (Some c)
    then have "c = p" and "s' = t" using assms hit by (auto simp: getCurrentLeaderPod_def)
    with hit Some show ?thesis by (auto dest: cached_leader_remembers)
  next
    case None
    obtain q u where get: "run_state (call_api K (fastRetryConfig cfg) (GetSlice K (leader_key K svc))
        (CallGetSlice (leader_key K svc)) (Namespace svc) (Name svc) ''get_endpointslice'') t = (q, u)"
      by (metis prod.exhaust)
    then obtain slice where q: "q = Inr slice"
      using assms hit None by (cases q) (auto simp: getCurrentLeaderPod_def)
    obtain x w where x: "run_state (slice_leader K cfg svc (Endpoints slice)) u = (x, w)"
      by (metis prod.exhaust)
    then have "x = Some p" and "s' = w"
      using assms hit None get q
      by (auto simp: getCurrentLeaderPod_def clearLeaderPodCache_def split: option.splits)
    with x show ?thesis by (auto dest: slice_leader_remembers)
  qed
qed

lemma check_current_leader_remembers:
  assumes "run_state (check_current_leader K cfg svc) s = ((Some p, failover), s')"
  shows "remembers svc (UID p) s' \<and> failover = None"
proof -
  obtain c t where c: "run_state (getCurrentLeaderPod K cfg svc) s = (c, t)" by (metis prod.exhaust)
  with assms have "c = Some p" and "s' = t" and "failover = None"
    by (auto simp: check_current_leader_def clearLeaderPodCache_def run_now
        split: option.splits if_splits)
  with c show ?thesis by (auto dest: current_leader_remembers)
qed

text \<open>What does not write the leader pod cache.\<close>

lemma uncached_call: "state_io_rel (same leaderPodCache) (call_api K cfg f c ns service operation)"
  by (rule leader_cache_same.keeps_call_api) (simp add: same_def)

lemma uncached_updates:
  "state_io_rel (same leaderPodCache) (emit_event ob ty reason)"
  by (auto simp: state_io_rel_def same_def)

lemmas uncached_intros = fixed.keeps_intros leader_cache_same.keeps_effects uncached_call
  uncached_updates records_well_labelled well_labelled_Nil well_labelled_append

lemma uncached_select: "state_io_rel (same leaderPodCache) (selectLeaderPod K svc pods b)"
  unfolding selectLeaderPod_def select_fresh_def by (intro uncached_intros)

lemma uncached_resolve: "state_io_rel (same leaderPodCache) (resolve_or_fail K svc leader)"
proof -
  have "state_io_rel (same leaderPodCache) (resolveServicePorts svc leader)"
    by (rule leader_cache_same.keeps_resolveServicePorts) (simp add: same_def)
  then show ?thesis unfolding resolve_or_fail_def fail_closed_def by (intro uncached_intros)
qed

lemma uncached_totals: "state_io_rel (same leaderPodCache) (updateResourceTotals K ns)"
  unfolding updateResourceTotals_def by (intro uncached_intros)

lemma uncached_publish: "state_io_rel (same leaderPodCache) (publish_leader K cfg start svc leader)"
  unfolding publish_leader_def reconcileLeaderService_def record_stability_def write_leader_service_def
    create_leader_service_def patch_leader_service_def leader_annotations_def
    reconcileEndpointSlice_def create_slice_def patch_slice_def record_leader_def
    finish_error_def finish_success_def finish_run_def
  by (intro uncached_intros uncached_resolve uncached_totals)

lemma record_leader_change_remembers:
  assumes "run_state (record_leader_change K svc current (Some p) failover) s = (x, s')"
  shows "remembers svc (UID p) s'"
proof -
  obtain y t where upd: "run_state (updateLeaderPodCache K
      (service_key (Namespace svc) (Name svc)) p defaultCacheTTL) s = (y, t)"
    by (metis prod.exhaust)
  let ?rest = "do { recorder \<leftarrow> gets Metrics;
      onlyif (recorder \<noteq> None)
        (do { let reason = change_reason current failover;
              metric (RecordFailover (Namespace svc) (Name svc) reason);
              (case failover of
                 Some (failoverStartTime, why) \<Rightarrow>
                   do { latency \<leftarrow> since K failoverStartTime;
                        metric (RecordFailoverLatency (Namespace svc) (Name svc) reason latency) }
               | None \<Rightarrow> skip);
              metric (ResetLeaderDuration (Namespace svc) (Name svc)) }) }"
  have "run_state ?rest t = (x, s')" using assms upd by (simp add: record_leader_change_def)
  moreover have "state_io_rel (same leaderPodCache) ?rest" by (intro uncached_intros)
  ultimately have "leaderPodCache s' = leaderPodCache t"
    by (auto simp: same_def dest: state_io_relD)
  then show ?thesis using remembers_put[OF upd] remembers_same by blast
qed

lemma acceptable_leader:
  "Endpoints z = [leader_endpoint (Some p)] \<Longrightarrow> AddressType z = address_type (Some p) \<Longrightarrow>
   addressed p \<Longrightarrow> acceptable z"
  by (auto simp: acceptable_def leader_endpoint_def addressed_def address_ok_def address_type_def
      split: option.splits)

context api_server
begin

subsection \<open>Publishing\<close>

lemma resolve_or_fail_resolved:
  assumes "run_state (resolve_or_fail K svc leader) s = (r, s')"
    and "resolution leader (Ports svc) = Some rps"
  shows "r = (rps, leader) \<and> s' = s"
proof -
  obtain q t where q: "run_state (resolveServicePorts svc leader) s = (q, t)"
    by (metis prod.exhaust)
  with assms(2) obtain rps' where "q = Inr rps'"
    using resolveServicePorts_failure by (cases q) fastforce+
  with q assms resolveServicePorts_success[of svc leader s rps' t] show ?thesis
    by (auto simp: resolve_or_fail_def)
qed

lemma create_leader_service_stored:
  assumes run: "run_state (create_leader_service K svc leader rps) s = (r, s')" and "at v s"
    and none: "st_services v (leader_key K svc) = None"
    and host: "hostable K svc" "st_services v k = Some svc" "list_all2 (resolves_to leader) (Ports svc) rps"
  shows "\<exists>y. r = Inr () \<and> at (put_service_in (leader_key K svc) (Some y) v) s' \<and> names_leader leader rps y"
proof -
  let ?filtered = "filterGitOpsAnnotations (Annotations svc)"
  let ?annotate = "case leader of
      Some p \<Rightarrow> do { t \<leftarrow> now K; ret (mark_switch K t (mark_leader p ?filtered)) }
    | None \<Rightarrow> ret ?filtered"
  obtain a u where a: "run_state ?annotate s = (a, u)" by (metis prod.exhaust)
  have "state_io_rel calm ?annotate" by (intro calm_intros)
  then have u: "at v u" using a \<open>at v s\<close> by (rule calm_run)
  let ?x = "new_leader_service svc (getLeaderServiceName K svc) a rps"
  have named: "names_leader leader rps ?x"
    using a by (cases leader) (auto simp: run_now names_leader_new)
  obtain c w where create: "run_state (call_api K (DefaultRetry K) (CreateService K ?x)
      (CallCreateService ?x) (Namespace svc) (Name svc) ''create_leader_service'') u = (c, w)"
    by (metis prod.exhaust)
  have key: "object_key ?x = leader_key K svc" by (simp add: object_key_def new_leader_service_def)
  have "service_taken K v ?x"
    by (rule service_taken_leader[OF host(1,2), of leader]) (simp_all add: new_leader_service_def host(3))
  with service_created[OF create u] none obtain y where c: "c = Inr ()"
    and same: "same_service ?x y" and w: "at (put_service_in (leader_key K svc) (Some y) v) w"
    unfolding key by blast
  let ?rest = "do { emit_event svc EventTypeNormal ''LeaderServiceCreated'';
    emit_event svc EventTypeNormal ''LeaderRoutingAvailable'';
    recorder \<leftarrow> gets Metrics;
    onlyif (recorder \<noteq> None) (updateResourceTotals K (Namespace svc));
    ret (Inr ()) } :: ('w sys, leader_error + unit) state"
  have rest: "run_state ?rest w = (r, s')"
    using run a create c by (simp add: create_leader_service_def Let_def)
  have "state_io_rel calm ?rest" by (intro calm_intros calm_totals)
  then have "at (put_service_in (leader_key K svc) (Some y) v) s'" using rest w by (rule calm_run)
  moreover have "r = Inr ()" using rest by (simp split: prod.splits)
  moreover have "names_leader leader rps y" using names_leader_same[OF same named] .
  ultimately show ?thesis by blast
qed

lemma patch_leader_service_stored:
  assumes run: "run_state (patch_leader_service K svc old leader rps) s = (r, s')" and "at v s"
    and some: "st_services v (leader_key K svc) = Some old"
    and host: "hostable K svc" "st_services v k = Some svc" "list_all2 (resolves_to leader) (Ports svc) rps"
  shows "\<exists>y. r = Inr () \<and> at (put_service_in (leader_key K svc) (Some y) v) s' \<and> names_leader leader rps y"
proof -
  obtain a u where a: "run_state (leader_annotations K svc leader (Annotations old)) s = (a, u)"
    by (metis prod.exhaust)
  have "state_io_rel calm (leader_annotations K svc leader (Annotations old))"
    unfolding leader_annotations_def by (intro calm_intros)
  then have u: "at v u" using a \<open>at v s\<close> by (rule calm_run)
  let ?x = "old\<lparr>Selector := [], Ports := rps, ServiceType := leader_service_type svc, Annotations := a\<rparr>"
  obtain c w where patch: "run_state (call_api K (DefaultRetry K) (PatchService K ?x old)
      (CallPatchService ?x old) (Namespace svc) (Name svc) ''patch_leader_service'') u = (c, w)"
    by (metis prod.exhaust)
  have "object_key old = leader_key K svc"
    using well_keyedD(1)[OF at_keyed[OF \<open>at v s\<close>] some] .
  then have key: "object_key ?x = leader_key K svc" and "Name ?x = getLeaderServiceName K svc"
    by (simp_all add: object_key_def)
  then have "service_taken K v ?x"
    by (intro service_taken_leader[OF host(1,2), of leader]) (simp_all add: host(3))
  with service_patched[OF patch u] some obtain y where c: "c = Inr ()"
    and same: "same_service ?x y" and w: "at (put_service_in (leader_key K svc) (Some y) v) w"
    unfolding key by blast
  have "r = Inr ()" and "s' = w"
    using run a patch c by (simp_all add: patch_leader_service_def Let_def)
  moreover have "names_leader leader rps ?x"
    using a by (auto simp: names_leader_def dest: leader_annotations_leader)
  ultimately show ?thesis using w names_leader_same[OF same] by blast
qed

lemma write_leader_service_stored:
  assumes run: "run_state (write_leader_service K svc leader rps) s = (r, s')" and "at v s"
    and host: "hostable K svc" "st_services v k = Some svc" "list_all2 (resolves_to leader) (Ports svc) rps"
  shows "\<exists>y. r = Inr () \<and> at (put_service_in (leader_key K svc) (Some y) v) s' \<and> names_leader leader rps y"
proof -
  obtain q t where get: "run_state (call_api K (DefaultRetry K) (GetService K (leader_key K svc))
      (CallGetService (leader_key K svc)) (Namespace svc) (Name svc) ''get_leader_service'') s = (q, t)"
    by (metis prod.exhaust)
  note q = read_service[OF get \<open>at v s\<close>]
  show ?thesis
  proof (cases "st_services v (leader_key K svc)")
    case None
    then have "run_state (create_leader_service K svc leader rps) t = (r, s')"
      using run get q by (simp add: write_leader_service_def is_not_found_def)
    from create_leader_service_stored[OF this _ _ host] q None show ?thesis by blast
  next
    case (Some old)
    then have "run_state (patch_leader_service K svc old leader rps) t = (r, s')"
      using run get q by (simp add: write_leader_service_def)
    from patch_leader_service_stored[OF this _ _ host] q Some show ?thesis by blast
  qed
qed

lemma create_slice_stored:
  assumes run: "run_state (create_slice K cfg svc n (Some p) ports) s = (r, s')" and "at v s"
    and none: "st_slices v (Namespace svc, n) = None" and "addressed p"
  shows "\<exists>y. r = Inr () \<and> at (put_slice_in (Namespace svc, n) (Some y) v) s' \<and>
    Endpoints y = [leader_endpoint (Some p)] \<and> EndpointPorts y = ports \<and>
    AddressType y = address_type (Some p)"
proof -
  obtain q t where get: "run_state (call_api K (DefaultRetry K) (GetService K (Namespace svc, n))
      (CallGetService (Namespace svc, n)) (Namespace svc) (Name svc)
      ''get_leader_service_validation'') s = (q, t)"
    by (metis prod.exhaust)
  note t = conjunct2[OF read_service[OF get \<open>at v s\<close>]]
  let ?z = "new_slice svc n (case q of Inr leaderSvc \<Rightarrow> UID leaderSvc | Inl err \<Rightarrow> '''') (Some p) ports"
  obtain c w where create: "run_state (call_api K (fastRetryConfig cfg) (CreateSlice K ?z)
      (CallCreateSlice ?z) (Namespace svc) (Name svc) ''create_endpointslice'') t = (c, w)"
    by (metis prod.exhaust)
  have key: "object_key ?z = (Namespace svc, n)" by (simp add: object_key_def new_slice_def)
  have "acceptable ?z" by (rule acceptable_leader) (use assms(4) in \<open>simp_all add: new_slice_def\<close>)
  from slice_created[OF create t _ this] none obtain y where c: "c = Inr ()"
    and same: "same_slice ?z y" and w: "at (put_slice_in (Namespace svc, n) (Some y) v) w"
    unfolding key by blast
  let ?rest = "do { recorder \<leftarrow> gets Metrics;
    onlyif (recorder \<noteq> None) (updateResourceTotals K (Namespace svc));
    ret (Inr ()) } :: ('w sys, slice_error + unit) state"
  have rest: "run_state ?rest w = (r, s')"
    using run get create c by (simp add: create_slice_def Let_def)
  have "state_io_rel calm ?rest" by (intro calm_intros calm_totals)
  then have "at (put_slice_in (Namespace svc, n) (Some y) v) s'" using rest w by (rule calm_run)
  moreover have "r = Inr ()" using rest by (simp split: prod.splits)
  ultimately show ?thesis using same by (auto simp: same_slice_def new_slice_def)
qed

lemma patch_slice_stored:
  assumes run: "run_state (patch_slice K cfg svc old (Some p) ports) s = (r, s')" and "at v s"
    and some: "st_slices v k = Some old" and "addressed p" and "AddressType old = address_type (Some p)"
  shows "\<exists>y. r = Inr () \<and> at (put_slice_in k (Some y) v) s' \<and>
    Endpoints y = [leader_endpoint (Some p)] \<and> EndpointPorts y = ports \<and>
    AddressType y = address_type (Some p)"
proof -
  let ?z = "updated_slice old (Some p) ports"
  obtain c w where patch: "run_state (call_api K (fastRetryConfig cfg) (PatchSlice K ?z old)
      (CallPatchSlice ?z old) (Namespace svc) (Name svc) ''patch_endpointslice'') s = (c, w)"
    by (metis prod.exhaust)
  have "object_key old = k"
    using well_keyedD(3)[OF at_keyed[OF \<open>at v s\<close>] some] .
  then have key: "object_key ?z = k" by (simp add: object_key_def updated_slice_def)
  have "acceptable ?z" by (rule acceptable_leader) (use assms(4) in \<open>simp_all add: updated_slice_def\<close>)
  from slice_patched[OF patch \<open>at v s\<close> _ this] some assms(5) obtain y where c: "c = Inr ()"
    and same: "same_slice ?z y" and w: "at (put_slice_in k (Some y) v) w"
    unfolding key by (auto simp: updated_slice_def)
  have "r = Inr ()" and "s' = w"
    using run patch c by (simp_all add: patch_slice_def Let_def)
  then show ?thesis using w same by (auto simp: same_slice_def updated_slice_def)
qed

lemma reconcileEndpointSlice_stored:
  assumes run: "run_state (reconcileEndpointSlice K cfg svc n (Some p) rps) s = (r, s')" and "at v s"
    and "rps \<noteq> []" and ports: "endpoint_ports rps = Inr ports" and "addressed p"
    and fit: "\<And>slice. st_slices v (Namespace svc, n) = Some slice \<Longrightarrow> AddressType slice = address_type (Some p)"
  shows "\<exists>y. r = Inr () \<and> at (put_slice_in (Namespace svc, n) (Some y) v) s' \<and>
    Endpoints y = [leader_endpoint (Some p)] \<and> EndpointPorts y = ports \<and>
    AddressType y = address_type (Some p)"
proof -
  obtain q t where get: "run_state (call_api K (DefaultRetry K) (GetSlice K (Namespace svc, n))
      (CallGetSlice (Namespace svc, n)) (Namespace svc) (Name svc) ''get_endpointslice_reconcile'') s
      = (q, t)"
    by (metis prod.exhaust)
  note q = read_slice[OF get \<open>at v s\<close>]
  show ?thesis
  proof (cases "st_slices v (Namespace svc, n)")
    case None
    then have "run_state (create_slice K cfg svc n (Some p) ports) t = (r, s')"
      using run get q assms(3) ports by (simp add: reconcileEndpointSlice_def is_not_found_def Let_def)
    from create_slice_stored[OF this _ None \<open>addressed p\<close>] q show ?thesis by blast
  next
    case (Some old)
    then have "run_state (patch_slice K cfg svc old (Some p) ports) t = (r, s')"
      using run get q assms(3) ports by (simp add: reconcileEndpointSlice_def Let_def)
    from patch_slice_stored[OF this _ Some \<open>addressed p\<close> fit[OF Some]] q show ?thesis by blast
  qed
qed

lemma reconcileLeaderService_publishes:
  assumes run: "run_state (reconcileLeaderService K cfg svc (Some p)) s = (r, s')" and "at v s"
    and reach: "reachable_by svc p" "fits K v svc p" and host: "hostable K svc" "st_services v k = Some svc"
  shows "\<exists>v'. r = Inr () \<and> published K svc p v v' \<and> at v' s'"
proof -
  obtain rps where rps: "resolution (Some p) (Ports svc) = Some rps" and ip: "addressed p"
    using reach(1) by (auto simp: reachable_by_def simp flip: resolution_pointwise)
  have ne: "rps \<noteq> []" using resolution_length[OF rps] host(1) by (auto simp: hostable_def)
  obtain ports where ports: "endpoint_ports rps = Inr ports"
    using resolved_leader_endpoint_ports[of svc "Some p"] rps by (auto simp: resolved_leader_def)
  obtain x0 t0 where resolved: "run_state (resolve_or_fail K svc (Some p)) s = (x0, t0)"
    by (metis prod.exhaust)
  from resolve_or_fail_resolved[OF this rps] have "x0 = (rps, Some p)" and "t0 = s" by auto
  obtain q t where q: "run_state (write_leader_service K svc (Some p) rps) s = (q, t)"
    by (metis prod.exhaust)
  from write_leader_service_stored[OF this \<open>at v s\<close> host] rps obtain y where "q = Inr ()"
    and t: "at (put_service_in (leader_key K svc) (Some y) v) t" and y: "names_leader (Some p) rps y"
    by (auto simp: resolution_pointwise)
  obtain e u where e: "run_state (reconcileEndpointSlice K cfg svc (getLeaderServiceName K svc)
      (Some p) rps) t = (e, u)"
    by (metis prod.exhaust)
  have "AddressType slice = address_type (Some p)"
    if "st_slices (put_service_in (leader_key K svc) (Some y) v) (leader_key K svc) = Some slice" for slice
    using that reach(2) by (simp add: fits_def)
  from reconcileEndpointSlice_stored[OF e t ne ports ip this] obtain z where "e = Inr ()"
    and u: "at (put_slice_in (leader_key K svc) (Some z)
      (put_service_in (leader_key K svc) (Some y) v)) u"
    and z: "Endpoints z = [leader_endpoint (Some p)]" "EndpointPorts z = ports"
      "AddressType z = address_type (Some p)" by blast
  let ?rest = "do { (if isPodReady p then
        do { metric (RecordLeaderStable (Namespace svc) (Name svc) True);
             metric (RecordLeaderServiceWithoutEndpoints (Namespace svc) (Name svc) False) }
      else
        do { metric (RecordLeaderStable (Namespace svc) (Name svc) False);
             metric (RecordLeaderServiceWithoutEndpoints (Namespace svc) (Name svc) True) });
      ret (Inr ()) } :: ('w sys, leader_error + unit) state"
  have rest: "run_state ?rest u = (r, s')"
    using run resolved \<open>x0 = (rps, Some p)\<close> \<open>t0 = s\<close> q \<open>q = Inr ()\<close> e \<open>e = Inr ()\<close>
    by (simp add: reconcileLeaderService_def record_stability_def)
  have "state_io_rel calm ?rest" by (intro calm_intros)
  then have "at (put_slice_in (leader_key K svc) (Some z)
      (put_service_in (leader_key K svc) (Some y) v)) s'" using rest u by (rule calm_run)
  moreover have "r = Inr ()" using rest by (auto split: if_splits)
  moreover have "routes_to svc p y z"
    using rps y z ports by (auto simp: routes_to_def endpoint_ports_Inr resolution_pointwise)
  ultimately show ?thesis by (auto simp: published_def)
qed

subsection \<open>A run with pods\<close>

text \<open>
  Selection on a calm server: some pod is ready and no time is asked for, so a ready pod is found.
\<close>

lemma selectLeaderPod_finds:
  assumes "run_state (selectLeaderPod K svc pods b) s = (r, s')"
    and "getMinReadyDuration K svc \<le> 0" and "p \<in> set pods" and "isPodReady p"
  shows "\<exists>q. r = Some q \<and> q \<in> set pods \<and> isPodReady q"
proof (cases r)
  case None
  then obtain t where "oldest_choice (getMinReadyDuration K svc) t pods None"
    using selectLeaderPod_choice[OF assms(1)]
    by (auto simp: leader_choice_def split: if_splits prod.splits option.splits)
  with assms(2-4) show ?thesis by (auto simp: oldest_choice_def ready_long_def)
next
  case (Some q)
  with assms(1) show ?thesis by (auto dest: selectLeaderPod_ready)
qed

lemma calm_select: "state_io_rel calm (selectLeaderPod K svc pods b)"
  unfolding selectLeaderPod_def select_fresh_def by (intro calm_intros)

lemma publish_leader_publishes:
  assumes run: "run_state (publish_leader K cfg start svc (Some p)) s = (r, s')" and "at v s"
    and reach: "reachable_by svc p" "fits K v svc p" and host: "hostable K svc" "st_services v k = Some svc"
  shows "\<exists>v'. r = Inr () \<and> published K svc p v v' \<and> at v' s'"
proof -
  obtain q t where q: "run_state (reconcileLeaderService K cfg svc (Some p)) s = (q, t)"
    by (metis prod.exhaust)
  from reconcileLeaderService_publishes[OF this assms(2) reach host] obtain v' where "q = Inr ()"
    and v': "published K svc p v v'" and t: "at v' t" by blast
  let ?rest = "do { record_leader K svc (Some p);
      finish_success K start (object_key svc);
      ret (Inr ()) } :: ('w sys, reconcile_error + unit) state"
  have rest: "run_state ?rest t = (r, s')"
    using run q \<open>q = Inr ()\<close> by (simp add: publish_leader_def)
  have "state_io_rel calm ?rest" by (intro calm_intros calm_records calm_finish)
  then have "at v' s'" using rest t by (rule calm_run)
  moreover have "r = Inr ()" using rest by (simp split: prod.splits)
  ultimately show ?thesis using v' by blast
qed

text \<open>The run after the pods are listed, by the leader that is selected.\<close>

lemma reconcile_pods_steps:
  assumes run: "run_state (reconcile_pods K cfg start svc pods) s = (r, s')" and "at v s"
  obtains current failover t u leader w where
    "run_state (check_current_leader K cfg svc) s = ((current, failover), t)" and "at v t"
    and "at v u" and "leaderPodCache u = leaderPodCache t"
    and "run_state (selectLeaderPod K svc pods (failover \<noteq> None)) u = (leader, w)" and "at v w"
    and "\<exists>x. at v x \<and> (\<forall>p. leader = Some p \<longrightarrow> remembers svc (UID p) x) \<and>
      run_state (publish_leader K cfg start svc leader) x = (r, s')"
proof -
  obtain current failover t where c: "run_state (check_current_leader K cfg svc) s = ((current, failover), t)"
    by (metis prod.exhaust)
  have t: "at v t" using calm_current c \<open>at v s\<close> by (rule calm_run)
  let ?count = "\<lambda>ops. metric ops :: ('w sys, unit) state"
  let ?ops = "RecordLeaderSelectionAttempt (Namespace svc) (Name svc) @
    RecordReconciliation (Namespace svc) (Name svc) ''success''"
  let ?u = "t\<lparr>Metrics := map_option (\<lambda>l. l @ ?ops) (Metrics t)\<rparr>"
  have u: "at v ?u" using t by (simp add: at_def)
  obtain leader w where l: "run_state (selectLeaderPod K svc pods (failover \<noteq> None)) ?u = (leader, w)"
    by (metis prod.exhaust)
  have w: "at v w" using calm_select l u by (rule calm_run)
  have after: "run_state (do { onlyif (leader_changed current leader)
        (record_leader_change K svc current leader failover);
      publish_leader K cfg start svc leader }) w = (r, s')"
    using run c l by (simp add: reconcile_pods_def option.map_comp comp_def)
  have "\<exists>x. at v x \<and> (\<forall>p. leader = Some p \<longrightarrow> remembers svc (UID p) x) \<and>
      run_state (publish_leader K cfg start svc leader) x = (r, s')"
  proof (cases "leader_changed current leader")
    case True
    obtain y x where x: "run_state (record_leader_change K svc current leader failover) w = (y, x)"
      by (metis prod.exhaust)
    have "at v x" using calm_records(1) x w by (rule calm_run)
    moreover have "remembers svc (UID p) x" if "leader = Some p" for p
      using x that by (auto dest: record_leader_change_remembers)
    ultimately show ?thesis using after x True by auto
  next
    case False
    have "remembers svc (UID p) w" if p: "leader = Some p" for p
    proof -
      obtain c' where c': "current = Some c'" and "UID c' = UID p"
        using p False by (auto simp: leader_changed_def split: option.splits)
      with check_current_leader_remembers[OF c[unfolded c']] have "remembers svc (UID p) t" by simp
      moreover have "leaderPodCache w = leaderPodCache ?u"
        using state_io_relD[OF uncached_select l] by (simp add: same_def)
      ultimately show ?thesis using remembers_same[of w t] by simp
    qed
    with w after False show ?thesis by auto
  qed
  then show thesis using that[OF c t u _ l w] by simp
qed

lemma reconcile_pods_publishes:
  assumes run: "run_state (reconcile_pods K cfg start svc pods) s = (r, s')" and "at v s"
    and "getMinReadyDuration K svc \<le> 0" and "p \<in> set pods" and "isPodReady p"
    and reach: "\<And>q. q \<in> set pods \<Longrightarrow> isPodReady q \<Longrightarrow> reachable_by svc q"
      "\<And>q. q \<in> set pods \<Longrightarrow> isPodReady q \<Longrightarrow> fits K v svc q"
    and host: "hostable K svc" "st_services v k = Some svc"
  shows "\<exists>q v'. r = Inr () \<and> q \<in> set pods \<and> isPodReady q \<and> published K svc q v v' \<and> at v' s' \<and>
    remembers svc (UID q) s'"
proof (rule reconcile_pods_steps[OF run \<open>at v s\<close>])
  fix current failover t u leader w
  assume "run_state (selectLeaderPod K svc pods (failover \<noteq> None)) u = (leader, w)"
    and after: "\<exists>x. at v x \<and> (\<forall>q. leader = Some q \<longrightarrow> remembers svc (UID q) x) \<and>
      run_state (publish_leader K cfg start svc leader) x = (r, s')"
  from selectLeaderPod_finds[OF this(1) assms(3-5)] obtain q where q: "leader = Some q"
    "q \<in> set pods" "isPodReady q" by blast
  with after obtain x where x: "at v x" "remembers svc (UID q) x"
    and pub: "run_state (publish_leader K cfg start svc (Some q)) x = (r, s')" by blast
  have "leaderPodCache s' = leaderPodCache x"
    using state_io_relD[OF uncached_publish pub] by (simp add: same_def)
  with x(2) have "remembers svc (UID q) s'" by (simp add: remembers_same[of s' x])
  with publish_leader_publishes[OF pub x(1) reach(1)[OF q(2,3)] reach(2)[OF q(2,3)] host] q
  show ?thesis by blast
qed

subsection \<open>A leader that is in place\<close>

lemma cached_leader_in_place:
  assumes run: "run_state (cached_leader K cfg svc) s = (r, s')" and "at v s"
    and "in_place K v svc p" and "remembers svc (UID p) s"
  shows "(r = None \<or> r = Some p) \<and> at v s'"
proof -
  have "state_io_rel calm (cached_leader K cfg svc)"
    unfolding cached_leader_def by (intro calm_intros)
  then have s': "at v s'" using run \<open>at v s\<close> by (rule calm_run)
  have "c = p" if r: "r = Some c" for c
  proof -
    obtain cached where cached: "Option.bind (leaderPodCache s)
        (\<lambda>c. map_of c (service_key (Namespace svc) (Name svc))) = Some cached"
      using run r by (auto simp: cached_leader_def split: option.splits)
    let ?k = "object_key (clp_pod cached)" and ?s = "s\<lparr>world := snd (Now K (world s))\<rparr>"
    obtain q u where get: "run_state (call_api K (fastRetryConfig cfg) (GetPod K ?k) (CallGetPod ?k)
        (Namespace svc) (Name svc) ''get_pod_cached'') ?s = (q, u)"
      by (metis prod.exhaust)
    have "at v ?s" using \<open>at v s\<close> clock by (simp add: at_def)
    from read_pod[OF get this] have q: "q = found (st_pods v ?k)" by simp
    have "q = Inr c" and "UID c = UID (clp_pod cached)"
      using run cached get r by (auto simp: cached_leader_def run_now Let_def split: if_splits sum.splits)
    then have "st_pods v ?k = Some c" using q by (auto simp: found_def split: option.splits)
    moreover have "UID c = UID p"
      using assms(4) cached \<open>UID c = UID (clp_pod cached)\<close>
      by (auto simp: remembers_def bind_eq_Some_conv)
    ultimately show "c = p"
      using well_keyed_uid[OF at_keyed[OF \<open>at v s\<close>]] assms(3) unfolding in_place_def by blast
  qed
  then show ?thesis using s' by (cases r) auto
qed

lemma current_leader_in_place:
  assumes run: "run_state (check_current_leader K cfg svc) s = (r, s')" and "at v s"
    and place: "in_place K v svc p" and "remembers svc (UID p) s"
  shows "r = (Some p, None)"
proof -
  have healthy: "\<not> unhealthy p" and "UID p \<noteq> ''''" and "PodIP p \<noteq> ''''"
    and stored: "st_pods v (object_key p) = Some p"
    using place by (auto simp: in_place_def unhealthy_def)
  note ref = pod_ref_leader[OF \<open>PodIP p \<noteq> ''''\<close> \<open>UID p \<noteq> ''''\<close>]
  obtain slice where slice: "st_slices v (leader_key K svc) = Some slice"
    and ends: "Endpoints slice = [leader_endpoint (Some p)]"
    using place by (auto simp: in_place_def)
  obtain hit t where hit: "run_state (cached_leader K cfg svc) s = (hit, t)" by (metis prod.exhaust)
  note t = cached_leader_in_place[OF hit \<open>at v s\<close> place assms(4)]
  obtain c u where c: "run_state (getCurrentLeaderPod K cfg svc) s = (c, u)" by (metis prod.exhaust)
  have "c = Some p"
  proof (cases hit)
    case (Some h)
    with t c hit show ?thesis by (simp add: getCurrentLeaderPod_def)
  next
    case None
    obtain q w where get: "run_state (call_api K (fastRetryConfig cfg) (GetSlice K (leader_key K svc))
        (CallGetSlice (leader_key K svc)) (Namespace svc) (Name svc) ''get_endpointslice'') t = (q, w)"
      by (metis prod.exhaust)
    from read_slice[OF get conjunct2[OF t]] slice have q: "q = Inr slice" and w: "at v w" by auto
    let ?k = "(Namespace p, Name p)"
    obtain a x where pod: "run_state (call_api K (fastRetryConfig cfg) (GetPod K ?k) (CallGetPod ?k)
        (Namespace svc) (Name svc) ''get_pod'') w = (a, x)"
      by (metis prod.exhaust)
    have "a = Inr p" using read_pod[OF pod w] stored by (simp add: object_key_def)
    then have "fst (run_state (slice_leader K cfg svc (Endpoints slice)) w) = Some p"
      using pod by (simp add: ends ref Let_def split: prod.splits)
    then show ?thesis
      using c hit None get q by (auto simp: getCurrentLeaderPod_def split: prod.splits option.splits)
  qed
  with run c healthy show ?thesis by (simp add: check_current_leader_def)
qed

lemma selectLeaderPod_keeps:
  assumes run: "run_state (selectLeaderPod K svc pods False) s = (r, s')" and "at v s"
    and place: "in_place K v svc p" and "is_sticky svc"
    and pods: "set pods = selected_pods K v (Namespace svc) (Selector svc)" and "p \<in> set pods"
  shows "r = Some p"
proof -
  obtain slice where slice: "st_slices v (leader_key K svc) = Some slice"
    and ends: "Endpoints slice = [leader_endpoint (Some p)]"
    using place by (auto simp: in_place_def)
  have p: "UID p \<noteq> ''''" "PodIP p \<noteq> ''''" "isPodReady p" "st_pods v (object_key p) = Some p"
    using place by (auto simp: in_place_def unhealthy_def)
  obtain q t where get: "run_state (call_api K (DefaultRetry K) (GetSlice K (leader_key K svc))
      (CallGetSlice (leader_key K svc)) (Namespace svc) (Name svc) ''get_endpointslice_sticky'') s = (q, t)"
    by (metis prod.exhaust)
  from read_slice[OF get \<open>at v s\<close>] slice have q: "q = Inr slice" by simp
  have "c = p" if "c \<in> set pods" and "UID c = UID p" for c
    using well_keyed_uid[OF at_keyed[OF \<open>at v s\<close>] _ p(4), of "object_key c" c] that pods
    by (auto simp: selected_pods_def)
  then have "List.find (\<lambda>c. UID c = UID p) pods = Some p"
    using \<open>p \<in> set pods\<close> by (cases "List.find (\<lambda>c. UID c = UID p) pods")
      (auto dest: find_SomeD simp: find_None_iff)
  then have "sticky_pod (Endpoints slice) pods = Some p"
    using p by (simp add: ends pod_ref_leader)
  with run get q \<open>is_sticky svc\<close> show ?thesis by (simp add: selectLeaderPod_def)
qed

lemma reconcile_pods_keeps:
  assumes run: "run_state (reconcile_pods K cfg start svc pods) s = (r, s')" and "at v s"
    and place: "in_place K v svc p" and "remembers svc (UID p) s" and "is_sticky svc"
    and pods: "set pods = selected_pods K v (Namespace svc) (Selector svc)" and "p \<in> set pods"
    and reach: "reachable_by svc p" "fits K v svc p" and host: "hostable K svc" "st_services v k = Some svc"
  shows "\<exists>v'. r = Inr () \<and> published K svc p v v' \<and> at v' s' \<and> remembers svc (UID p) s'"
proof (rule reconcile_pods_steps[OF run \<open>at v s\<close>])
  fix current failover t u leader w
  assume c: "run_state (check_current_leader K cfg svc) s = ((current, failover), t)"
    and u: "at v u"
    and l: "run_state (selectLeaderPod K svc pods (failover \<noteq> None)) u = (leader, w)"
    and after: "\<exists>x. at v x \<and> (\<forall>q. leader = Some q \<longrightarrow> remembers svc (UID q) x) \<and>
      run_state (publish_leader K cfg start svc leader) x = (r, s')"
  have "failover = None" using current_leader_in_place[OF c \<open>at v s\<close> place assms(4)] by simp
  with l have "leader = Some p" using selectLeaderPod_keeps[OF _ u place assms(5) pods \<open>p \<in> set pods\<close>]
    by simp
  with after obtain x where x: "at v x" "remembers svc (UID p) x"
    and pub: "run_state (publish_leader K cfg start svc (Some p)) x = (r, s')" by blast
  have "leaderPodCache s' = leaderPodCache x"
    using state_io_relD[OF uncached_publish pub] by (simp add: same_def)
  with x(2) have "remembers svc (UID p) s'" by (simp add: remembers_same[of s' x])
  with publish_leader_publishes[OF pub x(1) reach host] show ?thesis by blast
qed

subsection \<open>Reconcile on a calm server\<close>

lemma Reconcile_reaches_pods:
  assumes run: "run_state (Reconcile K cfg req) s = (r, s')" and "at v s"
    and srv: "admitted K req svc v"
  obtains start pods t where "set pods = selected_pods K v (Namespace svc) (Selector svc)"
    and "at v t" and "leaderPodCache t = leaderPodCache s"
    and "run_state (if pods = [] then reconcile_no_pods K cfg start svc
      else reconcile_pods K cfg start svc pods) t = (r, s')"
proof -
  obtain start s1 where clk: "run_state (now K) s = (start, s1)" by (metis prod.exhaust)
  have s1: "at v s1" and cache1: "leaderPodCache s1 = leaderPodCache s"
    using clk \<open>at v s\<close> clock by (auto simp: run_now at_def)
  obtain q s2 where get: "run_state (call_api K (DefaultRetry K) (GetService K req) (CallGetService req)
      (fst req) (snd req) ''get_service'') s1 = (q, s2)"
    by (metis prod.exhaust)
  have q: "q = Inr svc" and s2: "at v s2"
    using read_service[OF get s1] srv by (auto simp: admitted_def)
  have key: "object_key svc = req"
    using well_keyedD(1)[OF at_keyed[OF \<open>at v s\<close>]] srv by (auto simp: admitted_def)
  obtain x s3 where upd: "run_state (updateOptedInServicesCacheForService K svc) s2 = (x, s3)"
    by (metis prod.exhaust)
  have s3: "at v s3" using calm_opted upd s2 by (rule calm_run)
  have "state_io_rel (same leaderPodCache) (updateOptedInServicesCacheForService K svc)"
    unfolding updateOptedInServicesCacheForService_def set_opted_def
    by (intro uncached_intros fixed.keeps_modify) (simp_all add: same_def)
  then have cache3: "leaderPodCache s3 = leaderPodCache s2"
    using upd by (auto simp: same_def dest: state_io_relD)
  obtain l s4 where list: "run_state (call_api K (DefaultRetry K)
      (ListPods K (Namespace svc) (Selector svc)) (CallListPods (Namespace svc) (Selector svc))
      (Namespace svc) (Name svc) ''list_pods'') s3 = (l, s4)"
    by (metis prod.exhaust)
  from read_pods[OF list s3] obtain pods where l: "l = Inr pods"
    and pods: "set pods = selected_pods K v (Namespace svc) (Selector svc)" and s4: "at v s4" by blast
  let ?ops = "RecordPodsAvailable (Namespace svc) (Name svc) (length (filter isPodReady pods))"
  let ?t = "s4\<lparr>Metrics := map_option (\<lambda>l. l @ ?ops) (Metrics s4)\<rparr>"
  have "at v ?t" using s4 by (simp add: at_def)
  moreover have "leaderPodCache ?t = leaderPodCache s"
    using call_api_frame(2)[OF get] call_api_frame(2)[OF list] cache1 cache3 by simp
  moreover have "run_state (if pods = [] then reconcile_no_pods K cfg start svc
      else reconcile_pods K cfg start svc pods) ?t = (r, s')"
    using run clk get q upd list l srv
    by (simp add: Reconcile_def reconcile_enabled_def admitted_def)
  ultimately show thesis using that pods by blast
qed

lemma Reconcile_reaches_serviceable:
  assumes run: "run_state (Reconcile K cfg req) s = (r, s')" and "at v s"
    and srv: "serviceable K req svc v"
  obtains start pods t where "set pods = selected_pods K v (Namespace svc) (Selector svc)"
    and "at v t" and "leaderPodCache t = leaderPodCache s"
    and "run_state (reconcile_pods K cfg start svc pods) t = (r, s')"
proof -
  have "admitted K req svc v" using srv by (simp add: serviceable_def)
  then show thesis
  proof (rule Reconcile_reaches_pods[OF run \<open>at v s\<close>])
    fix start pods t
    assume pods: "set pods = selected_pods K v (Namespace svc) (Selector svc)"
      and t: "at v t" "leaderPodCache t = leaderPodCache s"
      and r: "run_state (if pods = [] then reconcile_no_pods K cfg start svc
        else reconcile_pods K cfg start svc pods) t = (r, s')"
    obtain p where "p \<in> set pods" using serviceable_candidate[OF srv] pods by blast
    then have "pods \<noteq> []" by auto
    with r have "run_state (reconcile_pods K cfg start svc pods) t = (r, s')" by simp
    with pods t show thesis by (rule that)
  qed
qed

text \<open>From any state a run serves a Service that can be served.\<close>

lemma Reconcile_settles:
  assumes run: "run_state (Reconcile K cfg req) s = (r, s')" and "at v s"
    and srv: "serviceable K req svc v"
  shows "\<exists>p v'. r = Inr () \<and> published K svc p v v' \<and> settled K req svc p v' \<and> at v' s' \<and>
    remembers svc (UID p) s'"
proof (rule Reconcile_reaches_serviceable[OF assms])
  fix start pods t
  assume pods: "set pods = selected_pods K v (Namespace svc) (Selector svc)" and t: "at v t"
    and r: "run_state (reconcile_pods K cfg start svc pods) t = (r, s')"
  obtain p where p: "p \<in> set pods" "isPodReady p" using serviceable_candidate[OF srv] pods by blast
  have hyps: "getMinReadyDuration K svc \<le> 0" "hostable K svc" "st_services v req = Some svc"
    using srv by (simp_all add: serviceable_def admitted_def)
  have "reachable_by svc q \<and> fits K v svc q" if "q \<in> set pods" and "isPodReady q" for q
    by (rule serviceable_fits[OF srv]) (simp add: that pods[symmetric])
  then obtain q v' where q: "r = Inr ()" "q \<in> set pods" "isPodReady q"
    "published K svc q v v'" "at v' s'" "remembers svc (UID q) s'"
    using reconcile_pods_publishes[OF r t hyps(1) p _ _ hyps(2,3)] by blast
  have "settled K req svc q v'" by (rule published_settled[OF q(4) srv]) (use q pods in simp)
  with q show ?thesis by blast
qed

text \<open>Once it is served, further runs keep the leader.\<close>

lemma Reconcile_keeps:
  assumes run: "run_state (Reconcile K cfg req) s = (r, s')" and "at v s"
    and set: "settled K req svc p v" and "remembers svc (UID p) s" and "is_sticky svc"
    and "UID p \<noteq> ''''" and "DeletionTimestamp p = None"
  shows "\<exists>v'. r = Inr () \<and> published K svc p v v' \<and> settled K req svc p v' \<and> at v' s' \<and>
    remembers svc (UID p) s'"
proof -
  have srv: "serviceable K req svc v" using set by (simp add: settled_def)
  show ?thesis
  proof (rule Reconcile_reaches_serviceable[OF run \<open>at v s\<close> srv])
    fix start pods t
    assume pods: "set pods = selected_pods K v (Namespace svc) (Selector svc)" and t: "at v t"
      and cache: "leaderPodCache t = leaderPodCache s"
      and r: "run_state (reconcile_pods K cfg start svc pods) t = (r, s')"
    have p: "p \<in> candidates K v svc" and host: "hostable K svc" "st_services v req = Some svc"
      using set srv by (simp_all add: settled_def serviceable_def admitted_def)
    have "fits K v svc p" and "p \<in> set pods" using srv p pods by (auto simp: serviceable_def)
    have "remembers svc (UID p) t" using assms(4) cache by (simp add: remembers_same[of t s])
    then obtain v' where "r = Inr ()" "published K svc p v v'" "at v' s'" "remembers svc (UID p) s'"
      using reconcile_pods_keeps[OF r t settled_in_place(1)[OF set assms(6,7)] _ \<open>is_sticky svc\<close> pods
          \<open>p \<in> set pods\<close> settled_in_place(2)[OF set assms(6,7)] \<open>fits K v svc p\<close> host] by blast
    with published_settled[OF _ srv p] show ?thesis by blast
  qed
qed

text \<open>Any number of runs, one after the other.\<close>

lemma Reconcile_keeps_running:
  assumes "at v s" and "settled K req svc p v" and "remembers svc (UID p) s" and "is_sticky svc"
    and "UID p \<noteq> ''''" and "DeletionTimestamp p = None"
  shows "\<exists>v'. at v' (reconciled K cfg req n s) \<and>
    settled K req svc p v' \<and>
    remembers svc (UID p) (reconciled K cfg req n s)"
proof (induction n)
  case 0
  then show ?case using assms by auto
next
  case (Suc n)
  then obtain v' where v': "at v' (reconciled K cfg req n s)"
    "settled K req svc p v'"
    "remembers svc (UID p) (reconciled K cfg req n s)" by blast
  obtain r s' where run: "run_state (Reconcile K cfg req)
      (reconciled K cfg req n s) = (r, s')"
    by (metis prod.exhaust)
  from Reconcile_keeps[OF run v' assms(4-6)] run show ?case by auto
qed

subsection \<open>Clean-up on a calm server\<close>

lemma cleanup_of_service:
  assumes run: "run_state (cleanupLeaderResources K req) s = (r, s')" and "at v s"
    and svc: "st_services v req = Some svc"
  shows "r = Inr () \<and> at (put_service_in (fst req, getLeaderServiceName K svc) None v) s'"
proof -
  let ?k = "(fst req, getLeaderServiceName K svc)"
  obtain q t where get: "run_state (call_api K (DefaultRetry K) (GetService K req) (CallGetService req)
      (fst req) (snd req) ''get_service_cleanup'') s = (q, t)"
    by (metis prod.exhaust)
  have q: "q = Inr svc" and t: "at v t" using read_service[OF get \<open>at v s\<close>] svc by auto
  obtain l u where get2: "run_state (call_api K (DefaultRetry K) (GetService K ?k) (CallGetService ?k)
      (fst req) (snd req) ''get_leader_service_cleanup'') t = (l, u)"
    by (metis prod.exhaust)
  note l = read_service[OF get2 t]
  show ?thesis
  proof (cases "st_services v ?k")
    case None
    then have "put_service_in ?k None v = v" by (cases v) (auto simp: fun_eq_iff)
    moreover have "r = Inr ()" and "s' = u"
      using run get q get2 l None by (simp_all add: cleanupLeaderResources_def Let_def)
    ultimately show ?thesis using l by simp
  next
    case (Some x)
    have key: "object_key x = ?k" using well_keyedD(1)[OF at_keyed[OF \<open>at v s\<close>] Some] .
    obtain d w where del: "run_state (call_api K (DefaultRetry K) (DeleteService K x)
        (CallDeleteService x) (fst req) (snd req) ''delete_leader_service'') u = (d, w)"
      by (metis prod.exhaust)
    have "d = Inr () \<and> at (put_service_in ?k None v) w"
      using service_deleted[OF del] l key Some by auto
    moreover have "s' = w" and "r = (case d of Inl err \<Rightarrow> Inl (DeleteLeaderServiceFailed err) | Inr done \<Rightarrow> Inr ())"
      using run get q get2 l Some del by (simp_all add: cleanupLeaderResources_def Let_def)
    ultimately show ?thesis by simp
  qed
qed

lemma Reconcile_cleans_disabled:
  assumes run: "run_state (Reconcile K cfg req) s = (r, s')" and "at v s"
    and svc: "st_services v req = Some svc" and "\<not> zen_lead_enabled svc"
  shows "r = Inr () \<and> at (put_service_in (fst req, getLeaderServiceName K svc) None v) s'"
proof -
  obtain start s1 where clk: "run_state (now K) s = (start, s1)" by (metis prod.exhaust)
  have s1: "at v s1" using clk \<open>at v s\<close> clock by (auto simp: run_now at_def)
  obtain q s2 where get: "run_state (call_api K (DefaultRetry K) (GetService K req) (CallGetService req)
      (fst req) (snd req) ''get_service'') s1 = (q, s2)"
    by (metis prod.exhaust)
  have q: "q = Inr svc" and s2: "at v s2" using read_service[OF get s1] svc by auto
  obtain x s3 where upd: "run_state (updateOptedInServicesCacheForService K svc) s2 = (x, s3)"
    by (metis prod.exhaust)
  have s3: "at v s3" using calm_opted upd s2 by (rule calm_run)
  obtain c s4 where c: "run_state (cleanupLeaderResources K req) s3 = (c, s4)" by (metis prod.exhaust)
  note cleaned = cleanup_of_service[OF c s3 svc]
  obtain y s5 where fin: "run_state (finish_success K start (fst req, Name svc)) s4 = (y, s5)"
    by (metis prod.exhaust)
  have "at (put_service_in (fst req, getLeaderServiceName K svc) None v) s5"
    using calm_finish(2) fin conjunct2[OF cleaned] by (rule calm_run)
  moreover have "r = c" and "s' = s5"
    using run clk get q assms(4) upd c fin by (simp_all add: Reconcile_def reconcile_disabled_def)
  ultimately show ?thesis using cleaned by simp
qed

text \<open>The contents without the services \<open>gone\<close>.\<close>

lemma delete_listed_deletes:
  assumes "run_state (delete_listed K req items) s = (x, s')" and "at v s"
    and "distinct (map object_key items)" and "\<And>i. i \<in> set items \<Longrightarrow> st_services v (object_key i) = Some i"
  shows "at (v\<lparr>st_services := (\<lambda>k. if k \<in> object_key ` set items then None else st_services v k)\<rparr>) s'"
  using assms
proof (induction items arbitrary: s v)
  case Nil
  then show ?case by simp
next
  case (Cons i items)
  obtain d t where del: "run_state (call_api K (DefaultRetry K) (DeleteService K i) (CallDeleteService i)
      (fst req) (snd req) ''delete_leader_service_by_label'') s = (d, t)"
    by (metis prod.exhaust)
  let ?v = "put_service_in (object_key i) None v"
  have t: "at ?v t" using service_deleted[OF del Cons.prems(2)] Cons.prems(4)[of i] by simp
  have rest: "run_state (delete_listed K req items) t = (x, s')" using Cons.prems(1) del by simp
  have "st_services ?v (object_key j) = Some j" if "j \<in> set items" for j
  proof -
    have "object_key i \<notin> object_key ` set items" using Cons.prems(3) by simp
    with that have "object_key j \<noteq> object_key i" by (metis imageI)
    then show ?thesis using Cons.prems(4)[of j] that by simp
  qed
  from Cons.IH[OF rest t _ this] Cons.prems(3)
  have "at (?v\<lparr>st_services := (\<lambda>k. if k \<in> object_key ` set items then None else st_services ?v k)\<rparr>) s'"
    by simp
  moreover have "(\<lambda>k. if k \<in> object_key ` set items then None else st_services ?v k) =
      (\<lambda>k. if k \<in> object_key ` set (i # items) then None else st_services v k)"
    by (auto simp: fun_eq_iff)
  ultimately show ?case by simp
qed

lemma cleanup_of_gone:
  assumes run: "run_state (cleanupLeaderResources K req) s = (r, s')" and "at v s"
    and gone: "st_services v req = None"
  shows "r = Inr () \<and> at (v\<lparr>st_services := (\<lambda>k.
    if k \<in> object_key ` selected_services K v (fst req) (source_labels (snd req)) then None
    else st_services v k)\<rparr>) s'"
proof -
  obtain q t where get: "run_state (call_api K (DefaultRetry K) (GetService K req) (CallGetService req)
      (fst req) (snd req) ''get_service_cleanup'') s = (q, t)"
    by (metis prod.exhaust)
  have q: "q = Inl NotFound" and t: "at v t" using read_service[OF get \<open>at v s\<close>] gone by auto
  let ?sel = "source_labels (snd req)"
  obtain l u where list: "run_state (call_api K (DefaultRetry K) (ListServices K (fst req) ?sel)
      (CallListServices (fst req) ?sel) (fst req) (snd req) ''list_leader_services_cleanup'') t = (l, u)"
    by (metis prod.exhaust)
  from read_services[OF list t] obtain items where l: "l = Inr items"
    and items: "set items = selected_services K v (fst req) ?sel" "distinct (map object_key items)"
    and u: "at v u" by blast
  obtain x w where del: "run_state (delete_listed K req items) u = (x, w)" by (metis prod.exhaust)
  have "st_services v (object_key i) = Some i" if "i \<in> set items" for i
    using that items(1) by (simp add: selected_services_def)
  from delete_listed_deletes[OF del u items(2) this] items(1)
  have "at (v\<lparr>st_services := (\<lambda>k.
      if k \<in> object_key ` selected_services K v (fst req) ?sel then None else st_services v k)\<rparr>) w"
    by simp
  moreover have "r = Inr ()" and "s' = w"
    using run get q list l del by (simp_all add: cleanupLeaderResources_def)
  ultimately show ?thesis by simp
qed

lemma Reconcile_cleans_gone:
  assumes run: "run_state (Reconcile K cfg req) s = (r, s')" and "at v s"
    and gone: "st_services v req = None"
  shows "r = Inr () \<and> at (v\<lparr>st_services := (\<lambda>k.
    if k \<in> object_key ` selected_services K v (fst req) (source_labels (snd req)) then None
    else st_services v k)\<rparr>) s'"
proof -
  obtain start s1 where clk: "run_state (now K) s = (start, s1)" by (metis prod.exhaust)
  have s1: "at v s1" using clk \<open>at v s\<close> clock by (auto simp: run_now at_def)
  obtain q s2 where get: "run_state (call_api K (DefaultRetry K) (GetService K req) (CallGetService req)
      (fst req) (snd req) ''get_service'') s1 = (q, s2)"
    by (metis prod.exhaust)
  have q: "q = Inl NotFound" and s2: "at v s2" using read_service[OF get s1] gone by auto
  obtain x s3 where upd: "run_state (updateOptedInServicesCache K cfg (fst req)) s2 = (x, s3)"
    by (metis prod.exhaust)
  have s3: "at v s3" using calm_refresh upd s2 by (rule calm_run)
  obtain c s4 where c: "run_state (cleanupLeaderResources K req) s3 = (c, s4)" by (metis prod.exhaust)
  note cleaned = cleanup_of_gone[OF c s3 gone]
  obtain y s5 where fin: "run_state (finish_success K start req) s4 = (y, s5)" by (metis prod.exhaust)
  have "at (v\<lparr>st_services := (\<lambda>k.
      if k \<in> object_key ` selected_services K v (fst req) (source_labels (snd req)) then None
      else st_services v k)\<rparr>) s5"
    using calm_finish(2) fin conjunct2[OF cleaned] by (rule calm_run)
  moreover have "r = c" and "s' = s5"
    using run clk get q upd c fin by (simp_all add: Reconcile_def reconcile_unread_def is_not_found_def)
  ultimately show ?thesis using cleaned by simp
qed

end

context api_server
begin

text \<open>A run, and any number of runs after it, serve the Service by one and the same pod.\<close>

lemma Reconcile_serves_on:
  assumes "at v s" and srv: "serviceable K req svc v" and "is_sticky svc"
    and alive: "\<And>p. p \<in> candidates K v svc \<Longrightarrow> UID p \<noteq> '''' \<and> DeletionTimestamp p = None"
  shows "\<exists>p. p \<in> candidates K v svc \<and>
    (\<forall>n. \<exists>v'. at v' (reconciled K cfg req (Suc n) s) \<and> settled K req svc p v')"
proof -
  obtain r s' where run: "run_state (Reconcile K cfg req) s = (r, s')" by (metis prod.exhaust)
  from Reconcile_settles[OF run \<open>at v s\<close> srv] obtain p v' where pub: "published K svc p v v'"
    and set: "settled K req svc p v'" and s': "at v' s'" and mem: "remembers svc (UID p) s'" by blast
  have "selected_pods K v' n sel = selected_pods K v n sel" for n sel
    using pub by (auto simp: published_def selected_pods_def)
  then have p: "p \<in> candidates K v svc" using set by (simp add: settled_def)
  have "\<exists>u. at u (reconciled K cfg req (Suc n) s) \<and> settled K req svc p u" for n
    using Reconcile_keeps_running[OF s' set mem \<open>is_sticky svc\<close>] alive[OF p]
    unfolding reconciled_first run by fastforce
  with p show ?thesis by blast
qed

end

subsection \<open>A server that refuses the slice\<close>

text \<open>
  The slice for the selected leader is one the server refuses: without a leader its endpoint has no
  address, and with one the type of addresses of the stored slice would change.
\<close>

definition plain_ports :: "service \<Rightarrow> bool" where
  "plain_ports svc \<longleftrightarrow> list_all (\<lambda>p. \<exists>i. TargetPort p = IntPort i) (Ports svc)"

definition stuck :: "'w kube \<Rightarrow> nsname \<Rightarrow> service \<Rightarrow> store \<Rightarrow> bool" where
  "stuck K req svc v \<longleftrightarrow>
     admitted K req svc v \<and> leader_key K svc \<noteq> req \<and> hostable K svc \<and> plain_ports svc \<and>
     (\<forall>p. p \<in> candidates K v svc \<longrightarrow> \<not> fits K v svc p)"

abbreviation refused :: "'w kube \<Rightarrow> store \<Rightarrow> service \<Rightarrow> pod option \<Rightarrow> bool" where
  "refused K v svc leader \<equiv> (\<forall>p. leader = Some p \<longrightarrow> \<not> fits K v svc p)"

lemma plain_ports_resolve: "plain_ports svc \<Longrightarrow> resolution leader (Ports svc) = Some (Ports svc)"
proof -
  assume "plain_ports svc"
  then have "list_all2 (resolves_to leader) (Ports svc) (Ports svc)"
    by (auto simp: plain_ports_def list_all2_conv_all_nth list_all_length resolves_to_def
        split: int_or_string.splits)
  then show ?thesis by (simp add: resolution_pointwise)
qed

lemma stuck_put_service:
  assumes "stuck K req svc v"
  shows "stuck K req svc (put_service_in (leader_key K svc) (Some y) v)"
proof -
  have "selected_pods K (put_service_in k x v) n sel = selected_pods K v n sel" for k x n sel
    by (simp add: selected_pods_def)
  with assms show ?thesis by (auto simp: stuck_def admitted_def fits_def)
qed

context validating_server
begin

lemma reconcileEndpointSlice_refused:
  assumes run: "run_state (reconcileEndpointSlice K cfg svc (getLeaderServiceName K svc) leader rps) s = (r, s')"
    and "at v s" and "rps \<noteq> []" and ports: "endpoint_ports rps = Inr ports" and refused: "refused K v svc leader"
  shows "\<exists>e. r = Inl e \<and> at v s'"
proof -
  let ?n = "getLeaderServiceName K svc"
  obtain q t where get: "run_state (call_api K (DefaultRetry K) (GetSlice K (leader_key K svc))
      (CallGetSlice (leader_key K svc)) (Namespace svc) (Name svc) ''get_endpointslice_reconcile'') s
      = (q, t)"
    by (metis prod.exhaust)
  note q = read_slice[OF get \<open>at v s\<close>]
  have empty: "\<not> acceptable z" if "leader = None" "Endpoints z = [leader_endpoint leader]" for z
    using that by (simp add: acceptable_def leader_endpoint_def)
  show ?thesis
  proof (cases "st_slices v (leader_key K svc)")
    case None
    then have "leader = None" using refused by (cases leader) (auto simp: fits_def)
    have run': "run_state (create_slice K cfg svc ?n leader ports) t = (r, s')"
      using run get q assms(3) ports None
      by (simp add: reconcileEndpointSlice_def is_not_found_def Let_def)
    obtain o' u where own: "run_state (call_api K (DefaultRetry K) (GetService K (leader_key K svc))
        (CallGetService (leader_key K svc)) (Namespace svc) (Name svc)
        ''get_leader_service_validation'') t = (o', u)"
      by (metis prod.exhaust)
    have u: "at v u" using read_service[OF own] q by blast
    let ?z = "new_slice svc ?n (case o' of Inr leaderSvc \<Rightarrow> UID leaderSvc | Inl err \<Rightarrow> '''') leader ports"
    obtain c w where create: "run_state (call_api K (fastRetryConfig cfg) (CreateSlice K ?z)
        (CallCreateSlice ?z) (Namespace svc) (Name svc) ''create_endpointslice'') u = (c, w)"
      by (metis prod.exhaust)
    from slice_refused[OF create u empty[OF \<open>leader = None\<close>]] obtain e where "c = Inl e" and "at v w"
      by (auto simp: new_slice_def)
    then show ?thesis using run' own create by (auto simp: create_slice_def Let_def at_def)
  next
    case (Some old)
    have run': "run_state (patch_slice K cfg svc old leader ports) t = (r, s')"
      using run get q assms(3) ports Some by (simp add: reconcileEndpointSlice_def Let_def)
    let ?z = "updated_slice old leader ports"
    have "\<not> acceptable ?z \<or> AddressType ?z \<noteq> AddressType old"
    proof (cases leader)
      case None
      then show ?thesis using empty by (simp add: updated_slice_def)
    next
      case (Some p)
      with refused \<open>st_slices v (leader_key K svc) = Some old\<close> show ?thesis
        by (auto simp: fits_def updated_slice_def)
    qed
    moreover obtain c w where patch: "run_state (call_api K (fastRetryConfig cfg) (PatchSlice K ?z old)
        (CallPatchSlice ?z old) (Namespace svc) (Name svc) ''patch_endpointslice'') t = (c, w)"
      by (metis prod.exhaust)
    ultimately obtain e where "c = Inl e" and "at v w" using slice_change_refused[OF patch] q by blast
    then show ?thesis using run' patch by (auto simp: patch_slice_def Let_def at_def)
  qed
qed

lemma reconcileLeaderService_refused:
  assumes run: "run_state (reconcileLeaderService K cfg svc leader) s = (r, s')" and "at v s"
    and ports: "plain_ports svc" and host: "hostable K svc" "st_services v k = Some svc"
    and refused: "refused K v svc leader"
  shows "\<exists>e y. r = Inl e \<and> at (put_service_in (leader_key K svc) (Some y) v) s'"
proof -
  let ?rps = "Ports svc"
  note rps = plain_ports_resolve[OF ports, of leader]
  obtain q0 t0 where res: "run_state (resolve_or_fail K svc leader) s = (q0, t0)"
    by (metis prod.exhaust)
  have "q0 = (?rps, leader) \<and> t0 = s" using resolve_or_fail_resolved[OF res rps] .
  obtain eps where eps: "endpoint_ports ?rps = Inr eps"
    using resolved_leader_endpoint_ports[of svc leader] rps by (auto simp: resolved_leader_def)
  have ne: "?rps \<noteq> []" using host(1) by (simp add: hostable_def)
  obtain q t where q: "run_state (write_leader_service K svc leader ?rps) s = (q, t)"
    by (metis prod.exhaust)
  from write_leader_service_stored[OF this \<open>at v s\<close> host] rps obtain y where "q = Inr ()"
    and t: "at (put_service_in (leader_key K svc) (Some y) v) t"
    by (auto simp: resolution_pointwise)
  obtain e u where e: "run_state (reconcileEndpointSlice K cfg svc (getLeaderServiceName K svc)
      leader ?rps) t = (e, u)"
    by (metis prod.exhaust)
  have "refused K (put_service_in (leader_key K svc) (Some y) v) svc leader"
    using refused by (simp add: fits_def)
  from reconcileEndpointSlice_refused[OF e t ne eps this] obtain err where "e = Inl err"
    and "at (put_service_in (leader_key K svc) (Some y) v) u" by blast
  then show ?thesis
    using run res \<open>q0 = (?rps, leader) \<and> t0 = s\<close> q \<open>q = Inr ()\<close> e
    by (auto simp: reconcileLeaderService_def record_stability_def)
qed

lemma finish_refused:
  assumes "run_state (do { finish_error K start n why; ret (Inl (LeaderServiceFailed err)) }) s = (r, s')"
    and "at v s"
  shows "r = Inl (LeaderServiceFailed err) \<and> at v s'"
  using assms calm_run[OF calm_finish(1) _ \<open>at v s\<close>] by (auto split: prod.splits)

text \<open>
  A publication of \<open>leader\<close> from the contents \<open>v\<close> fails and leaves contents with \<open>Q\<close>; then so does a run
  that publishes one of such leaders.
\<close>

definition fails :: "director_config \<Rightarrow> service \<Rightarrow> store \<Rightarrow> (store \<Rightarrow> bool) \<Rightarrow> pod option \<Rightarrow> bool" where
  "fails cfg svc v Q leader \<longleftrightarrow>
     (\<forall>s r s'. at v s \<longrightarrow> run_state (reconcileLeaderService K cfg svc leader) s = (r, s') \<longrightarrow>
        (\<exists>e v'. r = Inl e \<and> Q v' \<and> at v' s'))"

lemma failsD:
  "fails cfg svc v Q leader \<Longrightarrow> run_state (reconcileLeaderService K cfg svc leader) s = (r, s') \<Longrightarrow>
   at v s \<Longrightarrow> \<exists>e v'. r = Inl e \<and> Q v' \<and> at v' s'"
  unfolding fails_def by blast

lemma publish_leader_fails:
  assumes run: "run_state (publish_leader K cfg start svc leader) s = (r, s')" and "at v s"
    and fails: "fails cfg svc v Q leader"
  shows "\<exists>e v'. r = Inl e \<and> Q v' \<and> at v' s'"
proof -
  obtain q t where q: "run_state (reconcileLeaderService K cfg svc leader) s = (q, t)"
    by (metis prod.exhaust)
  from failsD[OF fails q \<open>at v s\<close>] obtain e v' where "q = Inl e" and "Q v'" and t: "at v' t" by blast
  then show ?thesis using finish_refused[OF _ t] run q by (fastforce simp: publish_leader_def)
qed

lemma reconcile_no_pods_fails:
  assumes run: "run_state (reconcile_no_pods K cfg start svc) s = (r, s')" and "at v s"
    and fails: "fails cfg svc v Q None"
  shows "\<exists>e v'. r = Inl e \<and> Q v' \<and> at v' s'"
proof -
  obtain x u where x: "run_state (emit_event svc EventTypeWarning ''NoPodsFound'') s = (x, u)"
    by (metis prod.exhaust)
  have u: "at v u" using calm_updates(1) x \<open>at v s\<close> by (rule calm_run)
  obtain q t where q: "run_state (reconcileLeaderService K cfg svc None) u = (q, t)"
    by (metis prod.exhaust)
  from failsD[OF fails q u] obtain e v' where "q = Inl e" and "Q v'" and t: "at v' t" by blast
  then show ?thesis using finish_refused[OF _ t] run x q by (fastforce simp: reconcile_no_pods_def)
qed

lemma Reconcile_fails:
  assumes run: "run_state (Reconcile K cfg req) s = (r, s')" and "at v s"
    and adm: "admitted K req svc v"
    and fails: "\<And>leader. (\<forall>p. leader = Some p \<longrightarrow> p \<in> candidates K v svc) \<Longrightarrow> fails cfg svc v Q leader"
  shows "\<exists>e v'. r = Inl e \<and> Q v' \<and> at v' s'"
proof (rule Reconcile_reaches_pods[OF run \<open>at v s\<close> adm])
  fix start pods t
  assume pods: "set pods = selected_pods K v (Namespace svc) (Selector svc)" and t: "at v t"
    and r: "run_state (if pods = [] then reconcile_no_pods K cfg start svc
      else reconcile_pods K cfg start svc pods) t = (r, s')"
  show ?thesis
  proof (cases "pods = []")
    case True
    with r reconcile_no_pods_fails[OF _ t] fails[of None] show ?thesis by simp
  next
    case False
    with r have "run_state (reconcile_pods K cfg start svc pods) t = (r, s')" by simp
    then show ?thesis
    proof (rule reconcile_pods_steps[OF _ t])
      fix failover u leader w
      assume l: "run_state (selectLeaderPod K svc pods (failover \<noteq> None)) u = (leader, w)"
        and "\<exists>x. at v x \<and> (\<forall>q. leader = Some q \<longrightarrow> remembers svc (UID q) x) \<and>
          run_state (publish_leader K cfg start svc leader) x = (r, s')"
      then obtain x where x: "at v x" "run_state (publish_leader K cfg start svc leader) x = (r, s')"
        by blast
      have "\<forall>p. leader = Some p \<longrightarrow> p \<in> candidates K v svc"
        using selectLeaderPod_ready l pods by fastforce
      from publish_leader_fails[OF x(2,1) fails[OF this]] show ?thesis .
    qed
  qed
qed

lemma Reconcile_stuck:
  assumes run: "run_state (Reconcile K cfg req) s = (r, s')" and "at v s" and stuck: "stuck K req svc v"
  shows "\<exists>e y. r = Inl e \<and> at (put_service_in (leader_key K svc) (Some y) v) s'"
proof -
  have adm: "admitted K req svc v" and hyps: "plain_ports svc" "hostable K svc" "st_services v req = Some svc"
    using stuck by (simp_all add: stuck_def admitted_def)
  have "fails cfg svc v (\<lambda>v'. \<exists>y. v' = put_service_in (leader_key K svc) (Some y) v) leader"
    if "\<forall>p. leader = Some p \<longrightarrow> p \<in> candidates K v svc" for leader
  proof -
    have "refused K v svc leader" using that stuck by (simp add: stuck_def)
    then show ?thesis using reconcileLeaderService_refused[OF _ _ hyps] unfolding fails_def by blast
  qed
  from Reconcile_fails[OF run \<open>at v s\<close> adm this] show ?thesis by blast
qed

text \<open>Any number of runs fails, and the slice stays as it is.\<close>

lemma Reconcile_stuck_running:
  assumes "at v s" and "stuck K req svc v"
  shows "\<exists>v'. at v' (reconciled K cfg req n s) \<and> stuck K req svc v' \<and>
    st_slices v' = st_slices v \<and> st_pods v' = st_pods v"
proof (induction n)
  case 0
  then show ?case using assms by auto
next
  case (Suc n)
  then obtain v' where v': "at v' (reconciled K cfg req n s)"
    "stuck K req svc v'" "st_slices v' = st_slices v" "st_pods v' = st_pods v" by blast
  obtain r s' where run: "run_state (Reconcile K cfg req)
      (reconciled K cfg req n s) = (r, s')"
    by (metis prod.exhaust)
  from Reconcile_stuck[OF run v'(1,2)] obtain y
    where "at (put_service_in (leader_key K svc) (Some y) v') s'" by blast
  with run v' stuck_put_service[OF v'(2)] show ?case by (auto intro!: exI)
qed

end

subsection \<open>Ports that do not resolve\<close>

text \<open>No leader that can be selected resolves the ports, and the leader Service is not headless.\<close>

definition unresolvable :: "'w kube \<Rightarrow> nsname \<Rightarrow> service \<Rightarrow> store \<Rightarrow> bool" where
  "unresolvable K req svc v \<longleftrightarrow>
     admitted K req svc v \<and> leader_service_type svc = ServiceTypeClusterIP \<and>
     (\<forall>y. st_services v (leader_key K svc) = Some y \<longrightarrow> ClusterIP y \<noteq> ClusterIPNone) \<and>
     resolution None (Ports svc) = None \<and>
     (\<forall>p. p \<in> candidates K v svc \<longrightarrow> resolution (Some p) (Ports svc) = None)"

context validating_server
begin

lemma fail_closed_deletes:
  assumes run: "run_state (fail_closed K svc) s = (r, s')" and "at v s"
  shows "at (put_slice_in (leader_key K svc) None v) s'"
proof -
  obtain x t where x: "run_state (emit_event svc EventTypeWarning ''PortResolutionFailed'') s = (x, t)"
    by (metis prod.exhaust)
  have t: "at v t" using calm_updates(1) x \<open>at v s\<close> by (rule calm_run)
  obtain q u where get: "run_state (call_api K (DefaultRetry K) (GetSlice K (leader_key K svc))
      (CallGetSlice (leader_key K svc)) (Namespace svc) (Name svc) ''get_endpointslice_cleanup'') t = (q, u)"
    by (metis prod.exhaust)
  note q = read_slice[OF get t]
  show ?thesis
  proof (cases "st_slices v (leader_key K svc)")
    case None
    then have "put_slice_in (leader_key K svc) None v = v" by (cases v) (auto simp: fun_eq_iff)
    with None q show ?thesis using run x get by (simp add: fail_closed_def)
  next
    case (Some z)
    have key: "object_key z = leader_key K svc" using well_keyedD(3)[OF at_keyed[OF \<open>at v s\<close>] Some] .
    obtain d w where del: "run_state (call_api K (DefaultRetry K) (DeleteSlice K z) (CallDeleteSlice z)
        (Namespace svc) (Name svc) ''delete_endpointslice'') u = (d, w)"
      by (metis prod.exhaust)
    have w: "d = Inr () \<and> at (put_slice_in (leader_key K svc) None v) w"
      using slice_deleted[OF del] q key Some by auto
    have "run_state (emit_event svc EventTypeWarning ''EndpointSliceDeleted'') w = (r, s')"
      using run x get q Some del w by (simp add: fail_closed_def)
    from calm_run[OF calm_updates(1) this] w show ?thesis by blast
  qed
qed

lemma resolve_or_fail_fails:
  assumes run: "run_state (resolve_or_fail K svc leader) s = (r, s')" and "at v s"
    and none: "resolution leader (Ports svc) = None"
  shows "r = ([], None) \<and> at (put_slice_in (leader_key K svc) None v) s'"
proof -
  obtain q t where q: "run_state (resolveServicePorts svc leader) s = (q, t)"
    by (metis prod.exhaust)
  then obtain e where e: "q = Inl e"
    using none resolveServicePorts_success[of svc leader s _ t] by (cases q) auto
  have t: "at v t" using resolveServicePorts_failure[of svc leader s e t] q e \<open>at v s\<close> by (simp add: at_def)
  obtain x u where x: "run_state (fail_closed K svc) t = (x, u)" by (metis prod.exhaust)
  then have "r = ([], None)" and "s' = u" using run q e by (simp_all add: resolve_or_fail_def)
  with fail_closed_deletes[OF x t] show ?thesis by simp
qed

lemma write_leader_service_portless:
  assumes run: "run_state (write_leader_service K svc None []) s = (r, s')" and "at v s"
    and ty: "leader_service_type svc = ServiceTypeClusterIP"
    and head: "\<And>y. st_services v (leader_key K svc) = Some y \<Longrightarrow> ClusterIP y \<noteq> ClusterIPNone"
  shows "\<exists>e. r = Inl e \<and> at v s'"
proof -
  obtain q t where get: "run_state (call_api K (DefaultRetry K) (GetService K (leader_key K svc))
      (CallGetService (leader_key K svc)) (Namespace svc) (Name svc) ''get_leader_service'') s = (q, t)"
    by (metis prod.exhaust)
  note q = read_service[OF get \<open>at v s\<close>]
  show ?thesis
  proof (cases "st_services v (leader_key K svc)")
    case None
    then have r: "run_state (create_leader_service K svc None []) t = (r, s')"
      using run get q by (simp add: write_leader_service_def is_not_found_def)
    let ?x = "new_leader_service svc (getLeaderServiceName K svc) (filterGitOpsAnnotations (Annotations svc)) []"
    obtain c w where create: "run_state (call_api K (DefaultRetry K) (CreateService K ?x)
        (CallCreateService ?x) (Namespace svc) (Name svc) ''create_leader_service'') t = (c, w)"
      by (metis prod.exhaust)
    have "portless ?x" using ty by (simp add: portless_def new_leader_service_def)
    with service_refused[OF create] q obtain e where "c = Inl e" and "at v w" by blast
    then show ?thesis using r create by (auto simp: create_leader_service_def Let_def)
  next
    case (Some old)
    then have r: "run_state (patch_leader_service K svc old None []) t = (r, s')"
      using run get q by (simp add: write_leader_service_def)
    obtain a u where a: "run_state (leader_annotations K svc None (Annotations old)) t = (a, u)"
      by (metis prod.exhaust)
    have "state_io_rel calm (leader_annotations K svc None (Annotations old))"
      unfolding leader_annotations_def by (intro calm_intros)
    then have u: "at v u" using a conjunct2[OF q] by (rule calm_run)
    let ?x = "old\<lparr>Selector := [], Ports := [], ServiceType := leader_service_type svc, Annotations := a\<rparr>"
    obtain c w where patch: "run_state (call_api K (DefaultRetry K) (PatchService K ?x old)
        (CallPatchService ?x old) (Namespace svc) (Name svc) ''patch_leader_service'') u = (c, w)"
      by (metis prod.exhaust)
    have "portless ?x" using ty head[OF Some] by (simp add: portless_def)
    with service_change_refused[OF patch u] obtain e where "c = Inl e" and "at v w" by blast
    then show ?thesis using r a patch by (auto simp: patch_leader_service_def Let_def)
  qed
qed

lemma Reconcile_fails_closed:
  assumes run: "run_state (Reconcile K cfg req) s = (r, s')" and "at v s"
    and un: "unresolvable K req svc v"
  shows "\<exists>e. r = Inl e \<and> at (put_slice_in (leader_key K svc) None v) s'"
proof -
  let ?v = "put_slice_in (leader_key K svc) None v"
  have "fails cfg svc v (\<lambda>v'. v' = ?v) leader" if "\<forall>p. leader = Some p \<longrightarrow> p \<in> candidates K v svc" for leader
    unfolding fails_def
  proof (intro allI impI)
    fix s r s'
    assume "at v s" and run: "run_state (reconcileLeaderService K cfg svc leader) s = (r, s')"
    have none: "resolution leader (Ports svc) = None"
      using that un by (cases leader) (simp_all add: unresolvable_def)
    obtain q t where q: "run_state (resolve_or_fail K svc leader) s = (q, t)" by (metis prod.exhaust)
    note closed = resolve_or_fail_fails[OF q \<open>at v s\<close> none]
    obtain w u where w: "run_state (write_leader_service K svc None []) t = (w, u)" by (metis prod.exhaust)
    have "\<exists>e. w = Inl e \<and> at ?v u"
      by (rule write_leader_service_portless[OF w conjunct2[OF closed]]) (use un in \<open>simp_all add: unresolvable_def\<close>)
    then show "\<exists>e v'. r = Inl e \<and> v' = ?v \<and> at v' s'"
      using run q closed w by (auto simp: reconcileLeaderService_def record_stability_def)
  qed
  moreover have "admitted K req svc v" using un by (simp add: unresolvable_def)
  ultimately show ?thesis using Reconcile_fails[OF run \<open>at v s\<close>, of svc "\<lambda>v'. v' = ?v"] by blast
qed

end

subsection \<open>A sample\<close>

lemma at_holds: "api_server K holds \<Longrightarrow> api_server.at holds v s \<longleftrightarrow> holds v (world s)"
  by (rule api_server.at_def)

abbreviation sample_contents :: store where
  "sample_contents \<equiv> store_of sample_cluster"

lemma sample_holds: "mem_holds sample_contents (world (start_state sample_cluster))"
  by (simp add: mem_holds_def start_state_def sample_cluster_def sample_pod_def object_key_def)

lemma sample_selected:
  "selected_pods mem_kube sample_contents ''prod'' [(''app'', ''db'')] =
     {sample_pod ''db-1'' ''uid-b'' 2000 ''True'' ''10.0.0.12'', sample_pod ''db-0'' ''uid-a'' 1000 ''True'' ''10.0.0.11''}"
proof -
  have "in_namespace ''prod'' [(''app'', ''db'')] (cl_pods sample_cluster) = cl_pods sample_cluster"
    by (simp add: in_namespace_def matches_def sample_cluster_def sample_pod_def)
  with mem_selects(1)[OF sample_holds, of "''prod''" "[(''app'', ''db'')]"] show ?thesis
    by (simp add: start_state_def) (simp add: sample_cluster_def)
qed

lemma sample_pod_serves:
  "isPodReady (sample_pod n uid t ''True'' ip)"
  "ip \<noteq> '''' \<Longrightarrow> ParseIP ip \<noteq> None \<Longrightarrow> reachable_by sample_service (sample_pod n uid t ''True'' ip)"
  by (auto simp: isPodReady_def sample_pod_def reachable_by_def addressed_def sample_service_def
      list_all2_Cons1 resolves_to_def named_port_def container_ports_def)

lemma sample_serviceable: "serviceable mem_kube (''prod'', ''db'') sample_service sample_contents"
proof -
  have ips: "ParseIP ''10.0.0.11'' \<noteq> None" "ParseIP ''10.0.0.12'' \<noteq> None" by code_simp+
  have svc: "Selector sample_service = [(''app'', ''db'')]" "Namespace sample_service = ''prod''"
    by (simp_all add: sample_service_def)
  have "fits mem_kube sample_contents sample_service p" for p
    by (simp add: fits_def store_of_def sample_cluster_def find_key_def)
  moreover have "one_family mem_kube sample_contents sample_service"
    unfolding one_family_def svc sample_selected by (intro exI[of _ AddressTypeIPv4]) (auto; code_simp)
  moreover have "admitted mem_kube (''prod'', ''db'') sample_service sample_contents"
    unfolding admitted_def
    by (intro conjI; code_simp)
  moreover have "hostable mem_kube sample_service" by code_simp
  moreover have "leader_key mem_kube sample_service \<noteq> (''prod'', ''db'')" by code_simp
  moreover have "getMinReadyDuration mem_kube sample_service \<le> 0" by code_simp
  ultimately show ?thesis
    unfolding serviceable_def svc sample_selected using sample_pod_serves ips by auto
qed

lemma sample_alive:
  "p \<in> candidates mem_kube sample_contents sample_service \<Longrightarrow> UID p \<noteq> '''' \<and> DeletionTimestamp p = None"
proof -
  assume "p \<in> candidates mem_kube sample_contents sample_service"
  moreover have "Selector sample_service = [(''app'', ''db'')]" "Namespace sample_service = ''prod''"
    by (simp_all add: sample_service_def)
  ultimately have "p \<in> {sample_pod ''db-1'' ''uid-b'' 2000 ''True'' ''10.0.0.12'',
      sample_pod ''db-0'' ''uid-a'' 1000 ''True'' ''10.0.0.11''}"
    by (simp only: sample_selected mem_Collect_eq)
  then show ?thesis by (auto simp: sample_pod_def)
qed

text \<open>The leader has stopped being ready, and no other pod is there.\<close>

definition sample_plain_service :: service where
  "sample_plain_service = sample_service\<lparr>Ports := [\<lparr>PortName = ''sql'', PortProtocol = ''TCP'',
     Port = 5432, TargetPort = IntPort 5432, NodePort = 0\<rparr>]\<rparr>"

definition sample_dead_pod :: pod where
  "sample_dead_pod = sample_pod ''db-0'' ''uid-a'' 1000 ''False'' ''10.0.0.11''"

definition sample_dead_cluster :: cluster where
  "sample_dead_cluster = sample_cluster\<lparr>cl_services := [sample_plain_service],
     cl_pods := [sample_dead_pod],
     cl_slices := [new_slice sample_plain_service ''db-leader'' ''uid-1''
       (Some (sample_pod ''db-0'' ''uid-a'' 1000 ''True'' ''10.0.0.11'')) []]\<rparr>"

lemma sample_dead_holds: "mem_holds (store_of sample_dead_cluster) (world (start_state sample_dead_cluster))"
  by (simp add: mem_holds_def start_state_def sample_dead_cluster_def sample_cluster_def)

lemma sample_stuck:
  "stuck mem_kube (''prod'', ''db'') sample_plain_service (store_of sample_dead_cluster)"
proof -
  have "p = sample_dead_pod" if "p \<in> candidates mem_kube (store_of sample_dead_cluster) sample_plain_service" for p
    using that
    by (auto simp: selected_pods_def store_of_def sample_dead_cluster_def find_key_def split: if_splits)
  moreover have "\<not> isPodReady sample_dead_pod" by code_simp
  ultimately have "p \<notin> candidates mem_kube (store_of sample_dead_cluster) sample_plain_service" for p
    by blast
  moreover have "admitted mem_kube (''prod'', ''db'') sample_plain_service (store_of sample_dead_cluster)"
    unfolding admitted_def by (intro conjI; code_simp)
  moreover have "hostable mem_kube sample_plain_service" by code_simp
  moreover have "leader_key mem_kube sample_plain_service \<noteq> (''prod'', ''db'')" by code_simp
  moreover have "plain_ports sample_plain_service" by (simp add: plain_ports_def sample_plain_service_def)
  ultimately show ?thesis unfolding stuck_def by blast
qed

text \<open>A Service that is no longer opted in, with its leader Service.\<close>

definition sample_disabled_service :: service where
  "sample_disabled_service = sample_service\<lparr>Annotations := []\<rparr>"

definition sample_disabled_cluster :: cluster where
  "sample_disabled_cluster = sample_cluster\<lparr>cl_services := [sample_disabled_service,
     new_leader_service sample_service ''db-leader'' [] []]\<rparr>"

lemma sample_disabled_holds:
  "mem_holds (store_of sample_disabled_cluster) (world (start_state sample_disabled_cluster))"
  "st_services (store_of sample_disabled_cluster) (''prod'', ''db'') = Some sample_disabled_service"
  by (simp_all add: mem_holds_def start_state_def sample_disabled_cluster_def sample_cluster_def
      sample_pod_def object_key_def sample_disabled_service_def sample_service_def
      new_leader_service_def store_of_def find_key_def)

text \<open>The named port of the Service is one that the pod does not have.\<close>

definition sample_named_service :: service where
  "sample_named_service = sample_service\<lparr>Ports := [\<lparr>PortName = ''sql'', PortProtocol = ''TCP'',
     Port = 5432, TargetPort = NamedPort ''mysql'', NodePort = 0\<rparr>]\<rparr>"

definition sample_named_cluster :: cluster where
  "sample_named_cluster = sample_dead_cluster\<lparr>cl_services := [sample_named_service],
     cl_pods := cl_pods sample_cluster\<rparr>"

lemma sample_named_holds: "mem_holds (store_of sample_named_cluster) (world (start_state sample_named_cluster))"
  by (simp add: mem_holds_def start_state_def sample_named_cluster_def sample_dead_cluster_def
      sample_cluster_def sample_pod_def object_key_def)

lemma sample_unresolvable:
  "unresolvable mem_kube (''prod'', ''db'') sample_named_service (store_of sample_named_cluster)"
proof -
  have "p \<in> set (cl_pods sample_cluster)"
    if "p \<in> candidates mem_kube (store_of sample_named_cluster) sample_named_service" for p
  proof -
    have "find_key (cl_pods sample_cluster) (object_key p) = Some p"
      using that by (simp add: selected_pods_def store_of_def sample_named_cluster_def)
    then show ?thesis using find_key_key by blast
  qed
  moreover have "resolution (Some p) (Ports sample_named_service) = None" if "p \<in> set (cl_pods sample_cluster)" for p
    using that by (auto simp: sample_cluster_def; code_simp)
  ultimately have "\<forall>p. p \<in> candidates mem_kube (store_of sample_named_cluster) sample_named_service \<longrightarrow>
      resolution (Some p) (Ports sample_named_service) = None" by blast
  moreover have "admitted mem_kube (''prod'', ''db'') sample_named_service (store_of sample_named_cluster)"
    unfolding admitted_def by (intro conjI; code_simp)
  moreover have "leader_service_type sample_named_service = ServiceTypeClusterIP"
    "resolution None (Ports sample_named_service) = None" by code_simp+
  moreover have "st_services (store_of sample_named_cluster) (leader_key mem_kube sample_named_service) = None"
    by code_simp
  ultimately show ?thesis unfolding unresolvable_def by simp
qed

definition sample_config :: director_config where
  "sample_config = fst (NewServiceDirectorReconciler sample_cluster 0 0 0 0 0 0 0 True 0 True)"

end
