(* ===== verification/LeaderGroup.thy ===== *)
theory LeaderGroup
  imports Kube Pods
begin

text \<open>
  LeaderGroups: the types of \<^verbatim>\<open>pkg/apis/leadership.kube-zen.io/v1alpha1/leadergroup_types.go\<close> and
  the reconciler of \<^verbatim>\<open>pkg/controller/leadergroup_controller.go\<close>, which keeps a Lease for every
  controller group and copies its state to the status. The API server, the clock and the
  conversion \<^verbatim>\<open>int32(d.Seconds())\<close>, which goes through a floating-point number, are the fields of
  the record \<open>lg_kube\<close>.
\<close>

subsection \<open>Types\<close>

definition LeaderGroupTypeRouting :: string where
  "LeaderGroupTypeRouting = ''routing''"
definition LeaderGroupTypeController :: string where
  "LeaderGroupTypeController = ''controller''"

record lease_settings =
  Duration :: "duration option"
  RenewDeadline :: "duration option"
  RetryPeriod :: "duration option"

record routing_settings =
  Enabled :: bool

record lg_spec =
  SpecType :: string
  SpecSelector :: "strmap option"
  Component :: string
  SpecLease :: "lease_settings option"
  Routing :: "routing_settings option"

record meta_condition =
  McType :: string
  McStatus :: string
  McReason :: string
  McMessage :: string
  McTime :: go_time

record lg_status =
  HolderIdentity :: string
  RenewTime :: "go_time option"
  LeaseDurationSeconds :: "int option"
  FencingToken :: "int option"
  ObservedLeaseResourceVersion :: string
  LgConditions :: "meta_condition list"

record leader_group = object_meta +
  APIVersion :: string
  Kind :: string
  Spec :: lg_spec
  Status :: lg_status

record lease = object_meta +
  LeaseHolder :: "string option"
  LeaseRenewTime :: "go_time option"
  LeaseDuration :: "int option"
  LeaseTransitions :: "int option"

subsection \<open>Parameters, state and effects\<close>

text \<open>\<open>Create\<close> and \<open>Update\<close> also hand back the object as the server stored it.\<close>

record 'w lg_kube =
  GetGroup :: "nsname \<Rightarrow> 'w \<Rightarrow> (api_err + leader_group) \<times> 'w"
  GetLease :: "nsname \<Rightarrow> 'w \<Rightarrow> (api_err + lease) \<times> 'w"
  CreateLease :: "lease \<Rightarrow> 'w \<Rightarrow> (api_err + lease) \<times> 'w"
  UpdateLease :: "lease \<Rightarrow> 'w \<Rightarrow> (api_err + lease) \<times> 'w"
  DeleteLease :: "lease \<Rightarrow> 'w \<Rightarrow> (api_err + unit) \<times> 'w"
  UpdateStatus :: "leader_group \<Rightarrow> 'w \<Rightarrow> (api_err + unit) \<times> 'w"
  LgNow :: "'w \<Rightarrow> go_time \<times> 'w"
  Seconds32 :: "duration \<Rightarrow> int"

datatype lg_call =
    CallGetGroup nsname "api_err + leader_group"
  | CallGetLease nsname "api_err + lease"
  | CallCreateLease lease "api_err + lease"
  | CallUpdateLease lease "api_err + lease"
  | CallDeleteLease lease "api_err + unit"
  | CallUpdateStatus leader_group "api_err + unit"

record 'w lg_sys =
  lg_world :: 'w
  lg_calls :: "lg_call list"

definition lg_perform :: "('w \<Rightarrow> 'r \<times> 'w) \<Rightarrow> ('r \<Rightarrow> lg_call) \<Rightarrow> ('w lg_sys, 'r) state" where
  "lg_perform f c = State (\<lambda>s. case f (lg_world s) of
     (r, w) \<Rightarrow> (r, s\<lparr>lg_world := w, lg_calls := lg_calls s @ [c r]\<rparr>))"

definition lg_now :: "'w lg_kube \<Rightarrow> ('w lg_sys, go_time) state" where
  "lg_now K = State (\<lambda>s. case LgNow K (lg_world s) of (t, w) \<Rightarrow> (t, s\<lparr>lg_world := w\<rparr>))"

lemma run_lg_perform [simp]:
  "run_state (lg_perform f c) s =
     (fst (f (lg_world s)), s\<lparr>lg_world := snd (f (lg_world s)),
        lg_calls := lg_calls s @ [c (fst (f (lg_world s)))]\<rparr>)"
  by (simp add: lg_perform_def split: prod.splits)

lemma run_lg_now [simp]:
  "run_state (lg_now K) s = (fst (LgNow K (lg_world s)), s\<lparr>lg_world := snd (LgNow K (lg_world s))\<rparr>)"
  by (simp add: lg_now_def split: prod.splits)

datatype lg_error =
    GetGroupFailed api_err
  | UnknownGroupType string
  | ComponentRequired
  | LeaseFailed api_err
  | CreateLeaseFailed api_err
  | StatusFailed api_err

subsection \<open>The Lease of a group\<close>

definition deriveLeaseName :: "string \<Rightarrow> string" where
  "deriveLeaseName component = component @ ''-lease''"

definition LabelLeaderGroup :: string where
  "LabelLeaderGroup = ''leadership.kube-zen.io/leadergroup''"

definition group_owner :: "leader_group \<Rightarrow> owner_reference" where
  "group_owner lg =
     \<lparr>OwnerAPIVersion = APIVersion lg, OwnerKind = Kind lg, OwnerName = Name lg, OwnerUID = UID lg,
      OwnerController = Some True\<rparr>"

definition buildLease :: "'w lg_kube \<Rightarrow> leader_group \<Rightarrow> string \<Rightarrow> lease" where
  "buildLease K lg leaseName =
     \<lparr>Name = leaseName, Namespace = Namespace lg, UID = '''', ResourceVersion = '''',
      Labels = [(LabelManagedBy, LabelManagedByValue), (LabelLeaderGroup, Name lg)],
      Annotations = [], OwnerReferences = [group_owner lg],
      CreationTimestamp = 0, DeletionTimestamp = None,
      LeaseHolder = None, LeaseRenewTime = None,
      LeaseDuration =
        (case SpecLease (Spec lg) of None \<Rightarrow> None | Some l \<Rightarrow> map_option (Seconds32 K) (Duration l)),
      LeaseTransitions =
        (case SpecLease (Spec lg) of None \<Rightarrow> None | Some l \<Rightarrow> map_option (Seconds32 K) (RetryPeriod l))\<rparr>"

text \<open>The three tests of \<^verbatim>\<open>updateLeaseMetadata\<close>, each with its change, and \<^verbatim>\<open>needsUpdate\<close>.\<close>

definition lease_metadata :: "lease \<Rightarrow> leader_group \<Rightarrow> bool \<times> lease" where
  "lease_metadata l0 lg =
     (let (n1, l1) = (if OwnerReferences l0 = [] then (True, l0\<lparr>OwnerReferences := [group_owner lg]\<rparr>)
                      else (False, l0));
          (n2, l2) = (if map_get (Labels l1) LabelManagedBy \<noteq> LabelManagedByValue
                      then (True, l1\<lparr>Labels := map_set (Labels l1) LabelManagedBy LabelManagedByValue\<rparr>)
                      else (n1, l1));
          (n3, l3) = (if map_get (Labels l2) LabelLeaderGroup \<noteq> Name lg
                      then (True, l2\<lparr>Labels := map_set (Labels l2) LabelLeaderGroup (Name lg)\<rparr>)
                      else (n2, l2))
      in (n3, l3))"

definition updateLeaseMetadata ::
  "'w lg_kube \<Rightarrow> lease \<Rightarrow> leader_group \<Rightarrow> ('w lg_sys, api_err + lease) state" where
  "updateLeaseMetadata K l0 lg =
     (case lease_metadata l0 lg of
        (needsUpdate, l) \<Rightarrow>
          if needsUpdate then lg_perform (UpdateLease K l) (CallUpdateLease l) else ret (Inr l))"

subsection \<open>The status\<close>

definition statusEqual :: "lg_status \<Rightarrow> lg_status \<Rightarrow> bool" where
  "statusEqual a b =
     (if HolderIdentity a \<noteq> HolderIdentity b then False
      else if ObservedLeaseResourceVersion a \<noteq> ObservedLeaseResourceVersion b then False
      else if (RenewTime a = None) \<noteq> (RenewTime b = None) then False
      else if RenewTime a \<noteq> None \<and> RenewTime a \<noteq> RenewTime b then False
      else if (LeaseDurationSeconds a = None) \<noteq> (LeaseDurationSeconds b = None) then False
      else if LeaseDurationSeconds a \<noteq> None \<and> LeaseDurationSeconds a \<noteq> LeaseDurationSeconds b
      then False
      else True)"

definition no_holder :: "lease \<Rightarrow> bool" where
  "no_holder l \<longleftrightarrow> LeaseHolder l = None \<or> LeaseHolder l = Some ''''"

definition lease_condition :: "go_time \<Rightarrow> lease \<Rightarrow> meta_condition" where
  "lease_condition t l =
     (if no_holder l
      then \<lparr>McType = ''LeaseReady'', McStatus = ConditionFalse, McReason = ''NoHolder'',
             McMessage = ''Lease exists but no holder'', McTime = t\<rparr>
      else \<lparr>McType = ''LeaseReady'', McStatus = ConditionTrue, McReason = ''LeaseExists'',
             McMessage = ''Lease '' @ go_quote (Name l) @ '' exists'', McTime = t\<rparr>)"

fun set_condition :: "meta_condition \<Rightarrow> meta_condition list \<Rightarrow> meta_condition list" where
  "set_condition condition [] = [condition]"
| "set_condition condition (c # cs) =
     (if McType c = McType condition then condition # cs else c # set_condition condition cs)"

definition status_from_lease :: "go_time \<Rightarrow> lg_status \<Rightarrow> lease \<Rightarrow> lg_status" where
  "status_from_lease t old l =
     old\<lparr>HolderIdentity := (case LeaseHolder l of Some h \<Rightarrow> h | None \<Rightarrow> ''''),
         RenewTime := (case LeaseRenewTime l of Some r \<Rightarrow> Some r | None \<Rightarrow> RenewTime old),
         LeaseDurationSeconds :=
           (case LeaseDuration l of Some d \<Rightarrow> Some d | None \<Rightarrow> LeaseDurationSeconds old),
         FencingToken := (case LeaseTransitions l of Some n \<Rightarrow> Some n | None \<Rightarrow> FencingToken old),
         ObservedLeaseResourceVersion := ResourceVersion l,
         LgConditions := set_condition (lease_condition t l) (LgConditions old)\<rparr>"

definition requeueInterval :: duration where
  "requeueInterval = 10 * 1000000000"

definition updateStatusFromLease ::
  "'w lg_kube \<Rightarrow> leader_group \<Rightarrow> lease \<Rightarrow> ('w lg_sys, lg_error + duration option) state" where
  "updateStatusFromLease K lg l =
     do { t \<leftarrow> lg_now K;
          let status = status_from_lease t (Status lg) l;
          if \<not> statusEqual (Status lg) status then
            do { r \<leftarrow> lg_perform (UpdateStatus K (lg\<lparr>Status := status\<rparr>))
                   (CallUpdateStatus (lg\<lparr>Status := status\<rparr>));
                 ret (case r of Inl err \<Rightarrow> Inl (StatusFailed err) | Inr done \<Rightarrow> Inr (Some requeueInterval)) }
          else ret (Inr (Some requeueInterval)) }"

subsection \<open>The reconciler\<close>

definition reconcileControllerType ::
  "'w lg_kube \<Rightarrow> leader_group \<Rightarrow> ('w lg_sys, lg_error + duration option) state" where
  "reconcileControllerType K lg =
     (if Component (Spec lg) = '''' then ret (Inl ComponentRequired)
      else
        do { let leaseKey = (Namespace lg, deriveLeaseName (Component (Spec lg)));
             r \<leftarrow> lg_perform (GetLease K leaseKey) (CallGetLease leaseKey);
             case r of
               Inl err \<Rightarrow>
                 if err = NotFound then
                   do { let l = buildLease K lg (deriveLeaseName (Component (Spec lg)));
                        created \<leftarrow> lg_perform (CreateLease K l) (CallCreateLease l);
                        case created of
                          Inl err \<Rightarrow> ret (Inl (CreateLeaseFailed err))
                        | Inr stored \<Rightarrow> updateStatusFromLease K lg stored }
                 else ret (Inl (LeaseFailed err))
             | Inr l \<Rightarrow>
                 do { updated \<leftarrow> updateLeaseMetadata K l lg;
                      case updated of
                        Inl err \<Rightarrow> ret (Inl (LeaseFailed err))
                      | Inr stored \<Rightarrow> updateStatusFromLease K lg stored } })"

definition cleanupLease :: "'w lg_kube \<Rightarrow> leader_group \<Rightarrow> ('w lg_sys, api_err + unit) state" where
  "cleanupLease K lg =
     (if SpecType (Spec lg) \<noteq> LeaderGroupTypeController then ret (Inr ())
      else
        do { let leaseKey = (Namespace lg, deriveLeaseName (Component (Spec lg)));
             r \<leftarrow> lg_perform (GetLease K leaseKey) (CallGetLease leaseKey);
             case r of
               Inl err \<Rightarrow> ret (if err = NotFound then Inr () else Inl err)
             | Inr l \<Rightarrow> lg_perform (DeleteLease K l) (CallDeleteLease l) })"

definition ReconcileGroup ::
  "'w lg_kube \<Rightarrow> nsname \<Rightarrow> ('w lg_sys, lg_error + duration option) state" where
  "ReconcileGroup K req =
     do { r \<leftarrow> lg_perform (GetGroup K req) (CallGetGroup req);
          case r of
            Inl err \<Rightarrow> ret (if err = NotFound then Inr None else Inl (GetGroupFailed err))
          | Inr lg \<Rightarrow>
              if DeletionTimestamp lg \<noteq> None then
                do { cleaned \<leftarrow> cleanupLease K lg;
                     ret (case cleaned of Inl err \<Rightarrow> Inl (LeaseFailed err) | Inr done \<Rightarrow> Inr None) }
              else if SpecType (Spec lg) = LeaderGroupTypeController then reconcileControllerType K lg
              else if SpecType (Spec lg) = LeaderGroupTypeRouting then ret (Inr None)
              else ret (Inl (UnknownGroupType (SpecType (Spec lg)))) }"

subsection \<open>Metadata of the Lease\<close>

lemma LeaderGroup_labels [simp]: "LabelLeaderGroup \<noteq> LabelManagedBy" "LabelManagedBy \<noteq> LabelLeaderGroup"
  by (simp_all add: LabelLeaderGroup_def label_keys)

lemmas lease_metadata_cases = lease_metadata_def Let_def split_def

lemma lease_metadata_labels:
  "map_get (Labels (snd (lease_metadata l lg))) LabelManagedBy = LabelManagedByValue"
  "map_get (Labels (snd (lease_metadata l lg))) LabelLeaderGroup = Name lg"
  by (simp_all add: lease_metadata_cases)

text \<open>An owner that is present is never replaced, and everything but owners and labels stays.\<close>

lemma lease_metadata_owner:
  "OwnerReferences (snd (lease_metadata l lg)) =
     (if OwnerReferences l = [] then [group_owner lg] else OwnerReferences l)"
  by (simp add: lease_metadata_cases)

lemma lease_metadata_frame:
  "snd (lease_metadata l lg) = l\<lparr>OwnerReferences := OwnerReferences (snd (lease_metadata l lg)),
     Labels := Labels (snd (lease_metadata l lg))\<rparr>"
  by (simp add: lease_metadata_cases)

lemma lease_metadata_stable:
  "lease_metadata (snd (lease_metadata l lg)) lg = (False, snd (lease_metadata l lg))"
proof -
  let ?l = "snd (lease_metadata l lg)"
  have "OwnerReferences ?l \<noteq> []" by (simp add: lease_metadata_owner)
  with lease_metadata_labels[of l lg] show ?thesis
    unfolding lease_metadata_def[of ?l] Let_def by simp
qed

lemma lease_metadata_unchanged: "\<not> fst (lease_metadata l lg) \<Longrightarrow> snd (lease_metadata l lg) = l"
  by (auto simp: lease_metadata_cases split: if_splits)

subsection \<open>Conditions and the status\<close>

definition condition_of :: "string \<Rightarrow> meta_condition list \<Rightarrow> meta_condition option" where
  "condition_of ty cs = List.find (\<lambda>c. McType c = ty) cs"

lemma condition_of_set:
  "condition_of ty (set_condition c cs) = (if ty = McType c then Some c else condition_of ty cs)"
  by (induction cs) (auto simp: condition_of_def)

lemma distinct_set_condition:
  "distinct (map McType cs) \<Longrightarrow> distinct (map McType (set_condition c cs))"
proof (induction cs)
  case (Cons d cs)
  have "set (map McType (set_condition c cs)) \<subseteq> insert (McType c) (set (map McType cs))"
    by (induction cs) auto
  with Cons show ?case by auto
qed simp

lemma statusEqual_iff:
  "statusEqual a b \<longleftrightarrow> HolderIdentity a = HolderIdentity b \<and>
     ObservedLeaseResourceVersion a = ObservedLeaseResourceVersion b \<and>
     RenewTime a = RenewTime b \<and> LeaseDurationSeconds a = LeaseDurationSeconds b"
  by (auto simp: statusEqual_def)

text \<open>What a status says of a lease, apart from the time of the condition.\<close>

definition status_mirrors :: "lg_status \<Rightarrow> lease \<Rightarrow> bool" where
  "status_mirrors s l \<longleftrightarrow>
     HolderIdentity s = (case LeaseHolder l of Some h \<Rightarrow> h | None \<Rightarrow> '''') \<and>
     (\<forall>r. LeaseRenewTime l = Some r \<longrightarrow> RenewTime s = Some r) \<and>
     (\<forall>d. LeaseDuration l = Some d \<longrightarrow> LeaseDurationSeconds s = Some d) \<and>
     (\<forall>n. LeaseTransitions l = Some n \<longrightarrow> FencingToken s = Some n) \<and>
     ObservedLeaseResourceVersion s = ResourceVersion l \<and>
     (\<exists>t. condition_of ''LeaseReady'' (LgConditions s) = Some (lease_condition t l))"

lemma status_from_lease_mirrors: "status_mirrors (status_from_lease t old l) l"
  by (auto simp: status_mirrors_def status_from_lease_def condition_of_set lease_condition_def)

text \<open>
  The comparison leaves out the fencing token and the conditions. It is still enough: the
  resource version is compared, and a version that did not change means an unchanged lease.
\<close>

lemma statusEqual_enough:
  assumes "status_mirrors s l0" and "statusEqual s (status_from_lease t s l)"
    and "ResourceVersion l = ResourceVersion l0 \<Longrightarrow> l = l0"
  shows "status_mirrors s l"
proof -
  have "ResourceVersion l = ResourceVersion l0"
    using assms(1,2) by (simp add: statusEqual_iff status_from_lease_def status_mirrors_def)
  with assms show ?thesis by simp
qed

subsection \<open>What the reconciler calls\<close>

definition lease_key_of :: "leader_group \<Rightarrow> nsname" where
  "lease_key_of lg = (Namespace lg, deriveLeaseName (Component (Spec lg)))"

text \<open>The lease that a run has in hand: created, updated, or read and already right.\<close>

definition lease_in_place :: "'w lg_kube \<Rightarrow> leader_group \<Rightarrow> lease \<Rightarrow> lg_call list \<Rightarrow> bool" where
  "lease_in_place K lg l new \<longleftrightarrow>
     CallCreateLease (buildLease K lg (deriveLeaseName (Component (Spec lg)))) (Inr l) \<in> set new \<or>
     (\<exists>l0. CallGetLease (Namespace lg, deriveLeaseName (Component (Spec lg))) (Inr l0) \<in> set new \<and>
        (if fst (lease_metadata l0 lg)
         then CallUpdateLease (snd (lease_metadata l0 lg)) (Inr l) \<in> set new else l = l0))"

lemma lease_in_place_mono: "lease_in_place K lg l new \<Longrightarrow> set new \<subseteq> set new' \<Longrightarrow> lease_in_place K lg l new'"
  unfolding lease_in_place_def by (auto split: if_splits)

text \<open>
  A call in a run for \<open>lg\<close> that has made the calls \<open>new\<close>. Only the Lease under the key of the group
  is touched: it is created when the run has found none, and updated and deleted only as it was read.
\<close>

fun group_call :: "'w lg_kube \<Rightarrow> leader_group \<Rightarrow> lg_call list \<Rightarrow> lg_call \<Rightarrow> bool" where
  "group_call K lg new (CallGetGroup k r) = False"
| "group_call K lg new (CallGetLease k r) =
     (k = lease_key_of lg \<and> SpecType (Spec lg) = LeaderGroupTypeController)"
| "group_call K lg new (CallCreateLease l r) =
     (DeletionTimestamp lg = None \<and> SpecType (Spec lg) = LeaderGroupTypeController \<and>
      CallGetLease (lease_key_of lg) (Inl NotFound) \<in> set new \<and>
      l = buildLease K lg (deriveLeaseName (Component (Spec lg))))"
| "group_call K lg new (CallUpdateLease l r) =
     (DeletionTimestamp lg = None \<and> SpecType (Spec lg) = LeaderGroupTypeController \<and>
      (\<exists>l0. CallGetLease (lease_key_of lg) (Inr l0) \<in> set new \<and> lease_metadata l0 lg = (True, l)))"
| "group_call K lg new (CallDeleteLease l r) =
     (DeletionTimestamp lg \<noteq> None \<and> SpecType (Spec lg) = LeaderGroupTypeController \<and>
      CallGetLease (lease_key_of lg) (Inr l) \<in> set new)"
| "group_call K lg new (CallUpdateStatus g r) =
     (DeletionTimestamp lg = None \<and> SpecType (Spec lg) = LeaderGroupTypeController \<and>
      (\<exists>t l. lease_in_place K lg l new \<and> g = lg\<lparr>Status := status_from_lease t (Status lg) l\<rparr>))"

definition group_calls :: "'w lg_kube \<Rightarrow> leader_group \<Rightarrow> lg_call list \<Rightarrow> bool" where
  "group_calls K lg new \<longleftrightarrow> list_all (group_call K lg new) new"

lemma status_calls:
  assumes "run_state (updateStatusFromLease K lg l) s = (r, s')"
  shows "\<exists>more. lg_calls s' = lg_calls s @ more \<and>
    (\<forall>c \<in> set more. \<exists>t q. c = CallUpdateStatus (lg\<lparr>Status := status_from_lease t (Status lg) l\<rparr>) q)"
  using assms by (auto simp: updateStatusFromLease_def Let_def split: if_splits)

lemma status_group_calls:
  assumes "run_state (updateStatusFromLease K lg l) u = (r, s')"
    and "lg_calls u = lg_calls s @ new" and "lease_in_place K lg l new" and "group_calls K lg new"
    and "DeletionTimestamp lg = None" and "SpecType (Spec lg) = LeaderGroupTypeController"
  shows "\<exists>new. lg_calls s' = lg_calls s @ new \<and> group_calls K lg new"
proof -
  from status_calls[OF assms(1)] obtain more where more: "lg_calls s' = lg_calls u @ more"
    "\<And>c. c \<in> set more \<Longrightarrow> \<exists>t q. c = CallUpdateStatus (lg\<lparr>Status := status_from_lease t (Status lg) l\<rparr>) q"
    by blast
  have "group_call K lg (new @ more) c" if "c \<in> set new" for c
  proof -
    have "group_call K lg new c" using assms(4) that by (simp add: group_calls_def list_all_iff)
    then show ?thesis
      using lease_in_place_mono[of K lg _ new "new @ more"] by (cases c) auto
  qed
  moreover have "group_call K lg (new @ more) c" if c: "c \<in> set more" for c
  proof -
    obtain t q where "c = CallUpdateStatus (lg\<lparr>Status := status_from_lease t (Status lg) l\<rparr>) q"
      using more(2)[OF c] by blast
    moreover have "lease_in_place K lg l (new @ more)"
      by (rule lease_in_place_mono[OF assms(3)]) simp
    ultimately show ?thesis using assms(5,6) by (simp only: group_call.simps) blast
  qed
  ultimately have "group_calls K lg (new @ more)" by (auto simp: group_calls_def list_all_iff)
  with more(1) assms(2) show ?thesis by auto
qed

lemma reconcileControllerType_calls:
  assumes run: "run_state (reconcileControllerType K lg) s = (r, s')"
    and lg: "DeletionTimestamp lg = None" "SpecType (Spec lg) = LeaderGroupTypeController"
  shows "\<exists>new. lg_calls s' = lg_calls s @ new \<and> group_calls K lg new"
proof (cases "Component (Spec lg) = ''''")
  case True
  with run show ?thesis by (simp add: reconcileControllerType_def group_calls_def)
next
  case comp: False
  let ?key = "lease_key_of lg"
  obtain q w where q: "GetLease K ?key (lg_world s) = (q, w)" by (metis prod.exhaust)
  let ?t = "s\<lparr>lg_world := w, lg_calls := lg_calls s @ [CallGetLease ?key q]\<rparr>"
  note q' = q[unfolded lease_key_of_def]
  note place = lease_in_place_def lease_key_of_def
  have read: "group_call K lg new (CallGetLease ?key q)" for new using lg by simp
  show ?thesis
  proof (cases q)
    case (Inl err)
    let ?l = "buildLease K lg (deriveLeaseName (Component (Spec lg)))"
    show ?thesis
    proof (cases "err = NotFound")
      case True
      obtain c w' where c: "CreateLease K ?l w = (c, w')" by (metis prod.exhaust)
      let ?new = "[CallGetLease ?key q, CallCreateLease ?l c]"
      let ?u = "s\<lparr>lg_world := w', lg_calls := lg_calls s @ ?new\<rparr>"
      have ok: "group_calls K lg ?new" using read lg Inl True by (simp add: group_calls_def)
      show ?thesis
      proof (cases c)
        case (Inl e)
        then have "lg_calls s' = lg_calls s @ ?new"
          using run comp q' \<open>q = Inl err\<close> True c by (auto simp: reconcileControllerType_def Let_def lease_key_of_def)
        with ok show ?thesis by blast
      next
        case (Inr l)
        then have "run_state (updateStatusFromLease K lg l) ?u = (r, s')"
          using run comp q' \<open>q = Inl err\<close> True c
          by (simp add: reconcileControllerType_def Let_def lease_key_of_def)
        moreover have "lease_in_place K lg l ?new" using Inr by (simp add: place)
        ultimately show ?thesis using ok lg by (intro status_group_calls[where u = ?u]) simp_all
      qed
    qed (use run comp q' Inl read in \<open>auto simp: reconcileControllerType_def Let_def group_calls_def lease_key_of_def lg\<close>)
  next
    case (Inr l0)
    obtain b m where meta: "lease_metadata l0 lg = (b, m)" by (metis prod.exhaust)
    show ?thesis
    proof (cases b)
      case False
      with meta have same: "m = l0" using lease_metadata_unchanged[of l0 lg] by simp
      let ?new = "[CallGetLease ?key q]"
      have "run_state (updateStatusFromLease K lg l0) ?t = (r, s')"
        using run comp q' Inr meta False same
        by (simp add: reconcileControllerType_def Let_def updateLeaseMetadata_def lease_key_of_def)
      moreover have "lease_in_place K lg l0 ?new" using Inr meta False by (simp add: place)
      moreover have "group_calls K lg ?new" using read by (simp add: group_calls_def)
      ultimately show ?thesis using lg by (intro status_group_calls[where u = ?t]) simp_all
    next
      case True
      obtain c w' where c: "UpdateLease K m w = (c, w')" by (metis prod.exhaust)
      let ?new = "[CallGetLease ?key q, CallUpdateLease m c]"
      let ?u = "s\<lparr>lg_world := w', lg_calls := lg_calls s @ ?new\<rparr>"
      have ok: "group_calls K lg ?new" using read lg Inr meta True by (simp add: group_calls_def)
      show ?thesis
      proof (cases c)
        case (Inl e)
        then have "lg_calls s' = lg_calls s @ ?new"
          using run comp q' \<open>q = Inr l0\<close> meta True c
          by (auto simp: reconcileControllerType_def Let_def updateLeaseMetadata_def lease_key_of_def)
        with ok show ?thesis by blast
      next
        case l: (Inr l)
        then have "run_state (updateStatusFromLease K lg l) ?u = (r, s')"
          using run comp q' Inr meta True c
          by (simp add: reconcileControllerType_def Let_def updateLeaseMetadata_def lease_key_of_def)
        moreover have "lease_in_place K lg l ?new" using Inr meta True l by (simp add: place)
        ultimately show ?thesis using ok lg by (intro status_group_calls[where u = ?u]) simp_all
      qed
    qed
  qed
qed

lemma cleanupLease_calls:
  assumes run: "run_state (cleanupLease K lg) s = (r, s')" and "DeletionTimestamp lg \<noteq> None"
  shows "\<exists>new. lg_calls s' = lg_calls s @ new \<and> group_calls K lg new"
proof (cases "SpecType (Spec lg) = LeaderGroupTypeController")
  case False
  with run show ?thesis by (simp add: cleanupLease_def group_calls_def)
next
  case True
  let ?key = "lease_key_of lg"
  obtain q w where q: "GetLease K ?key (lg_world s) = (q, w)" by (metis prod.exhaust)
  note steps = cleanupLease_def Let_def lease_key_of_def group_calls_def
  show ?thesis
  proof (cases q)
    case (Inl err)
    with run q True have "lg_calls s' = lg_calls s @ [CallGetLease ?key q]"
      by (auto simp: steps split: if_splits)
    with True show ?thesis by (intro exI[of _ "[CallGetLease ?key q]"]) (simp add: group_calls_def)
  next
    case (Inr l)
    let ?new = "[CallGetLease ?key q, CallDeleteLease l (fst (DeleteLease K l w))]"
    have "lg_calls s' = lg_calls s @ ?new" using run q True Inr by (auto simp: steps)
    with True Inr assms(2) show ?thesis by (intro exI[of _ ?new]) (simp add: group_calls_def)
  qed
qed

text \<open>The calls of a run: none but the read when there is no group, those of its group otherwise.\<close>

lemma ReconcileGroup_calls:
  assumes "run_state (ReconcileGroup K req) s = (r, s')"
  shows "\<exists>q new. lg_calls s' = lg_calls s @ CallGetGroup req q # new \<and>
    (case q of Inl err \<Rightarrow> new = [] | Inr lg \<Rightarrow> group_calls K lg new)"
proof -
  obtain q w where q: "GetGroup K req (lg_world s) = (q, w)" by (metis prod.exhaust)
  let ?s = "s\<lparr>lg_world := w, lg_calls := lg_calls s @ [CallGetGroup req q]\<rparr>"
  show ?thesis
  proof (cases q)
    case (Inl err)
    then have "lg_calls s' = lg_calls s @ [CallGetGroup req q]"
      using assms q by (auto simp: ReconcileGroup_def split: if_splits)
    then show ?thesis using Inl by auto
  next
    case (Inr lg)
    have "\<exists>new. lg_calls s' = lg_calls ?s @ new \<and> group_calls K lg new"
    proof (cases "DeletionTimestamp lg")
      case None
      show ?thesis
      proof (cases "SpecType (Spec lg) = LeaderGroupTypeController")
        case True
        then have "run_state (reconcileControllerType K lg) ?s = (r, s')"
          using assms q Inr None by (simp add: ReconcileGroup_def)
        then show ?thesis using None True by (rule reconcileControllerType_calls)
      next
        case False
        then show ?thesis using assms q Inr None
          by (auto simp: ReconcileGroup_def group_calls_def split: if_splits)
      qed
    next
      case (Some t)
      obtain c u where c: "run_state (cleanupLease K lg) ?s = (c, u)" by (metis prod.exhaust)
      have "s' = u" using assms q Inr Some c by (simp add: ReconcileGroup_def)
      with cleanupLease_calls[OF c] Some show ?thesis by simp
    qed
    then show ?thesis using Inr by auto
  qed
qed

subsection \<open>What success means\<close>

text \<open>
  A controller group is in step with a lease when its stored status mirrors the lease, either
  because the status was just written or because it compares equal.
\<close>

definition in_step :: "leader_group \<Rightarrow> lease \<Rightarrow> lg_call list \<Rightarrow> bool" where
  "in_step lg l new \<longleftrightarrow>
     (\<exists>t. CallUpdateStatus (lg\<lparr>Status := status_from_lease t (Status lg) l\<rparr>) (Inr ()) \<in> set new) \<or>
     (\<exists>t. statusEqual (Status lg) (status_from_lease t (Status lg) l))"

lemma updateStatusFromLease_success:
  assumes "run_state (updateStatusFromLease K lg l) s = (Inr q, s')"
  shows "q = Some requeueInterval \<and> (\<exists>new. lg_calls s' = lg_calls s @ new \<and> in_step lg l new)"
proof (cases "statusEqual (Status lg) (status_from_lease (fst (LgNow K (lg_world s))) (Status lg) l)")
  case True
  then show ?thesis using assms by (auto simp: updateStatusFromLease_def Let_def in_step_def)
next
  case False
  let ?g = "lg\<lparr>Status := status_from_lease (fst (LgNow K (lg_world s))) (Status lg) l\<rparr>"
  obtain r w where r: "UpdateStatus K ?g (snd (LgNow K (lg_world s))) = (r, w)"
    by (metis prod.exhaust)
  with assms False show ?thesis
    by (cases r) (auto simp: updateStatusFromLease_def Let_def in_step_def)
qed

lemma in_step_mono: "in_step lg l new \<Longrightarrow> set new \<subseteq> set new' \<Longrightarrow> in_step lg l new'"
  by (auto simp: in_step_def)

lemma reconcileControllerType_success:
  assumes "run_state (reconcileControllerType K lg) s = (Inr q, s')"
  shows "q = Some requeueInterval \<and> Component (Spec lg) \<noteq> '''' \<and>
    (\<exists>new l. lg_calls s' = lg_calls s @ new \<and> lease_in_place K lg l new \<and> in_step lg l new)"
proof -
  have comp: "Component (Spec lg) \<noteq> ''''"
    using assms by (auto simp: reconcileControllerType_def)
  let ?key = "(Namespace lg, deriveLeaseName (Component (Spec lg)))"
  obtain r w where r: "GetLease K ?key (lg_world s) = (r, w)" by (metis prod.exhaust)
  let ?t = "s\<lparr>lg_world := w, lg_calls := lg_calls s @ [CallGetLease ?key r]\<rparr>"
  show ?thesis
  proof (cases r)
    case (Inl err)
    let ?l = "buildLease K lg (deriveLeaseName (Component (Spec lg)))"
    obtain c w' where c: "CreateLease K ?l w = (c, w')" by (metis prod.exhaust)
    let ?u = "?t\<lparr>lg_world := w', lg_calls := lg_calls ?t @ [CallCreateLease ?l c]\<rparr>"
    obtain l where l: "c = Inr l" and run: "run_state (updateStatusFromLease K lg l) ?u = (Inr q, s')"
      using assms comp r Inl c
      by (cases c) (auto simp: reconcileControllerType_def Let_def split: if_splits)
    from updateStatusFromLease_success[OF run] obtain new where
      new: "lg_calls s' = lg_calls ?u @ new" "in_step lg l new" and q: "q = Some requeueInterval"
      by blast
    let ?new = "CallGetLease ?key r # CallCreateLease ?l c # new"
    have "lg_calls s' = lg_calls s @ ?new" using new by simp
    moreover have "lease_in_place K lg l ?new" using l by (simp add: lease_in_place_def)
    moreover have "in_step lg l ?new" using new(2) by (rule in_step_mono) auto
    ultimately show ?thesis using q comp by blast
  next
    case (Inr l0)
    obtain m u where m: "run_state (updateLeaseMetadata K l0 lg) ?t = (m, u)" by (metis prod.exhaust)
    obtain l where l: "m = Inr l" and run: "run_state (updateStatusFromLease K lg l) u = (Inr q, s')"
      using assms comp r Inr m
      by (cases m) (auto simp: reconcileControllerType_def Let_def)
    from updateStatusFromLease_success[OF run] obtain new where
      new: "lg_calls s' = lg_calls u @ new" "in_step lg l new" and q: "q = Some requeueInterval"
      by blast
    let ?upd = "if fst (lease_metadata l0 lg) then [CallUpdateLease (snd (lease_metadata l0 lg)) m] else []"
    have u: "lg_calls u = lg_calls ?t @ ?upd" and "\<not> fst (lease_metadata l0 lg) \<Longrightarrow> l = l0"
      using m l lease_metadata_unchanged[of l0 lg]
      by (auto simp: updateLeaseMetadata_def split: prod.splits if_splits)
    let ?new = "CallGetLease ?key r # ?upd @ new"
    have "lg_calls s' = lg_calls s @ ?new" using new u by simp
    moreover have "lease_in_place K lg l ?new"
      using l Inr \<open>\<not> fst (lease_metadata l0 lg) \<Longrightarrow> l = l0\<close>
      unfolding lease_in_place_def by (intro disjI2 exI[of _ l0]) auto
    moreover have "in_step lg l ?new" using new(2) by (rule in_step_mono) auto
    ultimately show ?thesis using q comp by blast
  qed
qed

end
