(* ===== verification/Manager.thy ===== *)
theory Manager
  imports Director Complex_Main
begin

text \<open>
  The process: the flags of \<^verbatim>\<open>cmd/manager/main.go\<close>, the conversion of their values into the
  arguments of \<^verbatim>\<open>NewServiceDirectorReconciler\<close>, the start-up sequence with the points at which it
  exits, and the metric registry, which \<^verbatim>\<open>NewRecorder\<close> of \<^verbatim>\<open>pkg/metrics/metrics.go\<close> and
  \<^verbatim>\<open>main\<close> both register with. Whether a step of the controller-runtime library succeeds is a
  parameter. Logging and tracing are left out.
\<close>

subsection \<open>Flags\<close>

record flags =
  metrics_bind_address :: string
  health_probe_bind_address :: string
  leader_election_id :: string
  qps :: rat
  burst :: int
  enable_leader_groups :: bool
  max_cache_size_per_namespace :: int
  max_concurrent_reconciles :: int
  cache_update_timeout_seconds :: int
  metrics_collection_timeout_seconds :: int
  fast_retry_initial_delay_ms :: int
  fast_retry_max_delay_ms :: int
  fast_retry_max_attempts :: int
  enable_leader_pod_cache :: bool
  leader_pod_cache_ttl_seconds :: int
  enable_parallel_api_calls :: bool

definition default_flags :: flags where
  "default_flags =
     \<lparr>metrics_bind_address = '':8080'', health_probe_bind_address = '':8081'',
      leader_election_id = ''zen-lead-controller-leader-election'', qps = 50, burst = 100,
      enable_leader_groups = False, max_cache_size_per_namespace = 1000,
      max_concurrent_reconciles = 10, cache_update_timeout_seconds = 10,
      metrics_collection_timeout_seconds = 5, fast_retry_initial_delay_ms = 20,
      fast_retry_max_delay_ms = 500, fast_retry_max_attempts = 2, enable_leader_pod_cache = True,
      leader_pod_cache_ttl_seconds = 30, enable_parallel_api_calls = True\<rparr>"

text \<open>
  The limits of the API client. A rate is a rational number here; the conversion \<^verbatim>\<open>float32(qps)\<close>
  and the zen-sdk's defaults are parameters.
\<close>

record rest_config =
  QPS :: rat
  Burst :: int

definition apply_rate_limits ::
  "(rat \<Rightarrow> rat) \<Rightarrow> (rest_config \<Rightarrow> rest_config) \<Rightarrow> flags \<Rightarrow> rest_config \<Rightarrow> rest_config" where
  "apply_rate_limits float32 applyRestConfigDefaults f c0 =
     (let c1 = (if 0 < qps f then c0\<lparr>QPS := float32 (qps f)\<rparr> else c0);
          c2 = (if 0 < burst f then c1\<lparr>Burst := burst f\<rparr> else c1)
      in if QPS c2 = 0 then applyRestConfigDefaults c2 else c2)"

text \<open>\<^verbatim>\<open>time.Duration(n) * unit\<close> is a 64-bit product and wraps.\<close>

definition int64 :: "int \<Rightarrow> int" where
  "int64 n = (n + 2 ^ 63) mod 2 ^ 64 - 2 ^ 63"

definition flag_duration :: "int \<Rightarrow> duration \<Rightarrow> duration" where
  "flag_duration n unit = int64 (n * unit)"

definition director_of_flags :: "'w \<Rightarrow> flags \<Rightarrow> director_config \<times> 'w sys" where
  "director_of_flags w f =
     NewServiceDirectorReconciler w (max_cache_size_per_namespace f) (max_concurrent_reconciles f)
       (flag_duration (cache_update_timeout_seconds f) second)
       (flag_duration (metrics_collection_timeout_seconds f) second)
       (flag_duration (fast_retry_initial_delay_ms f) millisecond)
       (flag_duration (fast_retry_max_delay_ms f) millisecond)
       (fast_retry_max_attempts f) (enable_leader_pod_cache f)
       (flag_duration (leader_pod_cache_ttl_seconds f) second) (enable_parallel_api_calls f)"

subsection \<open>The registry\<close>

text \<open>
  The Prometheus registry is not part of the program. \<open>MustRegister\<close> and the constructor of the
  zen-sdk's recorder are parameters over an arbitrary type of registries (\<open>None\<close> is a panic), and
  \<open>Registered\<close> observes a registry. The laws are the documented behaviour of the client library:
  registering adds the collectors and keeps the others, a collector that is registered already
  panics, and collectors with new, pairwise different names are accepted.
\<close>

type_synonym collector = "string \<times> string list"

record 'r prometheus =
  MustRegister :: "collector list \<Rightarrow> 'r \<Rightarrow> 'r option"
  SdkRecorder :: "'r \<Rightarrow> 'r option"
  Registered :: "collector \<Rightarrow> 'r \<Rightarrow> bool"

definition register_adds :: "'r prometheus \<Rightarrow> bool" where
  "register_adds P \<longleftrightarrow>
     (\<forall>cs reg reg' c. MustRegister P cs reg = Some reg' \<longrightarrow>
        (Registered P c reg' \<longleftrightarrow> c \<in> set cs \<or> Registered P c reg))"

definition register_panics :: "'r prometheus \<Rightarrow> bool" where
  "register_panics P \<longleftrightarrow>
     (\<forall>cs reg c. c \<in> set cs \<longrightarrow> Registered P c reg \<longrightarrow> MustRegister P cs reg = None)"

definition register_accepts :: "'r prometheus \<Rightarrow> bool" where
  "register_accepts P \<longleftrightarrow>
     (\<forall>cs reg. distinct (map fst cs) \<longrightarrow>
        (\<forall>c labels. c \<in> set cs \<longrightarrow> \<not> Registered P (fst c, labels) reg) \<longrightarrow>
        MustRegister P cs reg \<noteq> None)"

definition registry_laws :: "'r prometheus \<Rightarrow> bool" where
  "registry_laws P \<longleftrightarrow> register_adds P \<and> register_panics P \<and> register_accepts P"

definition build_info :: collector where
  "build_info = (''zen_lead_build_info'', [''version'', ''commit'', ''build_date''])"

definition series_collector :: "series \<Rightarrow> collector" where
  "series_collector s = (fst s, snd (snd s))"

record 'r metrics_state =
  registry_of :: 'r
  globalRecorder :: bool

definition NewRecorder :: "'r prometheus \<Rightarrow> 'r metrics_state \<Rightarrow> 'r metrics_state option" where
  "NewRecorder P m =
     (if globalRecorder m then Some m
      else case SdkRecorder P (registry_of m) of
        None \<Rightarrow> None
      | Some reg1 \<Rightarrow>
          (case MustRegister P [build_info] reg1 of
             None \<Rightarrow> None
           | Some reg2 \<Rightarrow>
               (case MustRegister P (map series_collector declared_series) reg2 of
                  None \<Rightarrow> None
                | Some reg3 \<Rightarrow> Some \<lparr>registry_of = reg3, globalRecorder = True\<rparr>)))"

definition ResetGlobalRecorder :: "'r metrics_state \<Rightarrow> 'r metrics_state" where
  "ResetGlobalRecorder m = m\<lparr>globalRecorder := False\<rparr>"

subsection \<open>Start-up\<close>

record startup =
  tracing_ok :: bool
  has_namespace :: bool
  has_config :: bool
  manager_ok :: bool
  director_setup_ok :: bool
  groups_setup_ok :: bool
  healthz_ok :: bool
  readyz_ok :: bool
  run_ok :: bool

datatype 'r main_outcome = ExitOne string | Panic string | Finished "'r metrics_state"

text \<open>
  The functions \<^verbatim>\<open>main\<close> defers, in the order in which they run when it returns or panics.
  \<^verbatim>\<open>os.Exit\<close> ends the process without running any.
\<close>

datatype deferred = ShutdownTracing | CancelContext

definition deferred_functions :: "startup \<Rightarrow> deferred list" where
  "deferred_functions st = (if tracing_ok st then [ShutdownTracing] else []) @ [CancelContext]"

definition deferred_run :: "startup \<Rightarrow> 'r main_outcome \<Rightarrow> deferred list" where
  "deferred_run st ending = (case ending of ExitOne code \<Rightarrow> [] | _ \<Rightarrow> deferred_functions st)"

definition main :: "'r prometheus \<Rightarrow> flags \<Rightarrow> startup \<Rightarrow> 'r metrics_state \<Rightarrow> 'r main_outcome" where
  "main P f st m =
     (if \<not> has_namespace st then ExitOne ''LEADER_ELECTION_ERROR''
      else if \<not> has_config st then ExitOne ''GetConfigOrDie''
      else if \<not> manager_ok st then ExitOne ''MANAGER_INIT_ERROR''
      else case NewRecorder P m of
        None \<Rightarrow> Panic ''NewRecorder''
      | Some m1 \<Rightarrow>
          if \<not> director_setup_ok st then ExitOne ''CONTROLLER_SETUP_ERROR''
          else if enable_leader_groups f \<and> \<not> groups_setup_ok st then ExitOne ''CONTROLLER_SETUP_ERROR''
          else if \<not> healthz_ok st then ExitOne ''HEALTH_CHECK_ERROR''
          else if \<not> readyz_ok st then ExitOne ''READY_CHECK_ERROR''
          else case MustRegister P [build_info] (registry_of m1) of
            None \<Rightarrow> Panic ''build_info''
          | Some reg \<Rightarrow>
              if \<not> run_ok st then ExitOne ''MANAGER_RUN_ERROR''
              else Finished (m1\<lparr>registry_of := reg\<rparr>))"

text \<open>A registry that keeps the list of its collectors, and no collectors of the zen-sdk.\<close>

fun register_list :: "collector list \<Rightarrow> collector list \<Rightarrow> collector list option" where
  "register_list [] reg = Some reg"
| "register_list (c # cs) reg =
     (if fst c \<in> set (map fst reg) then None else register_list cs (c # reg))"

definition list_registry :: "collector list prometheus" where
  "list_registry =
     \<lparr>MustRegister = register_list, SdkRecorder = Some, Registered = (\<lambda>c reg. c \<in> set reg)\<rparr>"

subsection \<open>Properties\<close>

lemma int64_range: "- (2 ^ 63) \<le> int64 n \<and> int64 n < 2 ^ 63"
proof -
  have "0 \<le> (n + 2 ^ 63) mod 2 ^ 64" and "(n + 2 ^ 63) mod 2 ^ 64 < (2 ^ 64 :: int)"
    by simp_all
  then show ?thesis by (simp add: int64_def)
qed

lemma int64_id: "- (2 ^ 63) \<le> n \<Longrightarrow> n < 2 ^ 63 \<Longrightarrow> int64 n = n"
  by (simp add: int64_def)

text \<open>Every limit and delay of the reconciler is positive, whatever the flags say.\<close>

lemma positive_or_pos: "0 < fallback \<Longrightarrow> 0 < positive_or fallback n"
  by (simp add: positive_or_def)

lemma director_config_positive:
  "0 < maxCacheSizePerNamespace (fst (director_of_flags w f)) \<and>
   0 < maxConcurrentReconciles (fst (director_of_flags w f)) \<and>
   0 < cacheUpdateTimeout (fst (director_of_flags w f)) \<and>
   0 < metricsCollectionTimeout (fst (director_of_flags w f)) \<and>
   0 < MaxAttempts (fastRetryConfig (fst (director_of_flags w f))) \<and>
   0 < InitialDelay (fastRetryConfig (fst (director_of_flags w f))) \<and>
   0 < MaxDelay (fastRetryConfig (fst (director_of_flags w f))) \<and>
   0 < leaderPodCacheTTL (fst (director_of_flags w f))"
  by (simp add: director_of_flags_def NewServiceDirectorReconciler_def positive_or_pos seconds_def
      milliseconds_def)

text \<open>
  A time to live is a multiple of 512 nanoseconds even after the product has wrapped, so half of it
  is a period that a ticker accepts.
\<close>

lemma int64_dvd: "d dvd n \<Longrightarrow> d dvd 2 ^ 63 \<Longrightarrow> d dvd int64 n"
  using dvd_mult2[of d "2 ^ 63" 2] by (simp add: int64_def dvd_mod)

lemma cache_ttl_ticks: "0 < leaderPodCacheTTL (fst (director_of_flags w f)) div 2"
proof -
  let ?ttl = "flag_duration (leader_pod_cache_ttl_seconds f) second"
  have "512 dvd ?ttl"
    unfolding flag_duration_def by (rule int64_dvd) (simp_all add: dvd_mult)
  then have "0 < ?ttl \<Longrightarrow> 512 \<le> ?ttl" by (rule zdvd_imp_le)
  then show ?thesis
    by (auto simp: director_of_flags_def NewServiceDirectorReconciler_def positive_or_def seconds_def)
qed

lemma default_flags_config:
  "fst (director_of_flags w default_flags) =
     \<lparr>maxCacheSizePerNamespace = 1000, maxConcurrentReconciles = 10,
      cacheUpdateTimeout = seconds 10, metricsCollectionTimeout = seconds 5,
      fastRetryConfig = \<lparr>MaxAttempts = 2, InitialDelay = milliseconds 20,
        MaxDelay = milliseconds 500, Multiplier = 2\<rparr>,
      enableParallelAPICalls = True, leaderPodCacheTTL = seconds 30\<rparr>"
  by (simp add: director_of_flags_def NewServiceDirectorReconciler_def default_flags_def
      flag_duration_def positive_or_def seconds_def milliseconds_def int64_def)

lemma register_list_Some: "register_list cs reg = Some reg' \<Longrightarrow> set reg' = set cs \<union> set reg"
  by (induction cs arbitrary: reg) (auto split: if_splits)

lemma register_list_None:
  "c \<in> set cs \<Longrightarrow> fst c \<in> fst ` set reg \<Longrightarrow> register_list cs reg = None"
proof (induction cs arbitrary: reg)
  case (Cons d cs)
  show ?case
  proof (cases "c \<in> set cs")
    case True
    then have "register_list cs (d # reg) = None" using Cons.prems(2) by (intro Cons.IH) auto
    then show ?thesis by simp
  next
    case False
    with Cons.prems show ?thesis by auto
  qed
qed simp

lemma register_list_fresh:
  "distinct (map fst cs) \<Longrightarrow> set (map fst cs) \<inter> set (map fst reg) = {} \<Longrightarrow> register_list cs reg \<noteq> None"
proof (induction cs arbitrary: reg)
  case (Cons c cs)
  then have "register_list cs (c # reg) \<noteq> None" by (intro Cons.IH) auto
  with Cons.prems show ?case by simp
qed simp

lemma list_registry_laws: "registry_laws list_registry"
proof -
  have "register_adds list_registry"
    by (auto simp: register_adds_def list_registry_def dest: register_list_Some)
  moreover have "register_panics list_registry"
  proof -
    have "register_list cs reg = None" if "c \<in> set cs" and "c \<in> set reg" for cs reg c
      using that by (intro register_list_None[OF that(1)]) auto
    then show ?thesis by (simp add: register_panics_def list_registry_def)
  qed
  moreover have "register_accepts list_registry"
  proof -
    have "register_list cs reg \<noteq> None"
      if "distinct (map fst cs)" and "\<forall>c labels. c \<in> set cs \<longrightarrow> (fst c, labels) \<notin> set reg" for cs reg
      using that(2) by (intro register_list_fresh[OF that(1)]) force
    then show ?thesis by (simp add: register_accepts_def list_registry_def)
  qed
  ultimately show ?thesis by (simp add: registry_laws_def)
qed

lemma register_acceptsD:
  "registry_laws P \<Longrightarrow> distinct (map fst cs) \<Longrightarrow>
   (\<And>c labels. c \<in> set cs \<Longrightarrow> \<not> Registered P (fst c, labels) reg) \<Longrightarrow>
   \<exists>reg'. MustRegister P cs reg = Some reg'"
  unfolding registry_laws_def register_accepts_def by blast

lemma register_addsD:
  "registry_laws P \<Longrightarrow> MustRegister P cs reg = Some reg' \<Longrightarrow>
   Registered P c reg' \<longleftrightarrow> c \<in> set cs \<or> Registered P c reg"
  unfolding registry_laws_def register_adds_def by blast

lemma register_panicsD:
  "registry_laws P \<Longrightarrow> c \<in> set cs \<Longrightarrow> Registered P c reg \<Longrightarrow> MustRegister P cs reg = None"
  unfolding registry_laws_def register_panics_def by blast

lemma distinct_collectors: "distinct (map fst (build_info # map series_collector declared_series))"
  by (simp add: build_info_def series_collector_def declared_series_def leader_series_def
      api_series_def)

text \<open>
  The first recorder registers every declared series once and without a panic, when no registered
  collector has one of their names.
\<close>

lemma NewRecorder_fresh:
  assumes laws: "registry_laws P" and "\<not> globalRecorder m"
    and sdk: "SdkRecorder P (registry_of m) = Some reg1"
    and unused: "\<And>c labels. c \<in> set (build_info # map series_collector declared_series) \<Longrightarrow>
      \<not> Registered P (fst c, labels) reg1"
  shows "\<exists>m'. NewRecorder P m = Some m' \<and> globalRecorder m' \<and>
    (\<forall>c. Registered P c (registry_of m') \<longleftrightarrow>
       c = build_info \<or> c \<in> set (map series_collector declared_series) \<or> Registered P c reg1)"
proof -
  let ?cs = "map series_collector declared_series"
  obtain reg2 where reg2: "MustRegister P [build_info] reg1 = Some reg2"
    using register_acceptsD[OF laws, of "[build_info]" reg1] unused[of build_info] by auto
  have in2: "Registered P c reg2 \<longleftrightarrow> c = build_info \<or> Registered P c reg1" for c
    using register_addsD[OF laws reg2] by simp
  have "\<not> Registered P (fst c, labels) reg2" if "c \<in> set ?cs" for c labels
  proof -
    have "fst build_info \<noteq> fst c" using that distinct_collectors by auto
    then have "(fst c, labels) \<noteq> build_info" by (metis fst_conv)
    moreover have "\<not> Registered P (fst c, labels) reg1" using that unused[of c] by simp
    ultimately show ?thesis by (simp add: in2)
  qed
  moreover have "distinct (map fst ?cs)" using distinct_collectors by simp
  ultimately obtain reg3 where reg3: "MustRegister P ?cs reg2 = Some reg3"
    using register_acceptsD[OF laws] by metis
  have "Registered P c reg3 \<longleftrightarrow> c \<in> set ?cs \<or> Registered P c reg2" for c
    by (rule register_addsD[OF laws reg3])
  with assms(2) sdk reg2 reg3 in2 show ?thesis by (auto simp: NewRecorder_def)
qed

lemma NewRecorder_build_info:
  assumes "registry_laws P" and "NewRecorder P m = Some m'" and "\<not> globalRecorder m"
  shows "Registered P build_info (registry_of m')"
proof -
  obtain reg2 reg3 where "MustRegister P [build_info] (the (SdkRecorder P (registry_of m))) = Some reg2"
    and "MustRegister P (map series_collector declared_series) reg2 = Some reg3"
    and "registry_of m' = reg3"
    using assms(2,3) by (auto simp: NewRecorder_def split: option.splits)
  then show ?thesis
    using register_addsD[OF assms(1)] by (metis list.set_intros(1))
qed

text \<open>
  The recorder has registered \<^verbatim>\<open>zen_lead_build_info\<close> by the time \<^verbatim>\<open>main\<close> registers it, so the
  manager is never started.
\<close>

lemma second_registration_panics:
  assumes "registry_laws P" and "NewRecorder P m = Some m'" and "\<not> globalRecorder m"
  shows "MustRegister P [build_info] (registry_of m') = None"
  by (rule register_panicsD[OF assms(1) _ NewRecorder_build_info[OF assms]]) simp

lemma main_never_starts:
  assumes "registry_laws P" and "\<not> globalRecorder m"
  shows "main P f st m \<noteq> Finished m'" and "main P f st m \<noteq> ExitOne ''MANAGER_RUN_ERROR''"
  using second_registration_panics[OF assms(1) _ assms(2)]
  by (auto simp: main_def split: option.splits)

text \<open>
  A process that exits with an error code runs none of the deferred functions, so tracing is not
  shut down.
\<close>

lemma exit_skips_deferred:
  "\<not> has_namespace st \<or> \<not> has_config st \<or> \<not> manager_ok st \<Longrightarrow> deferred_run st (main P f st m) = []"
  by (simp add: main_def deferred_run_def)

lemma main_panics:
  assumes "registry_laws P" and "\<not> globalRecorder m"
    and "has_namespace st" "has_config st" "manager_ok st" "director_setup_ok st"
    "groups_setup_ok st" "healthz_ok st" "readyz_ok st"
  shows "\<exists>why. main P f st m = Panic why"
  using second_registration_panics[OF assms(1) _ assms(2)] assms(3-)
  by (auto simp: main_def split: option.splits)

end
