(* ===== verification/Controller.thy ===== *)
theory Controller
  imports Handlers Convergence LeaderGroup Manager
begin

text \<open>
  The controllers as they are registered with the manager (\<^verbatim>\<open>SetupWithManager\<close> of
  \<^verbatim>\<open>service_director.go\<close> and of \<^verbatim>\<open>leadergroup_controller.go\<close>), and the process they run in.
  \<^verbatim>\<open>SetupWithManager\<close> hands a description to the controller-runtime library: the kinds to watch,
  the map functions and predicates, the reconciler and the clean-up runnable. Which of these the
  library calls, when and with which objects, is not part of the program: in the transition system
  below they run in any order, with any arguments, while the world outside changes at will.
\<close>

subsection \<open>What is registered\<close>

datatype watched_object =
    ServiceObject service
  | PodObject pod
  | SliceObject endpoint_slice
  | OtherObject

datatype watch_event =
    CreateEvent watched_object
  | UpdateEvent watched_object watched_object
  | DeleteEvent watched_object
  | GenericEvent watched_object

datatype kind = ServiceKind | PodKind | EndpointSliceKind | LeaderGroupKind | LeaseKind

record 's watch =
  watch_kind :: kind
  watch_map :: "watched_object \<Rightarrow> ('s, nsname list) state"
  watch_predicate :: "watch_event \<Rightarrow> bool"

record ('s, 'r) controller =
  For :: kind
  Owns :: "kind list"
  Watches :: "'s watch list"
  MaxConcurrentReconciles :: "int option"
  reconciler :: "nsname \<Rightarrow> ('s, 'r) state"

text \<open>The type assertions at the beginning of the map functions and of the predicate.\<close>

definition pod_requests ::
  "'w kube \<Rightarrow> director_config \<Rightarrow> watched_object \<Rightarrow> ('w sys, nsname list) state" where
  "pod_requests K cfg ob = (case ob of PodObject p \<Rightarrow> mapPodToService K cfg p | _ \<Rightarrow> ret [])"

definition slice_requests :: "watched_object \<Rightarrow> ('w sys, nsname list) state" where
  "slice_requests ob =
     ret (case ob of SliceObject slice \<Rightarrow> mapEndpointSliceToService slice | _ \<Rightarrow> [])"

fun pod_predicate :: "watch_event \<Rightarrow> bool" where
  "pod_predicate (CreateEvent ob) = True"
| "pod_predicate (UpdateEvent old new) =
     (case (old, new) of
        (PodObject oldPod, PodObject newPod) \<Rightarrow> podPredicate (PodUpdate oldPod newPod)
      | _ \<Rightarrow> False)"
| "pod_predicate (DeleteEvent ob) = True"
| "pod_predicate (GenericEvent ob) = False"

text \<open>The manager either takes the clean-up runnable and the controller, or returns an error.\<close>

record manager =
  add_error :: "string option"
  complete_error :: "string option"

datatype setup_error = AddRunnableFailed string | CompleteFailed string

record 'w installed =
  cleanup_every :: "duration option"
  director :: "('w sys, reconcile_error + unit) controller"

definition director_controller ::
  "'w kube \<Rightarrow> director_config \<Rightarrow> ('w sys, reconcile_error + unit) controller" where
  "director_controller K cfg =
     \<lparr>For = ServiceKind, Owns = [],
      Watches =
        [\<lparr>watch_kind = PodKind, watch_map = pod_requests K cfg, watch_predicate = pod_predicate\<rparr>,
         \<lparr>watch_kind = EndpointSliceKind, watch_map = slice_requests, watch_predicate = (\<lambda>e. True)\<rparr>],
      MaxConcurrentReconciles = Some (maxConcurrentReconciles cfg),
      reconciler = Reconcile K cfg\<rparr>"

definition SetupWithManager ::
  "'w kube \<Rightarrow> director_config \<Rightarrow> 'w sys \<Rightarrow> manager \<Rightarrow> setup_error + 'w installed" where
  "SetupWithManager K cfg s mgr =
     (let cleans = leaderPodCache s \<noteq> None \<and> 0 < leaderPodCacheTTL cfg
      in case (if cleans then add_error mgr else None) of
           Some e \<Rightarrow> Inl (AddRunnableFailed e)
         | None \<Rightarrow>
             (case complete_error mgr of
                Some e \<Rightarrow> Inl (CompleteFailed e)
              | None \<Rightarrow>
                  Inr \<lparr>cleanup_every = (if cleans then Some (leaderPodCacheTTL cfg) else None),
                       director = director_controller K cfg\<rparr>))"

definition leader_group_controller ::
  "(nsname \<Rightarrow> ('s, 'r) state) \<Rightarrow> manager \<Rightarrow> setup_error + ('s, 'r) controller" where
  "leader_group_controller reconcile mgr =
     (case complete_error mgr of
        Some e \<Rightarrow> Inl (CompleteFailed e)
      | None \<Rightarrow> Inr \<lparr>For = LeaderGroupKind, Owns = [LeaseKind], Watches = [],
          MaxConcurrentReconciles = None, reconciler = reconcile\<rparr>)"

lemma installed_director:
  "SetupWithManager K cfg s mgr = Inr C \<Longrightarrow> director C = director_controller K cfg"
  by (auto simp: SetupWithManager_def Let_def split: option.splits if_splits)

subsection \<open>The scheme\<close>

text \<open>
  The scheme knows the kinds the client can read and write: a list of kinds under their group and
  version. \<^verbatim>\<open>groupversion_info.go\<close> builds the function that adds those of the package, which the
  \<^verbatim>\<open>init\<close> function of \<^verbatim>\<open>leadergroup_types.go\<close> registers; \<^verbatim>\<open>main\<close> applies it to a scheme with the kinds of
  client-go, a parameter here.
\<close>

type_synonym group_version = "string \<times> string"
type_synonym scheme = "(group_version \<times> string) list"

definition GroupVersion :: group_version where
  "GroupVersion = (''leadership.kube-zen.io'', ''v1alpha1'')"

definition SchemeBuilder :: "string list" where
  "SchemeBuilder = [''LeaderGroup'', ''LeaderGroupList'']"

definition AddToScheme :: "scheme \<Rightarrow> scheme" where
  "AddToScheme s = s @ map (Pair GroupVersion) SchemeBuilder"

definition main_scheme :: "scheme \<Rightarrow> scheme" where
  "main_scheme client_go = AddToScheme client_go"

fun kind_in_scheme :: "kind \<Rightarrow> group_version \<times> string" where
  "kind_in_scheme ServiceKind = (('''', ''v1''), ''Service'')"
| "kind_in_scheme PodKind = (('''', ''v1''), ''Pod'')"
| "kind_in_scheme EndpointSliceKind = ((''discovery.k8s.io'', ''v1''), ''EndpointSlice'')"
| "kind_in_scheme LeaderGroupKind = (GroupVersion, ''LeaderGroup'')"
| "kind_in_scheme LeaseKind = ((''coordination.k8s.io'', ''v1''), ''Lease'')"

definition watched_kinds :: "('s, 'r) controller \<Rightarrow> kind set" where
  "watched_kinds c = insert (For c) (set (Owns c) \<union> watch_kind ` set (Watches c))"

text \<open>Both controllers watch kinds that the scheme knows, given those of client-go.\<close>

lemma kinds_known:
  "kind_in_scheme ` (UNIV - {LeaderGroupKind}) \<subseteq> set client_go \<Longrightarrow>
   kind_in_scheme k \<in> set (main_scheme client_go)"
  by (cases "k = LeaderGroupKind") (auto simp: main_scheme_def AddToScheme_def SchemeBuilder_def)

lemma watched_kinds_known:
  assumes "kind_in_scheme ` (UNIV - {LeaderGroupKind}) \<subseteq> set client_go"
  shows "kind_in_scheme ` watched_kinds (director_controller K cfg) \<subseteq> set (main_scheme client_go)"
    and "leader_group_controller rec mgr = Inr c \<Longrightarrow>
      kind_in_scheme ` watched_kinds c \<subseteq> set (main_scheme client_go)"
  using kinds_known[OF assms] by blast+

subsection \<open>The running process\<close>

inductive process_step :: "'w kube \<Rightarrow> 'w installed \<Rightarrow> 'w sys \<Rightarrow> 'w sys \<Rightarrow> bool" for K C where
  elsewhere: "process_step K C s (s\<lparr>world := w\<rparr>)"
| notify: "wt \<in> set (Watches (director C)) \<Longrightarrow> run_state (watch_map wt ob) s = (reqs, s') \<Longrightarrow>
    process_step K C s s'"
| reconcile: "run_state (reconciler (director C) req) s = (r, s') \<Longrightarrow> process_step K C s s'"
| clean_up: "cleanup_every C = Some ttl \<Longrightarrow> run_state (cleanup_tick K) s = (u, s') \<Longrightarrow>
    process_step K C s s'"

inductive_cases process_stepE: "process_step K C s t"

text \<open>The calls of a process so far: every write is safe, and only known leader Services are deleted.\<close>

fun deletes_known :: "api_call list \<Rightarrow> api_call \<Rightarrow> bool" where
  "deletes_known past (CallDeleteService item r) =
     ((\<exists>k. CallGetService k (Inr item) \<in> set past) \<or>
      (\<exists>ns n items. CallListServices ns (source_labels n) (Inr items) \<in> set past \<and> item \<in> set items))"
| "deletes_known past c = True"

definition call_safe :: "'w kube \<Rightarrow> api_call list \<Rightarrow> api_call \<Rightarrow> bool" where
  "call_safe K past c \<longleftrightarrow> slices_safe past c \<and> services_safe K past c \<and> deletes_known past c"

lemma routes_safely_mono: "routes_safely past slice \<Longrightarrow> set past \<subseteq> set past2 \<Longrightarrow> routes_safely past2 slice"
  unfolding routes_safely_def by (fastforce split: option.splits)

lemma call_safe_mono:
  assumes "call_safe K past c" and "set past \<subseteq> set past2"
  shows "call_safe K past2 c"
proof -
  have "read_service past svc \<Longrightarrow> read_service past2 svc" for svc
    using assms(2) by (auto simp: read_service_def)
  then show ?thesis
    using assms by (cases c) (auto simp: call_safe_def dest: routes_safely_mono)
qed

lemma call_safe_read: "is_read c \<Longrightarrow> call_safe K past c"
  by (cases c) (auto simp: call_safe_def)

text \<open>Runs extend the log by calls that are safe in it.\<close>

definition extends_safely :: "'w kube \<Rightarrow> 'w sys \<Rightarrow> 'w sys \<Rightarrow> bool" where
  "extends_safely K s t \<longleftrightarrow> (\<exists>new. calls t = calls s @ new \<and> list_all (call_safe K new) new)"

lemma delete_of_known:
  "delete_of (cleanup_targets K req new) c \<Longrightarrow> call_safe K new c"
  by (cases c) (auto simp: call_safe_def cleanup_targets_def)

lemma leader_write_known: "leader_write K svc leader c \<Longrightarrow> deletes_known past c"
  by (cases c) auto

lemma run_writes_known:
  assumes "run_writes K req new"
  shows "list_all (call_safe K new) new"
proof (cases "list_all (delete_of (cleanup_targets K req new)) new")
  case True
  then show ?thesis by (auto simp: list_all_iff dest: delete_of_known)
next
  case False
  then obtain svc leader where "list_all (leader_write K svc leader) new"
    using assms by (auto simp: run_writes_def published_in_def)
  then show ?thesis
    using run_writes_safe[OF assms] by (auto simp: call_safe_def list_all_iff dest: leader_write_known)
qed

lemma Reconcile_extends: "run_state (Reconcile K cfg req) s = (r, t) \<Longrightarrow> extends_safely K s t"
  using Reconcile_writes[of K cfg req s r t] run_writes_known by (fastforce simp: extends_safely_def)

lemma logs_mapPodToService: "state_io_rel (appends calls is_read) (mapPodToService K cfg p)"
proof -
  have "state_io_rel (appends calls is_read) (updateOptedInServicesCacheLocked K cfg ns)" for ns
    using logs_updateLocked[of is_read K cfg ns] by (simp add: updateOptedInServicesCache_def)
  then show ?thesis unfolding mapPodToService_def by (intro logs_intros logs_modify_cache)
qed

lemma watch_extends:
  assumes "wt \<in> set (Watches (director_controller K cfg))" and "run_state (watch_map wt ob) s = (r, t)"
  shows "extends_safely K s t"
proof -
  have "state_io_rel (appends calls is_read) (watch_map wt ob)"
    using assms(1)
    by (auto simp: director_controller_def pod_requests_def slice_requests_def
        intro!: logs_mapPodToService grows.keeps_return split: watched_object.splits)
  from state_io_relD[OF this assms(2)] show ?thesis
    by (auto simp: appends_def extends_safely_def list_all_iff call_safe_read)
qed

subsection \<open>The invariant of the process\<close>

definition process_ok :: "'w kube \<Rightarrow> 'w sys \<Rightarrow> bool" where
  "process_ok K s \<longleftrightarrow>
     list_all (call_safe K (calls s)) (calls s) \<and>
     (lists_distinct (calls s) \<longrightarrow> caches_backed s) \<and>
     (\<forall>ops. Metrics s = Some ops \<longrightarrow> list_all well_labelled ops)"

lemma process_ok_initial: "process_ok K (snd (NewServiceDirectorReconciler w a b c d e f g h i j))"
  by (simp add: process_ok_def NewServiceDirectorReconciler_def caches_backed_def opted_backed_def
      opted_cache_ok_def leaders_backed_def leader_cache_ok_def)

lemma process_ok_extend:
  assumes ok: "process_ok K s" and past: "extends_safely K s t" and backing: "keeps_backing s t"
    and rec: "records_ok s t"
  shows "process_ok K t"
proof -
  obtain new where new: "calls t = calls s @ new" and safe: "list_all (call_safe K new) new"
    using past by (auto simp: extends_safely_def)
  have "list_all (call_safe K (calls t)) (calls t)"
    using ok safe call_safe_mono[of K "calls s" _ "calls t"] call_safe_mono[of K new _ "calls t"]
    by (auto simp: new process_ok_def list_all_iff)
  moreover have "lists_distinct (calls t) \<longrightarrow> caches_backed t"
    using ok backing new lists_distinct_append[of "calls s" new]
    by (auto simp: process_ok_def keeps_backing_def)
  moreover have "\<forall>ops. Metrics t = Some ops \<longrightarrow> list_all well_labelled ops"
    using ok rec by (auto simp: process_ok_def records_ok_def split: option.splits)
  ultimately show ?thesis by (simp add: process_ok_def)
qed

lemma process_ok_world: "process_ok K s \<Longrightarrow> process_ok K (s\<lparr>world := w\<rparr>)"
  using caches_backed_same[of s "s\<lparr>world := w\<rparr>" "[]"] by (simp add: process_ok_def)

lemma process_ok_watch:
  assumes ok: "process_ok K s" and watch: "wt \<in> set (Watches (director_controller K cfg))"
    and run: "run_state (watch_map wt ob) s = (reqs, t)"
  shows "process_ok K t"
proof -
  have "state_io_rel keeps_backing (watch_map wt ob)" and rec: "state_io_rel recorded_calls (watch_map wt ob)"
    using watch
    by (auto simp: director_controller_def pod_requests_def slice_requests_def
        intro!: backed.keeps_mapPodToService backed.keeps_return metered.keeps_mapPodToService
          metered.keeps_return split: watched_object.splits)
  from state_io_relD[OF this(1) run] state_io_relD[OF rec run] show ?thesis
    unfolding recorded_calls_def by (blast intro: process_ok_extend[OF ok watch_extends[OF watch run]])
qed

lemma process_ok_reconcile:
  assumes ok: "process_ok K s" and run: "run_state (Reconcile K cfg req) s = (r, t)"
  shows "process_ok K t"
  by (rule process_ok_extend[OF ok Reconcile_extends[OF run] state_io_relD[OF backed.keeps_Reconcile run]
        state_io_relD[OF recorded_Reconcile run]])

lemma process_ok_clean_up:
  assumes ok: "process_ok K s" and run: "run_state (cleanup_tick K) s = (u, t)"
  shows "process_ok K t"
proof (rule process_ok_extend[OF ok _ state_io_relD[OF backed.keeps_tick run]])
  show "extends_safely K s t" using run by (auto simp: cleanup_tick_def run_now extends_safely_def)
  show "records_ok s t" using state_io_relD[OF metered.keeps_tick run] by (simp add: recorded_calls_def)
qed

lemma process_step_ok:
  assumes "process_step K C s t" and C: "director C = director_controller K cfg" and ok: "process_ok K s"
  shows "process_ok K t"
  using assms(1)
proof (cases rule: process_step.cases)
  case (elsewhere w)
  then show ?thesis using process_ok_world[OF ok] by simp
next
  case (notify wt ob reqs)
  then show ?thesis unfolding C by (blast intro: process_ok_watch[OF ok])
next
  case (reconcile req r)
  then have "run_state (Reconcile K cfg req) s = (r, t)" by (simp add: C director_controller_def)
  then show ?thesis by (rule process_ok_reconcile[OF ok])
next
  case (clean_up ttl u)
  then show ?thesis by (blast intro: process_ok_clean_up[OF ok])
qed

lemma process_run_ok:
  "(process_step K C)\<^sup>*\<^sup>* s t \<Longrightarrow> director C = director_controller K cfg \<Longrightarrow> process_ok K s \<Longrightarrow> process_ok K t"
  by (induction rule: rtranclp_induct) (auto intro: process_step_ok)

subsection \<open>From a pod event to a run\<close>

text \<open>
  An update of a pod that changes its health passes the predicate, and the map function asks for
  every Service that is registered with a matching selector.
\<close>

lemma pod_watch: "\<lparr>watch_kind = PodKind, watch_map = pod_requests K cfg, watch_predicate = pod_predicate\<rparr>
    \<in> set (Watches (director_controller K cfg))"
  by (simp add: director_controller_def)

lemma registry_found:
  "registry cached n = Some sel \<Longrightarrow> \<exists>c \<in> set cached. cs_name c = n \<and> cs_selector c = sel"
  by (auto simp: registry_def dest!: map_of_SomeD)

lemma registered_requested:
  assumes run: "run_state (mapPodToService K cfg p) s = (reqs, t)" and "Namespace p = ns"
    and reg: "registry (opted_of (optedInServicesCache s) ns) n = Some sel"
    and "SelectorMatches K sel (Labels p)"
  shows "(ns, n) \<in> set reqs" and "calls t = calls s"
    and "world t = snd (Now K (world s))"
proof -
  obtain c where c: "c \<in> set (opted_of (optedInServicesCache s) ns)" "cs_name c = n" "cs_selector c = sel"
    using registry_found[OF reg] by blast
  then have hit: "opted_of (optedInServicesCache s) (Namespace p) \<noteq> []" using assms(2) by auto
  show "(ns, n) \<in> set reqs"
    unfolding mapPodToService_hit(1)[OF run hit] requests_for_def using c assms(2,4) by auto
  show "calls t = calls s" by (rule mapPodToService_hit(3)[OF run hit])
  show "world t = snd (Now K (world s))"
    using run hit by (auto simp: mapPodToService_def run_now)
qed

lemma health_change_notified:
  "unhealthy p \<noteq> unhealthy q \<Longrightarrow> pod_predicate (UpdateEvent (PodObject p) (PodObject q))"
  using podPredicate_health[of p q] by (simp del: podPredicate.simps) blast

subsection \<open>The clean-up goroutine in the process\<close>

lemma watch_keeps_cache:
  assumes "wt \<in> set (Watches (director_controller K cfg))"
  shows "state_io_rel keeps_enabled_cache (watch_map wt ob)"
  using assms
  by (auto simp: director_controller_def pod_requests_def slice_requests_def
      intro!: mapped.keeps_mapPodToService mapped.keeps_return split: watched_object.splits)

lemma process_step_cache:
  assumes "process_step K C s t" and C: "director C = director_controller K cfg"
  shows "leaderPodCache t = None \<longleftrightarrow> leaderPodCache s = None"
  using assms(1)
proof (cases rule: process_step.cases)
  case (notify wt ob reqs)
  from notify(1)[unfolded C] have "keeps_enabled_cache s t"
    by (rule state_io_relD[OF watch_keeps_cache notify(2)])
  then show ?thesis by (simp add: keeps_enabled_cache_def)
next
  case (reconcile req r)
  then have "run_state (Reconcile K cfg req) s = (r, t)" by (simp add: C director_controller_def)
  from state_io_relD[OF mapped.keeps_Reconcile this] show ?thesis by (simp add: keeps_enabled_cache_def)
next
  case (clean_up ttl u)
  then show ?thesis by (auto simp: cleanup_tick_def run_now)
qed simp

lemma process_run_cache:
  "(process_step K C)\<^sup>*\<^sup>* s t \<Longrightarrow> director C = director_controller K cfg \<Longrightarrow>
   leaderPodCache t = None \<longleftrightarrow> leaderPodCache s = None"
  by (induction rule: rtranclp_induct) (auto dest: process_step_cache)

text \<open>
  The other goroutines, as the clean-up goroutine sees them: between two of its signals they take
  steps of the process.
\<close>

definition others_run :: "'w kube \<Rightarrow> 'w installed \<Rightarrow> (nat \<Rightarrow> 'w sys \<Rightarrow> 'w sys) \<Rightarrow> bool" where
  "others_run K C others \<longleftrightarrow> (\<forall>i s. (process_step K C)\<^sup>*\<^sup>* s (others i s))"

lemma others_keep_map:
  "others_run K C others \<Longrightarrow> director C = director_controller K cfg \<Longrightarrow> keeps_map others"
  unfolding others_run_def keeps_map_def
proof (intro allI impI)
  fix i and s :: "'a sys"
  assume "\<forall>i s. (process_step K C)\<^sup>*\<^sup>* s (others i s)" and C: "director C = director_controller K cfg"
    and "leaderPodCache s \<noteq> None"
  then show "leaderPodCache (others i s) \<noteq> None" using process_run_cache[OF _ C] by metis
qed

lemma cleanup_installed:
  assumes "director_of_flags w f = (cfg, s0)" and "SetupWithManager K cfg s0 mgr = Inr C"
  shows "cleanup_every C = (if enable_leader_pod_cache f then Some (leaderPodCacheTTL cfg) else None)"
proof -
  have "0 < leaderPodCacheTTL cfg" using director_config_positive[of w f] assms(1) by simp
  moreover have "leaderPodCache s0 = (if enable_leader_pod_cache f then Some [] else None)"
    using assms(1) by (auto simp: director_of_flags_def NewServiceDirectorReconciler_def)
  ultimately show ?thesis
    using assms(2) by (auto simp: SetupWithManager_def Let_def split: option.splits if_splits)
qed

lemma installed_cleanup_ends:
  assumes flags: "director_of_flags w f = (cfg, s0)" and inst: "SetupWithManager K cfg s0 mgr = Inr C"
    and run: "(process_step K C)\<^sup>*\<^sup>* s0 s" and others: "others_run K C others"
    and every: "cleanup_every C = Some ttl"
  shows "cleanupLeaderPodCache K others signals ttl s \<noteq> Some TickerPanic"
    and "(\<exists>t. cleanupLeaderPodCache K others signals ttl s = Some (Returned t)) \<longleftrightarrow> (\<exists>n. signals n = Done)"
proof -
  note dir = installed_director[OF inst]
  have enabled: "enable_leader_pod_cache f" and "ttl = leaderPodCacheTTL cfg"
    using cleanup_installed[OF flags inst] every by (simp_all split: if_splits)
  then have ttl: "0 < ttl div 2" using cache_ttl_ticks[of w f] flags by simp
  have "leaderPodCache s0 \<noteq> None"
    using flags enabled by (auto simp: director_of_flags_def NewServiceDirectorReconciler_def)
  then have cache: "leaderPodCache s \<noteq> None" using process_run_cache[OF run dir] by simp
  show "cleanupLeaderPodCache K others signals ttl s \<noteq> Some TickerPanic"
    using cache ttl by (simp add: cleanupLeaderPodCache_def)
  show "(\<exists>t. cleanupLeaderPodCache K others signals ttl s = Some (Returned t)) \<longleftrightarrow> (\<exists>n. signals n = Done)"
    by (rule cleanup_goroutine_ends[OF others_keep_map[OF others dir] cache ttl])
qed

subsection \<open>The process from its start\<close>

lemma process_reached_ok:
  assumes "director_of_flags w f = (cfg, s0)" and "SetupWithManager K cfg s0 mgr = Inr C"
    and "(process_step K C)\<^sup>*\<^sup>* s0 s"
  shows "process_ok K s" and "leaderPodCache s = None \<longleftrightarrow> \<not> enable_leader_pod_cache f"
proof -
  note dir = installed_director[OF assms(2)]
  have s0: "s0 = snd (director_of_flags w f)" using assms(1) by simp
  have "process_ok K s0" unfolding s0 director_of_flags_def by (rule process_ok_initial)
  then show "process_ok K s" by (rule process_run_ok[OF assms(3) dir])
  have "leaderPodCache s0 = (if enable_leader_pod_cache f then Some [] else None)"
    by (simp add: s0 director_of_flags_def NewServiceDirectorReconciler_def)
  then show "leaderPodCache s = None \<longleftrightarrow> \<not> enable_leader_pod_cache f"
    using process_run_cache[OF assms(3) dir] by simp
qed

text \<open>A pod event for a registered Service leads to a run that serves the Service.\<close>

lemma pod_event_settles:
  assumes server: "api_server K holds" and "holds v (world s)" and srv: "serviceable K req svc v"
    and "Namespace p = fst req"
    and "registry (opted_of (optedInServicesCache s) (fst req)) (snd req) = Some selector"
    and "SelectorMatches K selector (Labels p)"
  shows "case run_state (mapPodToService K cfg p) s of
    (reqs, t) \<Rightarrow> req \<in> set reqs \<and>
      (case run_state (Reconcile K cfg req) t of
        (r, u) \<Rightarrow> \<exists>q v'. r = Inr () \<and> holds v' (world u) \<and> settled K req svc q v')"
proof -
  note at = at_holds[OF server]
  obtain reqs t where run: "run_state (mapPodToService K cfg p) s = (reqs, t)" by (metis prod.exhaust)
  note asked = registered_requested[OF run assms(4-6)]
  have "holds v (world t)" unfolding asked(3) by (rule api_server.clock[OF server assms(2)])
  then have t: "api_server.at holds v t" by (simp add: at)
  obtain r u where rec: "run_state (Reconcile K cfg req) t = (r, u)" by (metis prod.exhaust)
  from api_server.Reconcile_settles[OF server rec t srv, unfolded at] asked(1) show ?thesis
    unfolding run prod.case rec prod.collapse by blast
qed

text \<open>
  The first pod event of a namespace on a calm server: the cache is filled from the stored Services,
  so the requests are for all opted-in Services that select the pod, if the cache can hold them.
\<close>

abbreviation opted_in_keys :: "store \<Rightarrow> string \<Rightarrow> nsname set" where
  "opted_in_keys v ns \<equiv> {k. \<exists>svc. st_services v k = Some svc \<and> Namespace svc = ns \<and> watched svc}"

lemma listed_registry:
  assumes keyed: "well_keyed v" and all: "\<And>ls. SelectorMatches K [] ls"
    and items: "set items = selected_services K v ns []" "distinct (map object_key items)"
  shows "length (filter watched items) = card (opted_in_keys v ns)"
    and "distinct (map Name items)"
    and "map_of (map (\<lambda>svc. (Name svc, Selector svc)) (filter watched items)) n = Some sel \<longleftrightarrow>
      (\<exists>svc. st_services v (ns, n) = Some svc \<and> watched svc \<and> Selector svc = sel)"
proof -
  have mem: "svc \<in> set items \<longleftrightarrow> st_services v (object_key svc) = Some svc \<and> Namespace svc = ns" for svc
    using all unfolding items(1) by (simp add: selected_services_def)
  have "inj_on object_key (set items)" using items(2) by (simp add: distinct_map)
  then have "inj_on Name (set items)" using mem by (auto simp: inj_on_def object_key_def)
  then show names: "distinct (map Name items)" using items(2) by (simp add: distinct_map)
  note key = well_keyedD(1)[OF keyed]
  have stored: "(\<exists>svc. st_services v k = Some svc \<and> Namespace svc = ns \<and> P svc) \<longleftrightarrow>
      (\<exists>svc \<in> set items. P svc \<and> object_key svc = k)" for k P
    using mem key by (metis (no_types))
  have "opted_in_keys v ns = {k. \<exists>svc \<in> set items. watched svc \<and> object_key svc = k}"
    by (rule arg_cong[of _ _ Collect], rule ext, rule stored)
  also have "\<dots> = object_key ` {svc \<in> set items. watched svc}" by blast
  finally have "opted_in_keys v ns = object_key ` set (filter watched items)" by simp
  moreover have "distinct (map object_key (filter watched items))"
    using items(2) by (simp add: distinct_map_filter)
  ultimately show "length (filter watched items) = card (opted_in_keys v ns)"
    using distinct_card[of "map object_key (filter watched items)"] by simp
  have "distinct (map fst (map (\<lambda>svc. (Name svc, Selector svc)) (filter watched items)))"
    using names by (simp add: comp_def distinct_map_filter)
  from map_of_eq_Some_iff[OF this]
  have "map_of (map (\<lambda>svc. (Name svc, Selector svc)) (filter watched items)) n = Some sel \<longleftrightarrow>
      (\<exists>svc \<in> set items. watched svc \<and> Name svc = n \<and> Selector svc = sel)"
    by (auto simp: image_iff)
  also have "\<dots> \<longleftrightarrow> (\<exists>svc \<in> set items. (watched svc \<and> Selector svc = sel) \<and> object_key svc = (ns, n))"
    using mem by (auto simp: object_key_def)
  also have "\<dots> \<longleftrightarrow> (\<exists>svc. st_services v (ns, n) = Some svc \<and> Namespace svc = ns \<and>
      watched svc \<and> Selector svc = sel)"
    by (rule stored[symmetric])
  also have "\<dots> \<longleftrightarrow> (\<exists>svc. st_services v (ns, n) = Some svc \<and> watched svc \<and> Selector svc = sel)"
  proof -
    have "Namespace svc = ns" if "st_services v (ns, n) = Some svc" for svc
      using key[OF that] by (simp add: object_key_def)
    then show ?thesis by blast
  qed
  finally show "map_of (map (\<lambda>svc. (Name svc, Selector svc)) (filter watched items)) n = Some sel \<longleftrightarrow>
      (\<exists>svc. st_services v (ns, n) = Some svc \<and> watched svc \<and> Selector svc = sel)" .
qed

lemma first_pod_event:
  assumes server: "api_server K holds" and holds: "holds v (world s)"
    and all: "\<And>ls. SelectorMatches K [] ls"
    and miss: "opted_of (optedInServicesCache s) (Namespace p) = []"
    and size: "int (card (opted_in_keys v (Namespace p))) \<le> maxCacheSizePerNamespace cfg"
    and run: "run_state (mapPodToService K cfg p) s = (reqs, s')"
  shows "req \<in> set reqs \<longleftrightarrow> fst req = Namespace p \<and>
    (\<exists>svc. st_services v req = Some svc \<and> watched svc \<and> SelectorMatches K (Selector svc) (Labels p))"
proof -
  let ?ns = "Namespace p"
  let ?miss = "s\<lparr>Metrics := map_option (\<lambda>l. l @ RecordCacheMiss ?ns) (Metrics s)\<rparr>"
  let ?s0 = "?miss\<lparr>world := snd (Now K (world ?miss))\<rparr>"
  let ?list = "call_api K (DefaultRetry K) (ListServices K ?ns []) (CallListServices ?ns []) ?ns ''''
    ''list_services_cache''"
  obtain u t where upd: "run_state (updateOptedInServicesCacheLocked K cfg ?ns) ?miss = (u, t)"
    by (cases "run_state (updateOptedInServicesCacheLocked K cfg ?ns) ?miss")
  then have t: "t = s'" "reqs = requests_for K p (opted_of (optedInServicesCache s') ?ns)"
    using run miss by (auto simp: mapPodToService_def)
  obtain q z where list: "run_state ?list ?s0 = (q, z)" by (metis prod.exhaust)
  have "holds v (world ?s0)" using api_server.clock[OF server holds] by simp
  then have "api_server.at holds v ?s0" by (simp add: at_holds[OF server])
  from api_server.call_succeeds[OF server _ list this, where P = "\<lambda>a v'.
      set a = selected_services K v ?ns [] \<and> distinct (map object_key a) \<and> v' = v"]
    api_server.list_services[OF server, of v _ ?ns "[]"]
  obtain items where items: "q = Inr items" "set items = selected_services K v ?ns []"
    "distinct (map object_key items)" by blast
  note reg = listed_registry[OF api_server.keyed[OF server holds] all items(2,3)]
  from updateLocked_listed(1)[OF upd list[unfolded items(1)]] t(1)
  have fresh: "refreshed K cfg ?ns (optedInServicesCache s) items (optedInServicesCache s')" by simp
  have "registry (opted_of (optedInServicesCache s') ?ns) =
      map_of (map (\<lambda>svc. (Name svc, Selector svc)) (filter watched items))"
    by (rule registry_refreshed[OF fresh]) (simp only: reg(1) size)
  then show ?thesis
    using requests_for_iff[OF cached_ok_refreshed[OF fresh reg(2)], of req K] reg(3)[of "snd req"]
    unfolding t(2) by (cases req) auto
qed

subsection \<open>A sample process\<close>

definition sample_manager :: manager where
  "sample_manager = \<lparr>add_error = None, complete_error = None\<rparr>"

definition sample_start :: "cluster sys" where
  "sample_start = snd (director_of_flags sample_cluster default_flags)"

definition sample_installed :: "cluster installed" where
  "sample_installed =
     \<lparr>cleanup_every = Some (leaderPodCacheTTL (fst (director_of_flags sample_cluster default_flags))),
      director = director_controller mem_kube (fst (director_of_flags sample_cluster default_flags))\<rparr>"

lemma sample_flags:
  "director_of_flags sample_cluster default_flags =
     (fst (director_of_flags sample_cluster default_flags), sample_start)"
  by (simp add: sample_start_def)

lemma sample_setup:
  "SetupWithManager mem_kube (fst (director_of_flags sample_cluster default_flags)) sample_start sample_manager =
     Inr sample_installed"
proof -
  have "leaderPodCache sample_start \<noteq> None"
    by (simp add: sample_start_def director_of_flags_def NewServiceDirectorReconciler_def default_flags_def)
  moreover have "0 < leaderPodCacheTTL (fst (director_of_flags sample_cluster default_flags))"
    using director_config_positive[of sample_cluster default_flags] by simp
  ultimately show ?thesis
    by (simp add: SetupWithManager_def sample_manager_def sample_installed_def)
qed

definition sample_reached :: "cluster sys" where
  "sample_reached = snd (run_state (Reconcile mem_kube (fst (director_of_flags sample_cluster default_flags))
     (''prod'', ''db'')) sample_start)"

lemma sample_run: "(process_step mem_kube sample_installed)\<^sup>*\<^sup>* sample_start sample_reached"
proof (rule r_into_rtranclp, rule process_step.reconcile)
  show "run_state (reconciler (director sample_installed) (''prod'', ''db'')) sample_start =
      (fst (run_state (reconciler (director sample_installed) (''prod'', ''db'')) sample_start), sample_reached)"
    by (simp add: sample_reached_def sample_installed_def director_controller_def)
qed

text \<open>The same process later: it has seen the Service, and one of its pods goes down.\<close>

definition sample_observed :: "cluster sys" where
  "sample_observed = (start_state sample_cluster)\<lparr>optedInServicesCache :=
     [(''prod'', [\<lparr>cs_name = ''db'', cs_selector = [(''app'', ''db'')], cs_lastAccess = 3\<rparr>])]\<rparr>"

text \<open>A pod event with an empty cache: the Services are listed, and the cache is filled.\<close>

definition sample_notified :: "cluster sys" where
  "sample_notified = snd (run_state (pod_requests mem_kube (fst (director_of_flags sample_cluster default_flags))
     (PodObject (sample_pod ''db-0'' ''uid-a'' 1000 ''True'' ''10.0.0.11''))) sample_start)"

lemma sample_notified_run: "(process_step mem_kube sample_installed)\<^sup>*\<^sup>* sample_start sample_notified"
proof (rule r_into_rtranclp, rule process_step.notify)
  let ?cfg = "fst (director_of_flags sample_cluster default_flags)"
  show "\<lparr>watch_kind = PodKind, watch_map = pod_requests mem_kube ?cfg, watch_predicate = pod_predicate\<rparr>
      \<in> set (Watches (director sample_installed))"
    by (simp add: sample_installed_def director_controller_def)
  show "run_state (watch_map \<lparr>watch_kind = PodKind, watch_map = pod_requests mem_kube ?cfg,
      watch_predicate = pod_predicate\<rparr> (PodObject (sample_pod ''db-0'' ''uid-a'' 1000 ''True'' ''10.0.0.11''))) sample_start =
    (fst (run_state (pod_requests mem_kube ?cfg
      (PodObject (sample_pod ''db-0'' ''uid-a'' 1000 ''True'' ''10.0.0.11''))) sample_start), sample_notified)"
    by (simp add: sample_notified_def)
qed

lemma sample_notified_calls: "calls sample_notified = [CallListServices ''prod'' [] (Inr [sample_service])]"
  by code_simp

lemma sample_notified_cache:
  "map (\<lambda>(ns, cached). (ns, map cs_name cached)) (optedInServicesCache sample_notified) = [(''prod'', [''db''])]"
  by code_simp

end
