(* ===== verification/Memory.thy ===== *)
theory Memory
  imports Prelude
begin

text \<open>
  Pointers and deep copies. The rest of the development has Go values as HOL values, which nothing
  can change behind one's back; that is right only as long as copies share no memory with their
  originals. Here a memory is a finite map from addresses to cells, and the locale \<open>copier\<close> states what
  a deep copy promises: the copy stands for the same value, and all it reaches is newly allocated.
  The combinators for structs, pointers and slices keep the contract.
\<close>

subsection \<open>Memory\<close>

record 'c memory =
  cells :: "nat \<Rightarrow> 'c option"
  next_free :: nat

definition mem_ok :: "'c memory \<Rightarrow> bool" where
  "mem_ok m \<longleftrightarrow> dom (cells m) \<subseteq> {..<next_free m}"

definition empty_memory :: "'c memory" where
  "empty_memory = \<lparr>cells = \<lambda>a. None, next_free = 0\<rparr>"

definition alloc :: "'c \<Rightarrow> ('c memory, nat) state" where
  "alloc c = State (\<lambda>m. (next_free m,
     m\<lparr>cells := (cells m)(next_free m \<mapsto> c), next_free := next_free m + 1\<rparr>))"

definition load :: "nat \<Rightarrow> ('c memory, 'c) state" where
  "load a = gets (\<lambda>m. the (cells m a))"

text \<open>A memory that has everything the old one has, unchanged.\<close>

definition grows :: "'c memory \<Rightarrow> 'c memory \<Rightarrow> bool" where
  "grows m m' \<longleftrightarrow> mem_ok m' \<and> cells m \<subseteq>\<^sub>m cells m'"

lemma grows_dom: "grows m m' \<Longrightarrow> dom (cells m) \<subseteq> dom (cells m')"
  by (auto simp: grows_def dest: map_le_implies_dom_le)

lemma grows_trans: "grows m m' \<Longrightarrow> grows m' m'' \<Longrightarrow> grows m m''"
  by (auto simp: grows_def intro: map_le_trans)

lemma grows_refl: "mem_ok m \<Longrightarrow> grows m m"
  by (simp add: grows_def)

lemma run_alloc:
  assumes "run_state (alloc c) m = (a, m')" and "mem_ok m"
  shows "grows m m'" and "a \<notin> dom (cells m)" and "cells m' = (cells m)(a \<mapsto> c)"
proof -
  have a: "a = next_free m" and m': "m' = m\<lparr>cells := (cells m)(a \<mapsto> c), next_free := a + 1\<rparr>"
    using assms(1) by (auto simp: alloc_def)
  show fresh: "a \<notin> dom (cells m)" using assms(2) by (auto simp: a mem_ok_def)
  show "cells m' = (cells m)(a \<mapsto> c)" by (simp add: m')
  then show "grows m m'" using fresh assms(2)
    by (force simp: grows_def mem_ok_def map_le_def m' a)
qed

subsection \<open>The contract of a deep copy\<close>

text \<open>
  \<open>view m x\<close> is the value that \<open>x\<close> stands for in the memory \<open>m\<close>, if no pointer dangles; \<open>foot m x\<close>
  are the addresses it reaches.
\<close>

locale copier =
  fixes copy :: "'a \<Rightarrow> ('c memory, 'a) state"
    and view :: "'c memory \<Rightarrow> 'a \<Rightarrow> 'v option"
    and foot :: "'c memory \<Rightarrow> 'a \<Rightarrow> nat set"
  assumes deep: "view m x = Some v \<Longrightarrow> mem_ok m \<Longrightarrow> run_state (copy x) m = (y, m') \<Longrightarrow>
      grows m m' \<and> view m' y = Some v \<and> foot m' y \<inter> dom (cells m) = {}"
    and allocated: "view m x = Some v \<Longrightarrow> foot m x \<subseteq> dom (cells m)"
    and local: "view m x = Some v \<Longrightarrow> (\<And>a. a \<in> foot m x \<Longrightarrow> cells m' a = cells m a) \<Longrightarrow>
      view m' x = Some v \<and> foot m' x = foot m x"
begin

lemma stays: "view m x = Some v \<Longrightarrow> grows m m' \<Longrightarrow> view m' x = Some v \<and> foot m' x = foot m x"
proof (rule local)
  fix a assume "view m x = Some v" and "grows m m'" and "a \<in> foot m x"
  then have "a \<in> dom (cells m)" using allocated by blast
  with \<open>grows m m'\<close> show "cells m' a = cells m a" by (auto simp: grows_def map_le_def)
qed

text \<open>Writes through the copy do not reach the original, nor the other way round.\<close>

lemma independent:
  assumes x: "view m x = Some v" and "mem_ok m" and run: "run_state (copy x) m = (y, m')"
    and same: "\<And>a. a \<notin> W \<Longrightarrow> cells m'' a = cells m' a"
  shows "W \<subseteq> foot m' y \<Longrightarrow> view m'' x = Some v"
    and "W \<subseteq> foot m' x \<Longrightarrow> view m'' y = Some v"
proof -
  note y = deep[OF x \<open>mem_ok m\<close> run]
  have x': "view m' x = Some v" "foot m' x = foot m x" using stays[OF x] y by blast+
  have apart: "foot m' x \<inter> foot m' y = {}" using allocated[OF x] x'(2) y by blast
  show "view m'' x = Some v" if "W \<subseteq> foot m' y"
    using local[OF x'(1), of m''] same that apart by blast
  show "view m'' y = Some v" if "W \<subseteq> foot m' x"
    using local[of m' y v m''] y same that apart by blast
qed

end

subsection \<open>Values, structs, pointers and slices\<close>

text \<open>A value without pointers is copied by assignment.\<close>

interpretation plain: copier ret "\<lambda>m. Some" "\<lambda>m x. {}"
  by unfold_locales (auto simp: grows_refl)

text \<open>Two fields.\<close>

definition copy_both ::
  "('a \<Rightarrow> ('c memory, 'a) state) \<Rightarrow> ('b \<Rightarrow> ('c memory, 'b) state) \<Rightarrow> 'a \<times> 'b \<Rightarrow> ('c memory, 'a \<times> 'b) state"
  where
  "copy_both f g = (\<lambda>(a, b). do { a' \<leftarrow> f a; b' \<leftarrow> g b; ret (a', b') })"

definition view_both ::
  "('c memory \<Rightarrow> 'a \<Rightarrow> 'v option) \<Rightarrow> ('c memory \<Rightarrow> 'b \<Rightarrow> 'w option) \<Rightarrow> 'c memory \<Rightarrow> 'a \<times> 'b \<Rightarrow> ('v \<times> 'w) option"
  where
  "view_both f g m = (\<lambda>(a, b). case (f m a, g m b) of (Some v, Some w) \<Rightarrow> Some (v, w) | _ \<Rightarrow> None)"

definition foot_both ::
  "('c memory \<Rightarrow> 'a \<Rightarrow> nat set) \<Rightarrow> ('c memory \<Rightarrow> 'b \<Rightarrow> nat set) \<Rightarrow> 'c memory \<Rightarrow> 'a \<times> 'b \<Rightarrow> nat set" where
  "foot_both f g m = (\<lambda>(a, b). f m a \<union> g m b)"

lemma view_both_Some: "view_both f g m (a, b) = Some vw \<longleftrightarrow> f m a = Some (fst vw) \<and> g m b = Some (snd vw)"
  by (auto simp: view_both_def split: option.splits)

lemma copier_both:
  assumes "copier f vf ff" and "copier g vg fg"
  shows "copier (copy_both f g) (view_both vf vg) (foot_both ff fg)"
proof
  note A = assms(1) and B = assms(2)
  fix m ab vw
  assume some: "view_both vf vg m ab = Some vw"
  obtain a b where ab: "ab = (a, b)" by (cases ab)
  have a: "vf m a = Some (fst vw)" and b: "vg m b = Some (snd vw)"
    using some by (simp_all add: ab view_both_Some)
  show "foot_both ff fg m ab \<subseteq> dom (cells m)"
    using copier.allocated[OF A a] copier.allocated[OF B b] by (simp add: ab foot_both_def)
  show "view_both vf vg m' ab = Some vw \<and> foot_both ff fg m' ab = foot_both ff fg m ab"
    if "\<And>x. x \<in> foot_both ff fg m ab \<Longrightarrow> cells m' x = cells m x" for m'
    using copier.local[OF A a, of m'] copier.local[OF B b, of m'] that
    by (simp add: ab foot_both_def view_both_Some)
  fix m' y assume ok: "mem_ok m" and run: "run_state (copy_both f g ab) m = (y, m')"
  obtain a' m1 where r1: "run_state (f a) m = (a', m1)" by (metis prod.exhaust)
  obtain b' m2 where r2: "run_state (g b) m1 = (b', m2)" by (metis prod.exhaust)
  have y: "y = (a', b')" "m' = m2" using run r1 r2 by (simp_all add: copy_both_def ab)
  note a' = copier.deep[OF A a ok r1]
  have ok1: "mem_ok m1" using a' by (simp add: grows_def)
  have "vg m1 b = Some (snd vw)" using copier.stays[OF B b] a' by blast
  note b' = copier.deep[OF B this ok1 r2]
  have "vf m2 a' = Some (fst vw) \<and> ff m2 a' = ff m1 a'" using copier.stays[OF A] a' b' by blast
  moreover have "fg m2 b' \<inter> dom (cells m) = {}" using b' grows_dom[of m m1] a' by blast
  ultimately show "grows m m' \<and> view_both vf vg m' y = Some vw \<and> foot_both ff fg m' y \<inter> dom (cells m) = {}"
    using a' b' by (auto simp: y view_both_Some foot_both_def intro: grows_trans)
qed

text \<open>A struct is the tuple of its fields.\<close>

lemma copier_struct:
  assumes "copier f v ft"
    and copy: "\<And>x. copy x = do { y \<leftarrow> f (to x); ret (of' y) }"
    and view: "\<And>m x. view m x = map_option g (v m (to x))"
    and foot: "\<And>m x. foot m x = ft m (to x)"
    and field: "\<And>y. to (of' y) = y"
  shows "copier copy view foot"
proof
  fix m x w assume "view m x = Some w"
  then obtain u where u: "v m (to x) = Some u" "w = g u" by (auto simp: view)
  show "foot m x \<subseteq> dom (cells m)" using copier.allocated[OF assms(1) u(1)] by (simp add: foot)
  show "view m' x = Some w \<and> foot m' x = foot m x" if "\<And>a. a \<in> foot m x \<Longrightarrow> cells m' a = cells m a" for m'
    using copier.local[OF assms(1) u(1), of m'] that by (simp add: view foot u(2))
  show "grows m m' \<and> view m' y = Some w \<and> foot m' y \<inter> dom (cells m) = {}"
    if ok: "mem_ok m" and run: "run_state (copy x) m = (y, m')" for m' y
  proof -
    obtain z where z: "run_state (f (to x)) m = (z, m')" and "y = of' z"
      using run by (auto simp: copy split: prod.splits)
    with copier.deep[OF assms(1) u(1) ok z] show ?thesis by (simp add: view foot field u(2))
  qed
qed

text \<open>
  A pointer that may be nil: \<^verbatim>\<open>if in.F != nil { out.F = new(T); in.F.DeepCopyInto(out.F) }\<close>. The
  constructor \<open>mk\<close> makes a cell of a value of the type that is pointed to, and \<open>un\<close> reads it back.
  The new cell is allocated with its contents, since nobody sees it before.
\<close>

definition copy_ptr ::
  "('a \<Rightarrow> 'c) \<Rightarrow> ('c \<Rightarrow> 'a option) \<Rightarrow> ('a \<Rightarrow> ('c memory, 'a) state) \<Rightarrow> nat option \<Rightarrow> ('c memory, nat option) state"
  where
  "copy_ptr mk un f p =
     (case p of
        None \<Rightarrow> ret None
      | Some a \<Rightarrow> do { c \<leftarrow> load a; x \<leftarrow> f (the (un c)); b \<leftarrow> alloc (mk x); ret (Some b) })"

definition at_cell :: "('c \<Rightarrow> 'a option) \<Rightarrow> 'c memory \<Rightarrow> nat \<Rightarrow> 'a option" where
  "at_cell un m a = Option.bind (cells m a) un"

definition view_ptr ::
  "('c \<Rightarrow> 'a option) \<Rightarrow> ('c memory \<Rightarrow> 'a \<Rightarrow> 'v option) \<Rightarrow> 'c memory \<Rightarrow> nat option \<Rightarrow> 'v option option" where
  "view_ptr un v m p =
     (case p of None \<Rightarrow> Some None | Some a \<Rightarrow> map_option Some (Option.bind (at_cell un m a) (v m)))"

definition foot_ptr ::
  "('c \<Rightarrow> 'a option) \<Rightarrow> ('c memory \<Rightarrow> 'a \<Rightarrow> nat set) \<Rightarrow> 'c memory \<Rightarrow> nat option \<Rightarrow> nat set" where
  "foot_ptr un ft m p =
     (case p of None \<Rightarrow> {} | Some a \<Rightarrow> insert a (case at_cell un m a of None \<Rightarrow> {} | Some x \<Rightarrow> ft m x))"

lemma copier_ptr:
  assumes A: "copier f v ft" and un: "\<And>x. un (mk x) = Some x"
  shows "copier (copy_ptr mk un f) (view_ptr un v) (foot_ptr un ft)"
proof
  fix m p w
  assume view: "view_ptr un v m p = Some w"
  show "foot_ptr un ft m p \<subseteq> dom (cells m)"
    using view copier.allocated[OF A]
    by (fastforce simp: view_ptr_def foot_ptr_def at_cell_def bind_eq_Some_conv split: option.splits)
  show "view_ptr un v m' p = Some w \<and> foot_ptr un ft m' p = foot_ptr un ft m p"
    if same: "\<And>a. a \<in> foot_ptr un ft m p \<Longrightarrow> cells m' a = cells m a" for m'
  proof (cases p)
    case None
    then show ?thesis using view by (simp add: view_ptr_def foot_ptr_def)
  next
    case (Some a)
    then obtain x u where x: "at_cell un m a = Some x" "v m x = Some u" and w: "w = Some u"
      using view by (auto simp: view_ptr_def bind_eq_Some_conv)
    have "at_cell un m' a = Some x" using x(1) same[of a] Some by (simp add: at_cell_def foot_ptr_def)
    moreover have "v m' x = Some u \<and> ft m' x = ft m x"
      by (rule copier.local[OF A x(2)]) (use same Some x(1) in \<open>simp add: foot_ptr_def\<close>)
    ultimately show ?thesis using x w Some by (simp add: view_ptr_def foot_ptr_def)
  qed
  show "grows m m' \<and> view_ptr un v m' q = Some w \<and> foot_ptr un ft m' q \<inter> dom (cells m) = {}"
    if ok: "mem_ok m" and run: "run_state (copy_ptr mk un f p) m = (q, m')" for m' q
  proof (cases p)
    case None
    then show ?thesis using run view ok by (auto simp: copy_ptr_def view_ptr_def foot_ptr_def grows_refl)
  next
    case (Some a)
    then obtain x u where x: "at_cell un m a = Some x" "v m x = Some u" and w: "w = Some u"
      using view by (auto simp: view_ptr_def bind_eq_Some_conv)
    obtain y m1 where y: "run_state (f x) m = (y, m1)" by (metis prod.exhaust)
    obtain b m2 where b: "run_state (alloc (mk y)) m1 = (b, m2)" by (metis prod.exhaust)
    have "q = Some b" and "m' = m2"
      using run Some x(1) y b by (auto simp: copy_ptr_def load_def at_cell_def bind_eq_Some_conv)
    note copied = copier.deep[OF A x(2) ok y]
    then have ok1: "mem_ok m1" by (simp add: grows_def)
    note new = run_alloc[OF b ok1]
    have "at_cell un m2 b = Some y" using new(3) un by (simp add: at_cell_def)
    moreover have "v m2 y = Some u \<and> ft m2 y = ft m1 y"
      using copier.stays[OF A _ new(1)] copied by blast
    moreover have "b \<notin> dom (cells m)" using new(2) grows_dom[of m m1] copied by blast
    ultimately show ?thesis
      using copied new(1) \<open>q = Some b\<close> \<open>m' = m2\<close> w
      by (auto simp: view_ptr_def foot_ptr_def intro: grows_trans)
  qed
qed

text \<open>The elements of a slice, in order.\<close>

fun copy_list :: "('a \<Rightarrow> ('c memory, 'a) state) \<Rightarrow> 'a list \<Rightarrow> ('c memory, 'a list) state" where
  "copy_list f [] = ret []"
| "copy_list f (x # xs) = do { y \<leftarrow> f x; ys \<leftarrow> copy_list f xs; ret (y # ys) }"

fun view_list :: "('c memory \<Rightarrow> 'a \<Rightarrow> 'v option) \<Rightarrow> 'c memory \<Rightarrow> 'a list \<Rightarrow> 'v list option" where
  "view_list v m [] = Some []"
| "view_list v m (x # xs) =
     (case (v m x, view_list v m xs) of (Some y, Some ys) \<Rightarrow> Some (y # ys) | _ \<Rightarrow> None)"

definition foot_list :: "('c memory \<Rightarrow> 'a \<Rightarrow> nat set) \<Rightarrow> 'c memory \<Rightarrow> 'a list \<Rightarrow> nat set" where
  "foot_list ft m xs = (\<Union>x\<in>set xs. ft m x)"

lemma view_list_Cons: "view_list v m (x # xs) = Some w \<longleftrightarrow>
    (\<exists>y ys. w = y # ys \<and> v m x = Some y \<and> view_list v m xs = Some ys)"
  by (auto split: option.splits)

declare view_list.simps(2) [simp del]

lemma foot_list_simps [simp]:
  "foot_list ft m [] = {}" "foot_list ft m (x # xs) = ft m x \<union> foot_list ft m xs"
  by (simp_all add: foot_list_def)

lemma list_allocated:
  "copier f v ft \<Longrightarrow> view_list v m xs = Some ws \<Longrightarrow> foot_list ft m xs \<subseteq> dom (cells m)"
proof (induction xs arbitrary: ws)
  case (Cons x xs)
  then obtain u us where "v m x = Some u" "view_list v m xs = Some us" unfolding view_list_Cons by blast
  with Cons.IH[OF Cons.prems(1)] copier.allocated[OF Cons.prems(1)] show ?case
    unfolding foot_list_simps by blast
qed simp

lemma list_local:
  assumes A: "copier f v ft"
  shows "view_list v m xs = Some ws \<Longrightarrow> (\<And>a. a \<in> foot_list ft m xs \<Longrightarrow> cells m' a = cells m a) \<Longrightarrow>
    view_list v m' xs = Some ws \<and> foot_list ft m' xs = foot_list ft m xs"
proof (induction xs arbitrary: ws)
  case (Cons x xs)
  then obtain u us where w: "ws = u # us" "v m x = Some u" "view_list v m xs = Some us"
    unfolding view_list_Cons by blast
  have "v m' x = Some u \<and> ft m' x = ft m x"
    by (rule copier.local[OF A w(2)]) (simp add: Cons.prems(2))
  moreover have "view_list v m' xs = Some us \<and> foot_list ft m' xs = foot_list ft m xs"
    by (rule Cons.IH[OF w(3)]) (simp add: Cons.prems(2))
  ultimately show ?case using w(1) by (simp add: view_list_Cons)
qed simp

lemma list_stays:
  assumes A: "copier f v ft" and view: "view_list v m xs = Some ws" and "grows m m'"
  shows "view_list v m' xs = Some ws"
proof -
  have "cells m' a = cells m a" if "a \<in> foot_list ft m xs" for a
    using list_allocated[OF A view] that \<open>grows m m'\<close> by (metis grows_def map_le_def subsetD)
  with list_local[OF A view] show ?thesis by blast
qed

lemma list_deep:
  assumes A: "copier f v ft"
  shows "view_list v m xs = Some ws \<Longrightarrow> mem_ok m \<Longrightarrow> run_state (copy_list f xs) m = (ys, m') \<Longrightarrow>
    grows m m' \<and> view_list v m' ys = Some ws \<and> foot_list ft m' ys \<inter> dom (cells m) = {}"
proof (induction xs arbitrary: m ws ys m')
  case Nil
  then show ?case by (auto simp: grows_refl)
next
  case (Cons x xs)
  then obtain u us where w: "ws = u # us" "v m x = Some u" "view_list v m xs = Some us"
    unfolding view_list_Cons by blast
  obtain y m1 where y: "run_state (f x) m = (y, m1)" by (metis prod.exhaust)
  obtain zs m2 where zs: "run_state (copy_list f xs) m1 = (zs, m2)" by (metis prod.exhaust)
  have ys: "ys = y # zs" "m' = m2" using Cons.prems(3) y zs by simp_all
  note head = copier.deep[OF A w(2) Cons.prems(2) y]
  then have ok1: "mem_ok m1" by (simp add: grows_def)
  have us: "view_list v m1 xs = Some us" using list_stays[OF A w(3)] head by blast
  note tail = Cons.IH[OF us ok1 zs]
  have "v m2 y = Some u \<and> ft m2 y = ft m1 y" using copier.stays[OF A] head tail by blast
  moreover have "foot_list ft m2 zs \<inter> dom (cells m) = {}" using tail grows_dom[of m m1] head by blast
  moreover have "grows m m2" using head tail grows_trans by blast
  ultimately show ?case using head tail w(1) by (auto simp: ys view_list_Cons)
qed

lemma copier_list:
  assumes "copier f v ft"
  shows "copier (copy_list f) (view_list v) (foot_list ft)"
  by unfold_locales (fact list_deep[OF assms] list_allocated[OF assms] list_local[OF assms])+

end
