(* ===== verification/CachePointers.thy ===== *)
theory CachePointers
  imports OptedCache Memory
begin

text \<open>
  The cache of opted-in Services as it lies in memory. \<^verbatim>\<open>optedInServicesCache\<close> maps a namespace to a
  slice of pointers, and \<^verbatim>\<open>mapPodToService\<close> goes on reading the entries of a slice after it has
  released the lock, while other goroutines write through the same pointers. The critical sections
  are operations on a memory with pointers here, and refine the lists of entries with which theory
  OptedCache describes them; the reads outside the lock are interleaved with any critical sections
  of other goroutines. (Reading a selector is taken to be one step. In Go it is a data race.)
\<close>

record service_heap =
  heap :: "cached_service memory"
  slices :: "(string \<times> nat list) list"

definition entries :: "service_heap \<Rightarrow> string \<Rightarrow> nat list" where
  "entries h ns = (case map_of (slices h) ns of None \<Rightarrow> [] | Some as \<Rightarrow> as)"

definition entry :: "service_heap \<Rightarrow> nat \<Rightarrow> cached_service" where
  "entry h a = the (cells (heap h) a)"

text \<open>The lists of entries the pointers stand for.\<close>

definition view :: "service_heap \<Rightarrow> string \<Rightarrow> cached_service list" where
  "view h ns = map (entry h) (entries h ns)"

subsection \<open>Critical sections\<close>

definition write_entry :: "nat \<Rightarrow> cached_service \<Rightarrow> service_heap \<Rightarrow> service_heap" where
  "write_entry a c h = h\<lparr>heap := (heap h)\<lparr>cells := (cells (heap h))(a \<mapsto> c)\<rparr>\<rparr>"

definition new_entry :: "cached_service \<Rightarrow> service_heap \<Rightarrow> nat \<times> service_heap" where
  "new_entry c h = (case run_state (alloc c) (heap h) of (a, m) \<Rightarrow> (a, h\<lparr>heap := m\<rparr>))"

fun new_entries :: "cached_service list \<Rightarrow> service_heap \<Rightarrow> nat list \<times> service_heap" where
  "new_entries [] h = ([], h)"
| "new_entries (c # cs) h =
     (case new_entry c h of (a, h1) \<Rightarrow> case new_entries cs h1 of (as, h2) \<Rightarrow> (a # as, h2))"

definition set_slice :: "string \<Rightarrow> nat list \<Rightarrow> service_heap \<Rightarrow> service_heap" where
  "set_slice ns as h = h\<lparr>slices := AList.update ns as (slices h)\<rparr>"

fun without_entry :: "service_heap \<Rightarrow> string \<Rightarrow> nat list \<Rightarrow> nat list" where
  "without_entry h n [] = []"
| "without_entry h n (a # as) = (if cs_name (entry h a) = n then as else a # without_entry h n as)"

text \<open>
  What a goroutine does with the lock held: bring one Service up to date, drop one, mark the entries
  of a namespace as used, or replace them by those of a new listing.
\<close>

datatype cache_op =
    Put string string strmap go_time
  | Drop string string
  | Touch string go_time
  | Refill string "cached_service list"

fun touch_entries :: "go_time \<Rightarrow> nat list \<Rightarrow> service_heap \<Rightarrow> service_heap" where
  "touch_entries t [] h = h"
| "touch_entries t (a # as) h = touch_entries t as (write_entry a ((entry h a)\<lparr>cs_lastAccess := t\<rparr>) h)"

fun apply_op :: "cache_op \<Rightarrow> service_heap \<Rightarrow> service_heap" where
  "apply_op (Put ns n selector t) h =
     (case List.find (\<lambda>a. cs_name (entry h a) = n) (entries h ns) of
        Some a \<Rightarrow> write_entry a ((entry h a)\<lparr>cs_selector := selector, cs_lastAccess := t\<rparr>) h
      | None \<Rightarrow>
          (case new_entry \<lparr>cs_name = n, cs_selector = selector, cs_lastAccess = t\<rparr> h of
             (a, h') \<Rightarrow> set_slice ns (entries h ns @ [a]) h'))"
| "apply_op (Drop ns n) h =
     (case List.find (\<lambda>a. cs_name (entry h a) = n) (entries h ns) of
        Some a \<Rightarrow> set_slice ns (without_entry h n (entries h ns)) h
      | None \<Rightarrow> h)"
| "apply_op (Touch ns t) h = touch_entries t (entries h ns) h"
| "apply_op (Refill ns cached) h = (case new_entries cached h of (as, h') \<Rightarrow> set_slice ns as h')"

text \<open>The same operation on lists of entries, as in theory OptedCache.\<close>

fun list_op :: "cache_op \<Rightarrow> (string \<Rightarrow> cached_service list) \<Rightarrow> string \<Rightarrow> cached_service list" where
  "list_op (Put ns n selector t) f = f(ns := put_service n selector t (f ns))"
| "list_op (Drop ns n) f = f(ns := remove_service n (f ns))"
| "list_op (Touch ns t) f = f(ns := map (\<lambda>c. c\<lparr>cs_lastAccess := t\<rparr>) (f ns))"
| "list_op (Refill ns cached) f = f(ns := cached)"

subsection \<open>Refinement\<close>

text \<open>No pointer dangles, and no entry is shared, within a slice or between two.\<close>

definition heap_ok :: "service_heap \<Rightarrow> bool" where
  "heap_ok h \<longleftrightarrow>
     mem_ok (heap h) \<and>
     (\<forall>ns. distinct (entries h ns) \<and> set (entries h ns) \<subseteq> dom (cells (heap h))) \<and>
     (\<forall>ns ns'. ns \<noteq> ns' \<longrightarrow> set (entries h ns) \<inter> set (entries h ns') = {})"

lemma heap_okD:
  assumes "heap_ok h"
  shows "mem_ok (heap h)" and "distinct (entries h ns)" and "set (entries h ns) \<subseteq> dom (cells (heap h))"
    and "ns \<noteq> ns' \<Longrightarrow> set (entries h ns) \<inter> set (entries h ns') = {}"
  using assms unfolding heap_ok_def by blast+

lemma entries_set_slice [simp]:
  "entries (set_slice ns as h) ns' = (if ns' = ns then as else entries h ns')"
  by (simp add: entries_def set_slice_def update_conv')

lemma set_slice_heap [simp]: "heap (set_slice ns as h) = heap h" "entry (set_slice ns as h) = entry h"
  by (simp_all add: set_slice_def entry_def fun_eq_iff)

lemma entries_write [simp]: "entries (write_entry a c h) = entries h"
  by (simp add: write_entry_def entries_def fun_eq_iff)

lemma entry_write [simp]: "entry (write_entry a c h) b = (if b = a then c else entry h b)"
  by (simp add: write_entry_def entry_def)

lemma new_entry_result:
  assumes "new_entry c h = (a, h')" and "mem_ok (heap h)"
  shows "a \<notin> dom (cells (heap h))" and "mem_ok (heap h')" and "entries h' = entries h"
    and "dom (cells (heap h')) = insert a (dom (cells (heap h)))"
    and "entry h' b = (if b = a then c else entry h b)"
proof -
  obtain m where run: "run_state (alloc c) (heap h) = (a, m)" and h': "h' = h\<lparr>heap := m\<rparr>"
    using assms(1) by (auto simp: new_entry_def split: prod.splits)
  note m = run_alloc[OF run assms(2)]
  show "a \<notin> dom (cells (heap h))" by (rule m(2))
  show "mem_ok (heap h')" using m(1) by (simp add: h' grows_def)
  show "entries h' = entries h" by (simp add: h' entries_def fun_eq_iff)
  show "dom (cells (heap h')) = insert a (dom (cells (heap h)))" by (simp add: h' m(3))
  show "entry h' b = (if b = a then c else entry h b)" by (simp add: h' m(3) entry_def)
qed

lemma view_write:
  assumes "heap_ok h" and "a \<in> set (entries h ns)"
  shows "view (write_entry a c h) ns' =
    (if ns' = ns then map (\<lambda>b. if b = a then c else entry h b) (entries h ns) else view h ns')"
  using heap_okD(4)[OF assms(1), of ns' ns] assms(2) by (auto simp: view_def)

lemma heap_ok_write:
  assumes "heap_ok h" and "a \<in> set (entries h ns)"
  shows "heap_ok (write_entry a c h)"
proof -
  have "a \<in> dom (cells (heap h))" using heap_okD(3)[OF assms(1)] assms(2) by blast
  then have "dom (cells (heap (write_entry a c h))) = dom (cells (heap h))"
    and "next_free (heap (write_entry a c h)) = next_free (heap h)"
    by (auto simp: write_entry_def)
  then show ?thesis using assms(1) by (simp add: heap_ok_def mem_ok_def)
qed

lemma heap_ok_set_slice:
  assumes "heap_ok h" and "distinct as" and "set as \<subseteq> dom (cells (heap h))"
    and "\<And>ns'. ns' \<noteq> ns \<Longrightarrow> set as \<inter> set (entries h ns') = {}"
  shows "heap_ok (set_slice ns as h)"
  using assms unfolding heap_ok_def by auto

lemma new_entries_result:
  assumes "new_entries cs h = (as, h')" and "mem_ok (heap h)"
  shows "distinct as \<and> set as \<inter> dom (cells (heap h)) = {} \<and> mem_ok (heap h') \<and>
    entries h' = entries h \<and> dom (cells (heap h')) = set as \<union> dom (cells (heap h)) \<and>
    map (entry h') as = cs \<and> (\<forall>b \<in> dom (cells (heap h)). entry h' b = entry h b)"
  using assms
proof (induction cs arbitrary: h as)
  case (Cons c cs)
  obtain a h1 as1 where new: "new_entry c h = (a, h1)" and rest: "new_entries cs h1 = (as1, h')"
    and as: "as = a # as1"
    using Cons.prems(1) by (auto split: prod.splits)
  note a = new_entry_result[OF new Cons.prems(2)]
  note as1 = Cons.IH[OF rest a(2)]
  have "entry h' a = c" using as1 a(4,5) by simp
  moreover have "entry h' b = entry h b" if "b \<in> dom (cells (heap h))" for b
    using as1 a(1,4,5) that by auto
  ultimately show ?case using as1 a(1,3,4) as by auto
qed simp

text \<open>Each operation on pointers is the operation on lists.\<close>

lemma put_through:
  assumes "List.find (\<lambda>a. cs_name (f a) = n) as = Some a" and "distinct as"
  shows "map (\<lambda>b. if b = a then (f a)\<lparr>cs_selector := sel, cs_lastAccess := t\<rparr> else f b) as =
    put_service n sel t (map f as)"
  using assms
proof (induction as)
  case (Cons b as)
  show ?case
  proof (cases "cs_name (f b) = n")
    case True
    with Cons.prems show ?thesis by auto
  next
    case False
    then have find: "List.find (\<lambda>a. cs_name (f a) = n) as = Some a" using Cons.prems(1) by simp
    then have "b \<noteq> a" using Cons.prems(2) find_SomeD by fastforce
    then show ?thesis using False Cons.IH[OF find] Cons.prems(2) by simp
  qed
qed simp

lemma put_absent:
  "List.find (\<lambda>a. cs_name (f a) = n) as = None \<Longrightarrow>
   put_service n sel t (map f as) = map f as @ [\<lparr>cs_name = n, cs_selector = sel, cs_lastAccess = t\<rparr>]"
  by (induction as) (auto split: if_splits)

lemma view_without: "map (entry h) (without_entry h n as) = remove_service n (map (entry h) as)"
  by (induction as) auto

lemma set_without: "set (without_entry h n as) \<subseteq> set as"
  by (induction as) auto

lemma distinct_without: "distinct as \<Longrightarrow> distinct (without_entry h n as)"
  using set_without by (induction as) fastforce+

lemma touch_result:
  "distinct as \<Longrightarrow> entries (touch_entries t as h) = entries h \<and>
   entry (touch_entries t as h) b =
     (if b \<in> set as then (entry h b)\<lparr>cs_lastAccess := t\<rparr> else entry h b) \<and>
   (set as \<subseteq> dom (cells (heap h)) \<longrightarrow> dom (cells (heap (touch_entries t as h))) = dom (cells (heap h)) \<and>
     next_free (heap (touch_entries t as h)) = next_free (heap h))"
proof (induction as arbitrary: h)
  case (Cons a as)
  let ?h = "write_entry a ((entry h a)\<lparr>cs_lastAccess := t\<rparr>) h"
  have "set as \<subseteq> dom (cells (heap ?h))" if "set (a # as) \<subseteq> dom (cells (heap h))"
    using that by (auto simp: write_entry_def)
  moreover have "dom (cells (heap ?h)) = dom (cells (heap h))" if "a \<in> dom (cells (heap h))"
    using that by (auto simp: write_entry_def)
  moreover have "next_free (heap ?h) = next_free (heap h)" by (simp add: write_entry_def)
  ultimately show ?case using Cons.IH[of ?h] Cons.prems by auto
qed simp

lemma apply_op_refines:
  assumes "heap_ok h"
  shows "heap_ok (apply_op op h) \<and> view (apply_op op h) = list_op op (view h)"
proof (cases op)
  case (Put ns n sel t)
  let ?find = "List.find (\<lambda>a. cs_name (entry h a) = n) (entries h ns)"
  show ?thesis
  proof (cases ?find)
    case (Some a)
    then have a: "a \<in> set (entries h ns)" using find_SomeD by fast
    have "map (\<lambda>b. if b = a then (entry h a)\<lparr>cs_selector := sel, cs_lastAccess := t\<rparr> else entry h b)
        (entries h ns) = put_service n sel t (view h ns)"
      unfolding view_def by (rule put_through[OF Some heap_okD(2)[OF assms]])
    then show ?thesis
      using Put Some heap_ok_write[OF assms a] view_write[OF assms a] by (simp add: fun_eq_iff)
  next
    case None
    let ?c = "\<lparr>cs_name = n, cs_selector = sel, cs_lastAccess = t\<rparr>"
    obtain a h' where new: "new_entry ?c h = (a, h')" by (metis prod.exhaust)
    note a = new_entry_result[OF new heap_okD(1)[OF assms]]
    have fresh: "a \<notin> set (entries h ns')" for ns' using a(1) heap_okD(3)[OF assms] by blast
    have ok': "heap_ok h'" using assms a unfolding heap_ok_def by auto
    have "heap_ok (set_slice ns (entries h ns @ [a]) h')"
      using heap_okD(2-4)[OF assms] fresh a(3,4) by (intro heap_ok_set_slice[OF ok']) auto
    moreover have "map (entry h') (entries h ns') = view h ns'" for ns'
      using fresh[of ns'] by (auto simp: view_def a(5))
    moreover have "put_service n sel t (view h ns) = view h ns @ [?c]"
      unfolding view_def by (rule put_absent[OF None])
    ultimately show ?thesis using Put None new a(3,5) by (auto simp: view_def fun_eq_iff)
  qed
next
  case (Drop ns n)
  show ?thesis
  proof (cases "List.find (\<lambda>a. cs_name (entry h a) = n) (entries h ns)")
    case None
    then have "n \<notin> set (map cs_name (view h ns))"
      by (auto simp: view_def dest: find_NoneD)
    from remove_absent[OF this] show ?thesis using Drop None assms by (simp add: fun_eq_iff)
  next
    case (Some a)
    have "heap_ok (set_slice ns (without_entry h n (entries h ns)) h)"
      using heap_okD(2-4)[OF assms] set_without[of h n "entries h ns"]
      by (intro heap_ok_set_slice[OF assms] distinct_without) blast+
    then show ?thesis using Drop Some by (auto simp: view_def view_without fun_eq_iff)
  qed
next
  case (Touch ns t)
  note touch = touch_result[OF heap_okD(2)[OF assms, of ns], of t h]
  have "heap_ok (touch_entries t (entries h ns) h)"
    using assms touch heap_okD(3)[OF assms, of ns] unfolding heap_ok_def mem_ok_def by simp
  moreover have "view (touch_entries t (entries h ns) h) ns' = list_op op (view h) ns'" for ns'
    using touch heap_okD(4)[OF assms, of ns ns'] Touch by (auto simp: view_def)
  ultimately show ?thesis using Touch by (simp add: fun_eq_iff)
next
  case (Refill ns cached)
  obtain as h' where new: "new_entries cached h = (as, h')" by (metis prod.exhaust)
  note as = new_entries_result[OF new heap_okD(1)[OF assms]]
  have ok': "heap_ok h'" using assms as unfolding heap_ok_def by auto
  have "heap_ok (set_slice ns as h')"
    using as heap_okD(3)[OF assms] by (intro heap_ok_set_slice[OF ok']) auto
  moreover have "map (entry h') (entries h ns') = view h ns'" for ns'
    using as heap_okD(3)[OF assms, of ns'] by (auto simp: view_def)
  ultimately show ?thesis using Refill new as by (auto simp: view_def fun_eq_iff)
qed

lemmas heap_ok_op = apply_op_refines[THEN conjunct1]
lemmas view_op = apply_op_refines[THEN conjunct2]

lemma apply_ops_refine:
  "heap_ok h \<Longrightarrow> heap_ok (fold apply_op ops h) \<and> view (fold apply_op ops h) = fold list_op ops (view h)"
  by (induction ops arbitrary: h) (simp_all add: apply_op_refines)

subsection \<open>mapPodToService among other goroutines\<close>

text \<open>
  \<open>others i\<close> are the critical sections of other goroutines before the \<open>i\<close>-th step of the handler: the
  lock it takes is step 0, and the reads of the entries follow. \<open>refill\<close> is what a refresh of the cache
  would find, or \<open>None\<close> if the Services cannot be listed.
\<close>

definition captured ::
  "string \<Rightarrow> cached_service list option \<Rightarrow> go_time \<Rightarrow> (nat \<Rightarrow> cache_op list) \<Rightarrow> service_heap \<Rightarrow>
   nat list \<times> service_heap" where
  "captured ns refill t others h =
     (let h1 = fold apply_op (others 0) h
      in if entries h ns = [] then
           (if entries h1 ns = [] then
              (case refill of
                 None \<Rightarrow> (entries h1 ns, h1)
               | Some cached \<Rightarrow> let h2 = apply_op (Refill ns cached) h1 in (entries h2 ns, h2))
            else (entries h1 ns, h1))
         else (entries h1 ns, apply_op (Touch ns t) h1))"

fun read_requests ::
  "'w kube \<Rightarrow> string \<Rightarrow> strmap \<Rightarrow> (nat \<Rightarrow> cache_op list) \<Rightarrow> nat \<Rightarrow> nat list \<Rightarrow> service_heap \<Rightarrow> nsname list"
  where
  "read_requests K ns podLabels others i [] h = []"
| "read_requests K ns podLabels others i (a # as) h =
     (let h' = fold apply_op (others i) h; rest = read_requests K ns podLabels others (Suc i) as h'
      in if SelectorMatches K (cs_selector (entry h' a)) podLabels then (ns, cs_name (entry h' a)) # rest
         else rest)"

definition shared_mapPodToService ::
  "'w kube \<Rightarrow> string \<Rightarrow> strmap \<Rightarrow> cached_service list option \<Rightarrow> go_time \<Rightarrow> (nat \<Rightarrow> cache_op list) \<Rightarrow>
   service_heap \<Rightarrow> nsname list" where
  "shared_mapPodToService K ns podLabels refill t others h =
     (case captured ns refill t others h of (as, h2) \<Rightarrow> read_requests K ns podLabels others 1 as h2)"

text \<open>
  An entry keeps its name for ever, and gets a new selector only from an update of the Service of
  that name. It stays in its namespace, or in no slice at all.
\<close>

definition owned :: "string \<Rightarrow> nat \<Rightarrow> service_heap \<Rightarrow> bool" where
  "owned ns a h \<longleftrightarrow> a \<in> dom (cells (heap h)) \<and> (\<forall>ns'. ns' \<noteq> ns \<longrightarrow> a \<notin> set (entries h ns'))"

definition evolved :: "string \<Rightarrow> cache_op set \<Rightarrow> cached_service \<Rightarrow> cached_service \<Rightarrow> bool" where
  "evolved ns ops c0 c \<longleftrightarrow>
     cs_name c = cs_name c0 \<and>
     (cs_selector c = cs_selector c0 \<or> (\<exists>t. Put ns (cs_name c0) (cs_selector c) t \<in> ops))"

lemma evolved_trans:
  "evolved ns ops c0 c \<Longrightarrow> evolved ns ops' c d \<Longrightarrow> evolved ns (ops \<union> ops') c0 d"
  by (auto simp: evolved_def)

lemma owned_entry: "heap_ok h \<Longrightarrow> a \<in> set (entries h ns) \<Longrightarrow> owned ns a h"
  unfolding owned_def by (metis disjoint_iff heap_okD(3,4) subsetD)

lemma evolved_same: "evolved ns ops c c"
  by (simp add: evolved_def)

lemma write_entry_keeps:
  assumes "owned ns a h" and "b = a \<Longrightarrow> evolved ns ops (entry h a) c"
  shows "owned ns a (write_entry b c h) \<and> evolved ns ops (entry h a) (entry (write_entry b c h) a)"
proof
  show "owned ns a (write_entry b c h)" using assms(1) by (simp add: owned_def write_entry_def entries_def)
  show "evolved ns ops (entry h a) (entry (write_entry b c h) a)"
    using assms(2) by (cases "b = a") (simp_all add: evolved_same)
qed

lemma new_slice_keeps:
  assumes "owned ns a h" and "a \<in> dom (cells (heap h'))" and "entries h' = entries h"
    and "entry h' a = entry h a" and "a \<notin> set as \<or> ns' = ns"
  shows "owned ns a (set_slice ns' as h') \<and> evolved ns ops (entry h a) (entry (set_slice ns' as h') a)"
  using assms by (auto simp: owned_def evolved_def)

lemma apply_op_entry:
  assumes ok: "heap_ok h" and a: "owned ns a h"
  shows "owned ns a (apply_op op h) \<and> evolved ns {op} (entry h a) (entry (apply_op op h) a)"
proof (cases op)
  case (Put ns2 n sel t)
  show ?thesis
  proof (cases "List.find (\<lambda>a. cs_name (entry h a) = n) (entries h ns2)")
    case (Some b)
    then have b: "b \<in> set (entries h ns2)" "cs_name (entry h b) = n" using find_SomeD by fastforce+
    then have "evolved ns {op} (entry h a) ((entry h b)\<lparr>cs_selector := sel, cs_lastAccess := t\<rparr>)"
      if "b = a" using that a Put by (auto simp: owned_def evolved_def)
    from write_entry_keeps[OF a this] show ?thesis using Put Some by simp
  next
    case None
    obtain b h' where new: "new_entry \<lparr>cs_name = n, cs_selector = sel, cs_lastAccess = t\<rparr> h = (b, h')"
      by (metis prod.exhaust)
    note b = new_entry_result[OF new heap_okD(1)[OF ok]]
    have "b \<noteq> a" using b(1) a by (auto simp: owned_def)
    moreover have "a \<in> set (entries h ns2) \<Longrightarrow> ns2 = ns" using a by (auto simp: owned_def)
    ultimately show ?thesis
      using Put None new new_slice_keeps[OF a _ b(3), of "entries h ns2 @ [b]" ns2 "{op}"] b(4,5) a
      by (auto simp: owned_def)
  qed
next
  case (Drop ns2 n)
  have "a \<notin> set (without_entry h n (entries h ns2)) \<or> ns2 = ns"
    using a set_without[of h n "entries h ns2"] by (auto simp: owned_def)
  from new_slice_keeps[OF a _ refl refl this, of "{op}"] show ?thesis
    using Drop a by (simp add: owned_def evolved_def split: option.split)
next
  case (Touch ns2 t)
  then show ?thesis
    using a touch_result[OF heap_okD(2)[OF ok, of ns2], of t h] heap_okD(3)[OF ok, of ns2]
    by (simp add: evolved_def owned_def)
next
  case (Refill ns2 cached)
  obtain as h' where new: "new_entries cached h = (as, h')" by (metis prod.exhaust)
  note as = new_entries_result[OF new heap_okD(1)[OF ok]]
  have "a \<notin> set as" and "a \<in> dom (cells (heap h'))" and "entry h' a = entry h a"
    using as a by (auto simp: owned_def)
  with new_slice_keeps[OF a, of h' as ns2 "{op}"] as show ?thesis using Refill new by simp
qed

lemma apply_ops_entry:
  "heap_ok h \<Longrightarrow> owned ns a h \<Longrightarrow>
   owned ns a (fold apply_op ops h) \<and> evolved ns (set ops) (entry h a) (entry (fold apply_op ops h) a)"
proof (induction ops arbitrary: h)
  case (Cons op ops)
  note step = apply_op_entry[OF Cons.prems, of op]
  from Cons.IH[of "apply_op op h"] step apply_op_refines[OF Cons.prems(1), of op]
  have "evolved ns ({op} \<union> set ops) (entry h a) (entry (fold apply_op ops (apply_op op h)) a)"
    by (blast intro: evolved_trans)
  with Cons.IH[of "apply_op op h"] step apply_op_refines[OF Cons.prems(1), of op] show ?case by simp
qed (simp add: evolved_def)

subsection \<open>What the reads may see\<close>

lemma read_requests_sees:
  assumes "heap_ok h" and "\<And>a. a \<in> set as \<Longrightarrow> owned ns a h \<and> evolved ns ops (c0 a) (entry h a)"
    and "\<And>j. i \<le> j \<Longrightarrow> set (others j) \<subseteq> ops"
  shows "(q \<in> set (read_requests K ns ls others i as h) \<longrightarrow>
      (\<exists>a \<in> set as. \<exists>c. evolved ns ops (c0 a) c \<and> q = (ns, cs_name (c0 a)) \<and>
         SelectorMatches K (cs_selector c) ls)) \<and>
    (\<forall>a \<in> set as. (\<forall>c. evolved ns ops (c0 a) c \<longrightarrow> SelectorMatches K (cs_selector c) ls) \<longrightarrow>
       (ns, cs_name (c0 a)) \<in> set (read_requests K ns ls others i as h))"
  using assms
proof (induction as arbitrary: h i)
  case (Cons a as)
  let ?h = "fold apply_op (others i) h"
  have ok: "heap_ok ?h" using apply_ops_refine[OF Cons.prems(1)] by blast
  have sub: "ops \<union> set (others i) = ops" using Cons.prems(3)[of i] by auto
  have kept: "owned ns b ?h \<and> evolved ns ops (c0 b) (entry ?h b)" if "b \<in> set (a # as)" for b
    using Cons.prems(2)[OF that] apply_ops_entry[OF Cons.prems(1), of ns b "others i"]
      evolved_trans[of ns ops "c0 b" "entry h b" "set (others i)"] unfolding sub by blast
  have rest: "(q \<in> set (read_requests K ns ls others (Suc i) as ?h) \<longrightarrow>
      (\<exists>a \<in> set as. \<exists>c. evolved ns ops (c0 a) c \<and> q = (ns, cs_name (c0 a)) \<and>
         SelectorMatches K (cs_selector c) ls)) \<and>
    (\<forall>a \<in> set as. (\<forall>c. evolved ns ops (c0 a) c \<longrightarrow> SelectorMatches K (cs_selector c) ls) \<longrightarrow>
       (ns, cs_name (c0 a)) \<in> set (read_requests K ns ls others (Suc i) as ?h))"
    using kept Cons.prems(3) by (intro Cons.IH ok) simp_all
  have "evolved ns ops (c0 a) (entry ?h a)" and "cs_name (entry ?h a) = cs_name (c0 a)"
    using kept[of a] by (simp_all add: evolved_def)
  with rest show ?case by (auto simp: Let_def)
qed simp

lemma captured_result:
  assumes "heap_ok h" and "captured ns refill t others h = (as, h2)"
  shows "heap_ok h2 \<and> as = entries h2 ns"
proof -
  let ?h1 = "fold apply_op (others 0) h"
  have ok: "heap_ok ?h1" using apply_ops_refine[OF assms(1)] by blast
  have "entries (apply_op (Touch ns t) ?h1) ns = entries ?h1 ns"
    using touch_result[OF heap_okD(2)[OF ok, of ns], of t ?h1] by simp
  with assms(2) ok heap_ok_op[OF ok] show ?thesis
    by (auto simp: captured_def Let_def simp del: apply_op.simps split: if_splits option.splits)
qed

text \<open>Without other goroutines the handler asks for what the model of theory OptedCache asks for.\<close>

lemma read_requests_alone:
  "read_requests K ns ls (\<lambda>i. []) i as h =
     map (\<lambda>c. (ns, cs_name c)) (filter (\<lambda>c. SelectorMatches K (cs_selector c) ls) (map (entry h) as))"
  by (induction as arbitrary: i) (simp_all add: Let_def)

lemma shared_mapPodToService_alone:
  assumes "heap_ok h"
  shows "shared_mapPodToService K (Namespace p) (Labels p) refill t (\<lambda>i. []) h =
    requests_for K p (if view h (Namespace p) = [] then (case refill of None \<Rightarrow> [] | Some cached \<Rightarrow> cached)
      else view h (Namespace p))"
proof -
  let ?ns = "Namespace p"
  obtain as h2 where cap: "captured ?ns refill t (\<lambda>i. []) h = (as, h2)" by (metis prod.exhaust)
  have empty: "view h ?ns = [] \<longleftrightarrow> entries h ?ns = []" by (simp add: view_def)
  have "view h2 ?ns = (if view h ?ns = [] then (case refill of None \<Rightarrow> [] | Some cached \<Rightarrow> cached)
      else map (\<lambda>c. c\<lparr>cs_lastAccess := t\<rparr>) (view h ?ns))"
    using cap view_op[OF assms] unfolding empty
    by (auto simp: captured_def Let_def empty[symmetric] simp del: apply_op.simps split: if_splits option.splits)
  moreover have "shared_mapPodToService K ?ns (Labels p) refill t (\<lambda>i. []) h = requests_for K p (view h2 ?ns)"
    using cap captured_result[OF assms cap]
    by (simp add: shared_mapPodToService_def read_requests_alone requests_for_def view_def)
  ultimately show ?thesis by (auto simp: requests_for_def filter_map comp_def)
qed

text \<open>
  A Service is asked for only if it was in the slice that was captured under the lock, and its
  selector matched then or was made to match by a later update of the same Service. It is asked
  for if its selector matched and no later update made it stop matching.
\<close>

lemma shared_requests:
  assumes "heap_ok h" and "captured ns refill t others h = (as, h2)"
    and res: "shared_mapPodToService K ns ls refill t others h = reqs"
  shows "q \<in> set reqs \<Longrightarrow> \<exists>c \<in> set (view h2 ns). q = (ns, cs_name c) \<and>
      (SelectorMatches K (cs_selector c) ls \<or>
       (\<exists>i sel u. 1 \<le> i \<and> Put ns (cs_name c) sel u \<in> set (others i) \<and> SelectorMatches K sel ls))"
    and "c \<in> set (view h2 ns) \<Longrightarrow> SelectorMatches K (cs_selector c) ls \<Longrightarrow>
      (\<And>i sel u. 1 \<le> i \<Longrightarrow> Put ns (cs_name c) sel u \<in> set (others i) \<Longrightarrow> SelectorMatches K sel ls) \<Longrightarrow>
      (ns, cs_name c) \<in> set reqs"
proof -
  let ?ops = "\<Union>i \<in> {1..}. set (others i)"
  have ok: "heap_ok h2" and as: "as = entries h2 ns"
    using captured_result[OF assms(1,2)] by simp_all
  have reqs: "reqs = read_requests K ns ls others 1 as h2"
    using res assms(2) by (simp add: shared_mapPodToService_def)
  have view: "set (view h2 ns) = entry h2 ` set as" by (simp add: view_def as)
  have own: "owned ns a h2 \<and> evolved ns ?ops (entry h2 a) (entry h2 a)" if "a \<in> set as" for a
    using owned_entry[OF ok, of a ns] that by (simp add: as evolved_same)
  have later: "set (others j) \<subseteq> ?ops" if "1 \<le> j" for j using that by blast
  have sees: "(q \<in> set reqs \<longrightarrow> (\<exists>a \<in> set as. \<exists>c. evolved ns ?ops (entry h2 a) c \<and>
      q = (ns, cs_name (entry h2 a)) \<and> SelectorMatches K (cs_selector c) ls)) \<and>
    (\<forall>a \<in> set as. (\<forall>c. evolved ns ?ops (entry h2 a) c \<longrightarrow> SelectorMatches K (cs_selector c) ls) \<longrightarrow>
       (ns, cs_name (entry h2 a)) \<in> set reqs)" for q
    unfolding reqs by (rule read_requests_sees[OF ok own later])
  show "\<exists>c \<in> set (view h2 ns). q = (ns, cs_name c) \<and>
      (SelectorMatches K (cs_selector c) ls \<or>
       (\<exists>i sel u. 1 \<le> i \<and> Put ns (cs_name c) sel u \<in> set (others i) \<and> SelectorMatches K sel ls))"
    if q: "q \<in> set reqs"
  proof -
    obtain a d where a: "a \<in> set as" "q = (ns, cs_name (entry h2 a))" and d: "evolved ns ?ops (entry h2 a) d"
      and "SelectorMatches K (cs_selector d) ls"
      using q sees[of q] by blast
    then have "SelectorMatches K (cs_selector (entry h2 a)) ls \<or> (\<exists>i sel u. 1 \<le> i \<and>
        Put ns (cs_name (entry h2 a)) sel u \<in> set (others i) \<and> SelectorMatches K sel ls)"
      unfolding evolved_def by (metis UN_E atLeast_iff)
    then show ?thesis using a unfolding view by blast
  qed
  show "(ns, cs_name c) \<in> set reqs"
    if c: "c \<in> set (view h2 ns)" and "SelectorMatches K (cs_selector c) ls"
      and stays: "\<And>i sel u. 1 \<le> i \<Longrightarrow> Put ns (cs_name c) sel u \<in> set (others i) \<Longrightarrow> SelectorMatches K sel ls"
  proof -
    obtain a where a: "a \<in> set as" "c = entry h2 a" using c unfolding view by blast
    have "SelectorMatches K (cs_selector d) ls" if "evolved ns ?ops (entry h2 a) d" for d
      using that \<open>SelectorMatches K (cs_selector c) ls\<close> stays unfolding a(2) evolved_def
      by (metis UN_E atLeast_iff)
    then show ?thesis using sees[of q, THEN conjunct2] a by blast
  qed
qed

subsection \<open>The handlers as critical sections\<close>

text \<open>The updates of theory OptedCache are operations of this theory on the lists of entries.\<close>

lemma observed_as_op:
  assumes "run_state (updateOptedInServicesCacheForService K svc) s = (u, s')"
  shows "\<exists>t. opted_of (optedInServicesCache s') =
    list_op (if watched svc then Put (Namespace svc) (Name svc) (Selector svc) t
      else Drop (Namespace svc) (Name svc)) (opted_of (optedInServicesCache s))"
  by (rule run_updateForService[OF assms]) (auto simp: opted.sync_def intro!: exI)

lemma refreshed_as_op:
  "refreshed K cfg ns c items c' \<Longrightarrow> \<exists>cached. opted_of c' = list_op (Refill ns cached) (opted_of c)"
  by (auto simp: refreshed_def fun_eq_iff)

subsection \<open>A sample\<close>

definition empty_heap :: service_heap where
  "empty_heap = \<lparr>heap = empty_memory, slices = []\<rparr>"

lemma view_empty: "view empty_heap = (\<lambda>ns. [])"
  by (simp add: view_def entries_def empty_heap_def fun_eq_iff)

lemma empty_heap_ok: "heap_ok empty_heap"
  by (simp add: heap_ok_def entries_def empty_heap_def mem_ok_def empty_memory_def)

text \<open>One registered Service, which another goroutine drops after the lock was released.\<close>

definition sample_heap :: service_heap where
  "sample_heap = apply_op (Put ''prod'' ''db'' [(''app'', ''db'')] 1) empty_heap"

definition sample_others :: "nat \<Rightarrow> cache_op list" where
  "sample_others i = (if i = 1 then [Drop ''prod'' ''db''] else [])"

lemma sample_heap_ok: "heap_ok sample_heap"
  unfolding sample_heap_def by (rule heap_ok_op[OF empty_heap_ok])

lemma sample_captured:
  "view (snd (captured ''prod'' refill t sample_others sample_heap)) ''prod'' =
     [\<lparr>cs_name = ''db'', cs_selector = [(''app'', ''db'')], cs_lastAccess = t\<rparr>]"
proof -
  have view: "view sample_heap ''prod'' = [\<lparr>cs_name = ''db'', cs_selector = [(''app'', ''db'')], cs_lastAccess = 1\<rparr>]"
    unfolding sample_heap_def view_op[OF empty_heap_ok] by (simp add: view_empty)
  then have "entries sample_heap ''prod'' \<noteq> []" by (auto simp: view_def)
  then show ?thesis
    using view_op[OF sample_heap_ok, of "Touch ''prod'' t"] view
    by (simp add: captured_def sample_others_def Let_def del: apply_op.simps)
qed

end
