(* ===== verification/ClientSDK.thy ===== *)
theory ClientSDK
  imports LeaderCache LeaderGroup
begin

text \<open>
  The client SDK of \<^verbatim>\<open>pkg/client/client.go\<close>, by which a pod asks whether it holds the Lease of a
  pool. The state holds the cache and a log of what the client observed: the answers to its Lease
  reads and the times it read off the clock. The environment variables are read once per call in
  the code and are constants here; the service account file, the validation functions, the clock
  and the API server are parameters.
\<close>

definition DefaultCacheTTL :: duration where
  "DefaultCacheTTL = 2 * 1000000000"

record sdk_client =
  podName :: string
  podUID :: string

record client_entry =
  ce_isLeader :: bool
  ce_expires :: go_time

type_synonym client_cache = "(string \<times> client_entry) list"

record environment =
  POD_NAME :: string
  HOSTNAME :: string
  POD_UID :: string
  POD_NAMESPACE :: string

record 'w sdk_kube =
  SdkGetLease :: "nsname \<Rightarrow> 'w \<Rightarrow> (api_err + lease) \<times> 'w"
  SdkNow :: "'w \<Rightarrow> go_time \<times> 'w"
  NamespaceFile :: "'w \<Rightarrow> string + string"
  SdkLabelErrors :: "string \<Rightarrow> string list"
  SdkSubdomainErrors :: "string \<Rightarrow> string list"

datatype observation = LeaseRead nsname "api_err + lease" | ClockRead go_time

record 'w sdk_sys =
  sdk_world :: 'w
  sdk_cache :: client_cache
  sdk_log :: "observation list"

datatype sdk_error =
    PodNameNotSet
  | NamespaceFileTooLarge nat
  | InvalidNamespaceFormat "string list"
  | NamespaceUnknown string
  | InvalidPoolName "string list"
  | LeaseNotFound string string api_err

subsection \<open>The client\<close>

definition NewClient :: "environment \<Rightarrow> sdk_client \<times> client_cache" where
  "NewClient env =
     (\<lparr>podName = (if POD_NAME env = '''' then HOSTNAME env else POD_NAME env),
       podUID = POD_UID env\<rparr>, [])"

definition sdk_now :: "'w sdk_kube \<Rightarrow> ('w sdk_sys, go_time) state" where
  "sdk_now K = State (\<lambda>s. case SdkNow K (sdk_world s) of
     (t, w) \<Rightarrow> (t, s\<lparr>sdk_world := w, sdk_log := sdk_log s @ [ClockRead t]\<rparr>))"

definition sdk_get_lease :: "'w sdk_kube \<Rightarrow> nsname \<Rightarrow> ('w sdk_sys, api_err + lease) state" where
  "sdk_get_lease K k = State (\<lambda>s. case SdkGetLease K k (sdk_world s) of
     (r, w) \<Rightarrow> (r, s\<lparr>sdk_world := w, sdk_log := sdk_log s @ [LeaseRead k r]\<rparr>))"

definition is_holder :: "sdk_client \<Rightarrow> lease \<Rightarrow> bool" where
  "is_holder c l =
     (case LeaseHolder l of
        None \<Rightarrow> False
      | Some leaderIdentity \<Rightarrow>
          leaderIdentity \<noteq> '''' \<and>
          (podName c = leaderIdentity \<or> podName c @ ''-'' @ podUID c = leaderIdentity))"

definition client_valid :: "client_cache \<Rightarrow> string \<Rightarrow> go_time \<Rightarrow> bool option" where
  "client_valid c k t =
     (case map_of c k of
        Some e \<Rightarrow> if t < ce_expires e then Some (ce_isLeader e) else None
      | None \<Rightarrow> None)"

definition client_put :: "string \<Rightarrow> bool \<Rightarrow> go_time \<Rightarrow> client_cache \<Rightarrow> client_cache" where
  "client_put k b e c = AList.update k \<lparr>ce_isLeader = b, ce_expires = e\<rparr> c"

text \<open>The clock is read only when there is an entry.\<close>

definition check_cache :: "'w sdk_kube \<Rightarrow> string \<Rightarrow> ('w sdk_sys, bool option) state" where
  "check_cache K k =
     do { c \<leftarrow> gets sdk_cache;
          if map_of c k = None then ret None
          else do { t \<leftarrow> sdk_now K; ret (client_valid c k t) } }"

definition maxNamespaceFileSize :: nat where
  "maxNamespaceFileSize = 256"

definition client_namespace :: "'w sdk_kube \<Rightarrow> environment \<Rightarrow> 'w \<Rightarrow> sdk_error + string" where
  "client_namespace K env w =
     (if POD_NAMESPACE env = '''' then
        (case NamespaceFile K w of
           Inr data \<Rightarrow>
             if length data > maxNamespaceFileSize then Inl (NamespaceFileTooLarge (length data))
             else (let ns = TrimSpace data
                   in if SdkLabelErrors K ns \<noteq> [] then Inl (InvalidNamespaceFormat (SdkLabelErrors K ns))
                      else Inr ns)
         | Inl err \<Rightarrow> Inl (NamespaceUnknown err))
      else
        (let ns = TrimSpace (POD_NAMESPACE env)
         in if SdkLabelErrors K ns \<noteq> [] then Inl (InvalidNamespaceFormat (SdkLabelErrors K ns))
            else Inr ns))"

text \<open>The common end of both functions: read the Lease, compare, remember.\<close>

definition query_lease ::
  "'w sdk_kube \<Rightarrow> sdk_client \<Rightarrow> string \<Rightarrow> string \<Rightarrow> string \<Rightarrow> ('w sdk_sys, sdk_error + bool) state" where
  "query_lease K c cacheKey ns poolName =
     do { r \<leftarrow> sdk_get_lease K (ns, poolName);
          case r of
            Inl err \<Rightarrow> ret (Inl (LeaseNotFound poolName ns err))
          | Inr l \<Rightarrow>
              do { t \<leftarrow> sdk_now K;
                   modify (\<lambda>s. s\<lparr>sdk_cache :=
                     client_put cacheKey (is_holder c l) (t + DefaultCacheTTL) (sdk_cache s)\<rparr>);
                   ret (Inr (is_holder c l)) } }"

definition IsLeader ::
  "'w sdk_kube \<Rightarrow> sdk_client \<Rightarrow> environment \<Rightarrow> string \<Rightarrow> ('w sdk_sys, sdk_error + bool) state" where
  "IsLeader K c env poolName =
     do { hit \<leftarrow> check_cache K poolName;
          case hit of
            Some isLeader \<Rightarrow> ret (Inr isLeader)
          | None \<Rightarrow>
              if podName c = '''' then ret (Inl PodNameNotSet)
              else do { w \<leftarrow> gets sdk_world;
                        case client_namespace K env w of
                          Inl err \<Rightarrow> ret (Inl err)
                        | Inr ns \<Rightarrow> query_lease K c poolName ns poolName } }"

definition IsLeaderWithNamespace ::
  "'w sdk_kube \<Rightarrow> sdk_client \<Rightarrow> string \<Rightarrow> string \<Rightarrow> ('w sdk_sys, sdk_error + bool) state" where
  "IsLeaderWithNamespace K c poolName rawNamespace =
     (let ns = TrimSpace rawNamespace
      in if SdkLabelErrors K ns \<noteq> [] then ret (Inl (InvalidNamespaceFormat (SdkLabelErrors K ns)))
         else if SdkSubdomainErrors K poolName \<noteq> []
         then ret (Inl (InvalidPoolName (SdkSubdomainErrors K poolName)))
         else if podName c = '''' then ret (Inl PodNameNotSet)
         else
           do { hit \<leftarrow> check_cache K (service_key ns poolName);
                case hit of
                  Some isLeader \<Rightarrow> ret (Inr isLeader)
                | None \<Rightarrow> query_lease K c (service_key ns poolName) ns poolName })"

definition ClearCache :: "('w sdk_sys, unit) state" where
  "ClearCache = modify (\<lambda>s. s\<lparr>sdk_cache := []\<rparr>)"

subsection \<open>The cache has the contract of a map with expiring entries\<close>

definition client_cache_ok :: "client_cache \<Rightarrow> bool" where
  "client_cache_ok c \<longleftrightarrow> distinct (map fst c)"

interpretation client_cache: ttl_cache client_cache_ok client_valid client_put "[]"
  by unfold_locales
    (auto simp: client_cache_ok_def client_valid_def client_put_def distinct_update update_conv')

subsection \<open>What an answer rests on\<close>

text \<open>
  An entry is backed by a Lease the client read: the Lease of the pool the key stands for, read
  just before the clock reading from which the entry's time to live counts.
\<close>

definition key_of :: "string \<Rightarrow> nsname \<Rightarrow> bool" where
  "key_of cacheKey k \<longleftrightarrow> cacheKey = snd k \<or> cacheKey = service_key (fst k) (snd k)"

definition backed :: "sdk_client \<Rightarrow> observation list \<Rightarrow> string \<Rightarrow> bool \<Rightarrow> go_time \<Rightarrow> bool" where
  "backed c log cacheKey b e \<longleftrightarrow>
     (\<exists>k l t. sublist [LeaseRead k (Inr l), ClockRead t] log \<and> key_of cacheKey k \<and>
        b = is_holder c l \<and> e = t + DefaultCacheTTL)"

definition cache_backed :: "sdk_client \<Rightarrow> 'w sdk_sys \<Rightarrow> bool" where
  "cache_backed c s \<longleftrightarrow>
     (\<forall>k e. map_of (sdk_cache s) k = Some e \<longrightarrow> backed c (sdk_log s) k (ce_isLeader e) (ce_expires e))"

lemma backed_append: "backed c log k b e \<Longrightarrow> backed c (log @ later) k b e"
  unfolding backed_def sublist_def by fastforce

lemma run_sdk_now [simp]:
  "run_state (sdk_now K) s =
     (fst (SdkNow K (sdk_world s)), s\<lparr>sdk_world := snd (SdkNow K (sdk_world s)),
        sdk_log := sdk_log s @ [ClockRead (fst (SdkNow K (sdk_world s)))]\<rparr>)"
  by (simp add: sdk_now_def split: prod.splits)

lemma run_sdk_get_lease [simp]:
  "run_state (sdk_get_lease K k) s =
     (fst (SdkGetLease K k (sdk_world s)), s\<lparr>sdk_world := snd (SdkGetLease K k (sdk_world s)),
        sdk_log := sdk_log s @ [LeaseRead k (fst (SdkGetLease K k (sdk_world s)))]\<rparr>)"
  by (simp add: sdk_get_lease_def split: prod.splits)

text \<open>The answer \<open>b\<close> at the end of \<open>log\<close> is at most the time to live older than its Lease read.\<close>

definition fresh_answer :: "sdk_client \<Rightarrow> observation list \<Rightarrow> string \<Rightarrow> bool \<Rightarrow> bool" where
  "fresh_answer c log cacheKey b \<longleftrightarrow>
     (\<exists>t e. last log = ClockRead t \<and> log \<noteq> [] \<and> backed c log cacheKey b e \<and> t < e)"

lemma check_cache_result:
  assumes "cache_backed c s" and "run_state (check_cache K k) s = (r, s')"
  shows "cache_backed c s'" and "r = Some b \<Longrightarrow> fresh_answer c (sdk_log s') k b"
    and "sdk_cache s' = sdk_cache s"
proof -
  show "sdk_cache s' = sdk_cache s"
    using assms(2) by (auto simp: check_cache_def split: if_splits)
  show "cache_backed c s'"
    using assms by (auto simp: check_cache_def cache_backed_def backed_append split: if_splits)
  assume "r = Some b"
  then obtain e where "map_of (sdk_cache s) k = Some e" and "b = ce_isLeader e"
    and "fst (SdkNow K (sdk_world s)) < ce_expires e"
    and "sdk_log s' = sdk_log s @ [ClockRead (fst (SdkNow K (sdk_world s)))]"
    using assms(2)
    by (auto simp: check_cache_def client_valid_def split: if_splits option.splits)
  moreover from this have "backed c (sdk_log s) k b (ce_expires e)"
    using assms(1) by (simp add: cache_backed_def)
  ultimately show "fresh_answer c (sdk_log s') k b"
    by (auto simp: fresh_answer_def intro: backed_append)
qed

lemma query_lease_result:
  assumes "cache_backed c s" and "key_of k (ns, pool)"
    and "run_state (query_lease K c k ns pool) s = (r, s')"
  shows "cache_backed c s'" and "r = Inr b \<Longrightarrow> fresh_answer c (sdk_log s') k b"
proof -
  obtain q w where q: "SdkGetLease K (ns, pool) (sdk_world s) = (q, w)" by (metis prod.exhaust)
  have "cache_backed c s' \<and> (r = Inr b \<longrightarrow> fresh_answer c (sdk_log s') k b)"
  proof (cases q)
    case (Inl err)
    then show ?thesis
      using assms q by (auto simp: query_lease_def cache_backed_def backed_append)
  next
    case (Inr l)
    let ?t = "fst (SdkNow K w)"
    let ?log = "sdk_log s @ [LeaseRead (ns, pool) (Inr l), ClockRead ?t]"
    have new: "backed c ?log k (is_holder c l) (?t + DefaultCacheTTL)"
      unfolding backed_def using assms(2) by (auto intro: sublist_append_leftI)
    have "sdk_log s' = ?log" and r: "r = Inr (is_holder c l)"
      and "sdk_cache s' = client_put k (is_holder c l) (?t + DefaultCacheTTL) (sdk_cache s)"
      using assms(3) q Inr by (auto simp: query_lease_def)
    moreover from this have "cache_backed c s'"
      using assms(1) new
      by (auto simp: cache_backed_def client_put_def update_conv' intro: backed_append)
    moreover have "fresh_answer c ?log k (is_holder c l)"
      unfolding fresh_answer_def using new by (auto simp: DefaultCacheTTL_def)
    ultimately show ?thesis by auto
  qed
  then show "cache_backed c s'" and "r = Inr b \<Longrightarrow> fresh_answer c (sdk_log s') k b" by auto
qed

lemma IsLeader_result:
  assumes "cache_backed c s" and "run_state (IsLeader K c env pool) s = (r, s')"
  shows "cache_backed c s' \<and> (\<forall>b. r = Inr b \<longrightarrow> fresh_answer c (sdk_log s') pool b)"
proof -
  obtain hit t where hit: "run_state (check_cache K pool) s = (hit, t)" by (metis prod.exhaust)
  note cached = check_cache_result[OF assms(1) hit]
  have query: "cache_backed c s' \<and> (\<forall>b. r = Inr b \<longrightarrow> fresh_answer c (sdk_log s') pool b)"
    if "run_state (query_lease K c pool ns pool) t = (r, s')" for ns
    using query_lease_result[OF cached(1) _ that] by (auto simp: key_of_def)
  show ?thesis
    using assms(2) hit cached query
    by (auto simp: IsLeader_def split: option.splits if_splits sum.splits)
qed

lemma IsLeaderWithNamespace_result:
  assumes "cache_backed c s" and "run_state (IsLeaderWithNamespace K c pool ns) s = (r, s')"
  shows "cache_backed c s' \<and>
    (\<forall>b. r = Inr b \<longrightarrow> fresh_answer c (sdk_log s') (service_key (TrimSpace ns) pool) b)"
proof (cases "SdkLabelErrors K (TrimSpace ns) \<noteq> [] \<or> SdkSubdomainErrors K pool \<noteq> [] \<or> podName c = ''''")
  case True
  then show ?thesis
    using assms by (auto simp: IsLeaderWithNamespace_def Let_def split: if_splits)
next
  case False
  let ?k = "service_key (TrimSpace ns) pool"
  obtain hit t where hit: "run_state (check_cache K ?k) s = (hit, t)" by (metis prod.exhaust)
  note cached = check_cache_result[OF assms(1) hit]
  have query: "cache_backed c s' \<and> (\<forall>b. r = Inr b \<longrightarrow> fresh_answer c (sdk_log s') ?k b)"
    if "run_state (query_lease K c ?k (TrimSpace ns) pool) t = (r, s')"
    using query_lease_result[OF cached(1) _ that] by (auto simp: key_of_def)
  show ?thesis
    using assms(2) hit cached query False
    by (auto simp: IsLeaderWithNamespace_def Let_def split: option.splits)
qed

text \<open>A concrete environment for the witnesses: one Lease, held by \<^verbatim>\<open>db-0\<close>, and a ticking clock.\<close>

definition sample_lease :: lease where
  "sample_lease = \<lparr>Name = ''db'', Namespace = ''prod'', UID = ''u1'', ResourceVersion = ''7'',
     Labels = [], Annotations = [], OwnerReferences = [], CreationTimestamp = 0,
     DeletionTimestamp = None, LeaseHolder = Some ''db-0'', LeaseRenewTime = Some 5,
     LeaseDuration = Some 15, LeaseTransitions = None\<rparr>"

definition sample_sdk :: "int sdk_kube" where
  "sample_sdk = \<lparr>SdkGetLease = (\<lambda>k w. (if k = (''prod'', ''db'') then Inr sample_lease else Inl NotFound, w)),
     SdkNow = (\<lambda>w. (w, w + 1)), NamespaceFile = (\<lambda>w. Inl ''no such file''),
     SdkLabelErrors = (\<lambda>n. if n = '''' then [''empty''] else []),
     SdkSubdomainErrors = (\<lambda>n. if n = '''' then [''empty''] else [])\<rparr>"

definition sample_client :: sdk_client where
  "sample_client = \<lparr>podName = ''db-0'', podUID = ''x''\<rparr>"

definition sample_environment :: environment where
  "sample_environment =
     \<lparr>POD_NAME = ''db-0'', HOSTNAME = ''db-0'', POD_UID = ''x'', POD_NAMESPACE = ''prod''\<rparr>"

definition sample_sdk_sys :: "int sdk_sys" where
  "sample_sdk_sys = \<lparr>sdk_world = 100, sdk_cache = [], sdk_log = []\<rparr>"

text \<open>
  Two pods that both take themselves for the holder of one Lease have the same name, unless the
  name of one is the name of the other followed by its UID, or the concatenations coincide.
\<close>

lemma holders_agree:
  assumes "is_holder c l" and "is_holder d l"
  shows "podName c = podName d \<or> podName c = podName d @ ''-'' @ podUID d \<or>
    podName d = podName c @ ''-'' @ podUID c \<or>
    podName c @ ''-'' @ podUID c = podName d @ ''-'' @ podUID d"
  using assms by (auto simp: is_holder_def split: option.splits)

end
