(* ===== verification/DeepCopy.thy ===== *)
theory DeepCopy
  imports Memory LeaderGroup
begin

text \<open>
  The hand-written deep copies of \<^verbatim>\<open>leadergroup_types.go\<close>, on a memory with pointers. A struct in
  memory is a record whose pointer fields are addresses and whose slices are the addresses of their
  arrays; its view is the value of theory LeaderGroup. The deep copies of \<^verbatim>\<open>metav1.ObjectMeta\<close>,
  \<^verbatim>\<open>metav1.ListMeta\<close> and \<^verbatim>\<open>metav1.LabelSelector\<close> are in another package: they are parameters, of which
  the lemmas assume the contract \<open>copier\<close>. \<^verbatim>\<open>metav1.Time\<close> and \<^verbatim>\<open>metav1.Condition\<close> have no pointers to
  data, and are copied by assignment.
\<close>

subsection \<open>Structs in memory\<close>

record lease_ref =
  DurationPtr :: "nat option"
  RenewDeadlinePtr :: "nat option"
  RetryPeriodPtr :: "nat option"

record spec_ref =
  TypeField :: string
  SelectorPtr :: "nat option"
  ComponentField :: string
  LeasePtr :: "nat option"
  RoutingPtr :: "nat option"

record status_ref =
  HolderField :: string
  RenewTimePtr :: "nat option"
  DurationSecondsPtr :: "nat option"
  FencingTokenPtr :: "nat option"
  ObservedField :: string
  ConditionsArray :: "nat option"

record 'm group_ref =
  GroupAPIVersion :: string
  GroupKind :: string
  MetaField :: 'm
  SpecField :: spec_ref
  StatusField :: status_ref

record ('m, 'l) list_ref =
  ListAPIVersion :: string
  ListKind :: string
  ListMetaField :: 'l
  ItemsArray :: "nat option"

text \<open>A cell holds a value of one of the types that are pointed to, or one of another package.\<close>

datatype ('m, 'l, 's, 'x) cell =
    DurationCell duration
  | TimeCell go_time
  | IntCell int
  | ConditionsCell "meta_condition list"
  | SelectorCell 's
  | LeaseCell lease_ref
  | RoutingCell routing_settings
  | SpecCell spec_ref
  | StatusCell status_ref
  | GroupCell "'m group_ref"
  | GroupsCell "'m group_ref list"
  | ListCell "('m, 'l) list_ref"
  | OtherCell 'x

type_synonym ('m, 'l, 's, 'x) mem = "('m, 'l, 's, 'x) cell memory"

definition un_duration :: "('m, 'l, 's, 'x) cell \<Rightarrow> duration option" where
  "un_duration c = (case c of DurationCell d \<Rightarrow> Some d | _ \<Rightarrow> None)"
definition un_time :: "('m, 'l, 's, 'x) cell \<Rightarrow> go_time option" where
  "un_time c = (case c of TimeCell t \<Rightarrow> Some t | _ \<Rightarrow> None)"
definition un_int :: "('m, 'l, 's, 'x) cell \<Rightarrow> int option" where
  "un_int c = (case c of IntCell i \<Rightarrow> Some i | _ \<Rightarrow> None)"
definition un_conditions :: "('m, 'l, 's, 'x) cell \<Rightarrow> meta_condition list option" where
  "un_conditions c = (case c of ConditionsCell cs \<Rightarrow> Some cs | _ \<Rightarrow> None)"
definition un_selector :: "('m, 'l, 's, 'x) cell \<Rightarrow> 's option" where
  "un_selector c = (case c of SelectorCell s \<Rightarrow> Some s | _ \<Rightarrow> None)"
definition un_lease :: "('m, 'l, 's, 'x) cell \<Rightarrow> lease_ref option" where
  "un_lease c = (case c of LeaseCell l \<Rightarrow> Some l | _ \<Rightarrow> None)"
definition un_routing :: "('m, 'l, 's, 'x) cell \<Rightarrow> routing_settings option" where
  "un_routing c = (case c of RoutingCell r \<Rightarrow> Some r | _ \<Rightarrow> None)"
definition un_spec :: "('m, 'l, 's, 'x) cell \<Rightarrow> spec_ref option" where
  "un_spec c = (case c of SpecCell s \<Rightarrow> Some s | _ \<Rightarrow> None)"
definition un_status :: "('m, 'l, 's, 'x) cell \<Rightarrow> status_ref option" where
  "un_status c = (case c of StatusCell s \<Rightarrow> Some s | _ \<Rightarrow> None)"
definition un_group :: "('m, 'l, 's, 'x) cell \<Rightarrow> 'm group_ref option" where
  "un_group c = (case c of GroupCell g \<Rightarrow> Some g | _ \<Rightarrow> None)"
definition un_groups :: "('m, 'l, 's, 'x) cell \<Rightarrow> 'm group_ref list option" where
  "un_groups c = (case c of GroupsCell gs \<Rightarrow> Some gs | _ \<Rightarrow> None)"
definition un_list :: "('m, 'l, 's, 'x) cell \<Rightarrow> ('m, 'l) list_ref option" where
  "un_list c = (case c of ListCell l \<Rightarrow> Some l | _ \<Rightarrow> None)"

lemma un_mk [simp]:
  "un_duration (DurationCell d) = Some d" "un_time (TimeCell t) = Some t" "un_int (IntCell i) = Some i"
  "un_conditions (ConditionsCell cs) = Some cs" "un_selector (SelectorCell s) = Some s"
  "un_lease (LeaseCell l) = Some l" "un_routing (RoutingCell r) = Some r"
  "un_spec (SpecCell sp) = Some sp" "un_status (StatusCell st) = Some st"
  "un_group (GroupCell g) = Some g" "un_groups (GroupsCell gs) = Some gs"
  "un_list (ListCell ls) = Some ls"
  by (simp_all add: un_duration_def un_time_def un_int_def un_conditions_def un_selector_def un_lease_def
      un_routing_def un_spec_def un_status_def un_group_def un_groups_def un_list_def)

text \<open>The deep copies of the other packages.\<close>

record ('m, 'l, 's, 'x) externals =
  CopyObjectMeta :: "'m \<Rightarrow> (('m, 'l, 's, 'x) mem, 'm) state"
  CopyListMeta :: "'l \<Rightarrow> (('m, 'l, 's, 'x) mem, 'l) state"
  CopyLabelSelector :: "'s \<Rightarrow> (('m, 'l, 's, 'x) mem, 's) state"

subsection \<open>The deep copies\<close>

text \<open>\<^verbatim>\<open>*out = *in\<close> copies all fields; then the pointers are replaced.\<close>

definition LeaseSettings_DeepCopyInto :: "lease_ref \<Rightarrow> (('m, 'l, 's, 'x) mem, lease_ref) state" where
  "LeaseSettings_DeepCopyInto in' =
     do { d \<leftarrow> copy_ptr DurationCell un_duration ret (DurationPtr in');
          n \<leftarrow> copy_ptr DurationCell un_duration ret (RenewDeadlinePtr in');
          p \<leftarrow> copy_ptr DurationCell un_duration ret (RetryPeriodPtr in');
          ret (in'\<lparr>DurationPtr := d, RenewDeadlinePtr := n, RetryPeriodPtr := p\<rparr>) }"

definition LeaseSettings_DeepCopy :: "nat option \<Rightarrow> (('m, 'l, 's, 'x) mem, nat option) state" where
  "LeaseSettings_DeepCopy = copy_ptr LeaseCell un_lease LeaseSettings_DeepCopyInto"

definition RoutingSettings_DeepCopyInto ::
  "routing_settings \<Rightarrow> (('m, 'l, 's, 'x) mem, routing_settings) state" where
  "RoutingSettings_DeepCopyInto in' = ret in'"

definition RoutingSettings_DeepCopy :: "nat option \<Rightarrow> (('m, 'l, 's, 'x) mem, nat option) state" where
  "RoutingSettings_DeepCopy = copy_ptr RoutingCell un_routing RoutingSettings_DeepCopyInto"

definition LeaderGroupSpec_DeepCopyInto ::
  "('m, 'l, 's, 'x) externals \<Rightarrow> spec_ref \<Rightarrow> (('m, 'l, 's, 'x) mem, spec_ref) state" where
  "LeaderGroupSpec_DeepCopyInto E in' =
     do { s \<leftarrow> copy_ptr SelectorCell un_selector (CopyLabelSelector E) (SelectorPtr in');
          l \<leftarrow> copy_ptr LeaseCell un_lease LeaseSettings_DeepCopyInto (LeasePtr in');
          r \<leftarrow> copy_ptr RoutingCell un_routing RoutingSettings_DeepCopyInto (RoutingPtr in');
          ret (in'\<lparr>SelectorPtr := s, LeasePtr := l, RoutingPtr := r\<rparr>) }"

definition LeaderGroupSpec_DeepCopy ::
  "('m, 'l, 's, 'x) externals \<Rightarrow> nat option \<Rightarrow> (('m, 'l, 's, 'x) mem, nat option) state" where
  "LeaderGroupSpec_DeepCopy E = copy_ptr SpecCell un_spec (LeaderGroupSpec_DeepCopyInto E)"

definition LeaderGroupStatus_DeepCopyInto :: "status_ref \<Rightarrow> (('m, 'l, 's, 'x) mem, status_ref) state" where
  "LeaderGroupStatus_DeepCopyInto in' =
     do { t \<leftarrow> copy_ptr TimeCell un_time ret (RenewTimePtr in');
          d \<leftarrow> copy_ptr IntCell un_int ret (DurationSecondsPtr in');
          f \<leftarrow> copy_ptr IntCell un_int ret (FencingTokenPtr in');
          c \<leftarrow> copy_ptr ConditionsCell un_conditions (copy_list ret) (ConditionsArray in');
          ret (in'\<lparr>RenewTimePtr := t, DurationSecondsPtr := d, FencingTokenPtr := f,
            ConditionsArray := c\<rparr>) }"

definition LeaderGroupStatus_DeepCopy :: "nat option \<Rightarrow> (('m, 'l, 's, 'x) mem, nat option) state" where
  "LeaderGroupStatus_DeepCopy = copy_ptr StatusCell un_status LeaderGroupStatus_DeepCopyInto"

definition LeaderGroup_DeepCopyInto ::
  "('m, 'l, 's, 'x) externals \<Rightarrow> 'm group_ref \<Rightarrow> (('m, 'l, 's, 'x) mem, 'm group_ref) state" where
  "LeaderGroup_DeepCopyInto E in' =
     do { om \<leftarrow> CopyObjectMeta E (MetaField in');
          sp \<leftarrow> LeaderGroupSpec_DeepCopyInto E (SpecField in');
          st \<leftarrow> LeaderGroupStatus_DeepCopyInto (StatusField in');
          ret (in'\<lparr>MetaField := om, SpecField := sp, StatusField := st\<rparr>) }"

definition LeaderGroup_DeepCopy ::
  "('m, 'l, 's, 'x) externals \<Rightarrow> nat option \<Rightarrow> (('m, 'l, 's, 'x) mem, nat option) state" where
  "LeaderGroup_DeepCopy E = copy_ptr GroupCell un_group (LeaderGroup_DeepCopyInto E)"

definition LeaderGroupList_DeepCopyInto ::
  "('m, 'l, 's, 'x) externals \<Rightarrow> ('m, 'l) list_ref \<Rightarrow> (('m, 'l, 's, 'x) mem, ('m, 'l) list_ref) state"
  where
  "LeaderGroupList_DeepCopyInto E in' =
     do { lm \<leftarrow> CopyListMeta E (ListMetaField in');
          is \<leftarrow> copy_ptr GroupsCell un_groups (copy_list (LeaderGroup_DeepCopyInto E)) (ItemsArray in');
          ret (in'\<lparr>ListMetaField := lm, ItemsArray := is\<rparr>) }"

definition LeaderGroupList_DeepCopy ::
  "('m, 'l, 's, 'x) externals \<Rightarrow> nat option \<Rightarrow> (('m, 'l, 's, 'x) mem, nat option) state" where
  "LeaderGroupList_DeepCopy E = copy_ptr ListCell un_list (LeaderGroupList_DeepCopyInto E)"

text \<open>\<^verbatim>\<open>runtime.Object\<close> is an interface: a nil pointer in it is still of its type.\<close>

datatype runtime_object = GroupObject "nat option" | ListObject "nat option"

definition LeaderGroup_DeepCopyObject ::
  "('m, 'l, 's, 'x) externals \<Rightarrow> nat option \<Rightarrow> (('m, 'l, 's, 'x) mem, runtime_object) state" where
  "LeaderGroup_DeepCopyObject E p = do { q \<leftarrow> LeaderGroup_DeepCopy E p; ret (GroupObject q) }"

definition LeaderGroupList_DeepCopyObject ::
  "('m, 'l, 's, 'x) externals \<Rightarrow> nat option \<Rightarrow> (('m, 'l, 's, 'x) mem, runtime_object) state" where
  "LeaderGroupList_DeepCopyObject E p = do { q \<leftarrow> LeaderGroupList_DeepCopy E p; ret (ListObject q) }"

subsection \<open>What the structs stand for\<close>

abbreviation value_of :: "'c memory \<Rightarrow> 'a \<Rightarrow> 'a option" where
  "value_of m \<equiv> Some"

abbreviation nothing :: "'c memory \<Rightarrow> 'a \<Rightarrow> nat set" where
  "nothing m x \<equiv> {}"

definition view_lease :: "('m, 'l, 's, 'x) mem \<Rightarrow> lease_ref \<Rightarrow> lease_settings option" where
  "view_lease m r =
     map_option (\<lambda>(d, n, p). \<lparr>Duration = d, RenewDeadline = n, RetryPeriod = p\<rparr>)
       (view_both (view_ptr un_duration value_of) (view_both (view_ptr un_duration value_of)
          (view_ptr un_duration value_of)) m (DurationPtr r, RenewDeadlinePtr r, RetryPeriodPtr r))"

definition foot_lease :: "('m, 'l, 's, 'x) mem \<Rightarrow> lease_ref \<Rightarrow> nat set" where
  "foot_lease m r =
     foot_both (foot_ptr un_duration nothing) (foot_both (foot_ptr un_duration nothing)
       (foot_ptr un_duration nothing)) m (DurationPtr r, RenewDeadlinePtr r, RetryPeriodPtr r)"

lemma all_fields [simp]:
  "l\<lparr>DurationPtr := d, RenewDeadlinePtr := n, RetryPeriodPtr := p\<rparr> =
     \<lparr>DurationPtr = d, RenewDeadlinePtr = n, RetryPeriodPtr = p\<rparr>"
  "sp\<lparr>SelectorPtr := s, LeasePtr := d, RoutingPtr := n\<rparr> =
     \<lparr>TypeField = TypeField sp, SelectorPtr = s, ComponentField = ComponentField sp, LeasePtr = d,
      RoutingPtr = n\<rparr>"
  "st\<lparr>RenewTimePtr := d, DurationSecondsPtr := n, FencingTokenPtr := p, ConditionsArray := c\<rparr> =
     \<lparr>HolderField = HolderField st, RenewTimePtr = d, DurationSecondsPtr = n, FencingTokenPtr = p,
      ObservedField = ObservedField st, ConditionsArray = c\<rparr>"
  "g\<lparr>MetaField := om, SpecField := sp, StatusField := st\<rparr> =
     \<lparr>GroupAPIVersion = GroupAPIVersion g, GroupKind = GroupKind g, MetaField = om, SpecField = sp,
      StatusField = st\<rparr>"
  "ls\<lparr>ListMetaField := lm, ItemsArray := c\<rparr> =
     \<lparr>ListAPIVersion = ListAPIVersion ls, ListKind = ListKind ls, ListMetaField = lm, ItemsArray = c\<rparr>"
  by (cases l; cases sp; cases st; cases g; cases ls; simp)+

interpretation lease: copier LeaseSettings_DeepCopyInto view_lease foot_lease
proof (rule copier_struct[where to = "\<lambda>r. (DurationPtr r, RenewDeadlinePtr r, RetryPeriodPtr r)"
      and of' = "\<lambda>(d, n, p). \<lparr>DurationPtr = d, RenewDeadlinePtr = n, RetryPeriodPtr = p\<rparr>"])
  let ?ptr = "copy_ptr DurationCell un_duration ret"
  show "copier (copy_both ?ptr (copy_both ?ptr ?ptr))
      (view_both (view_ptr un_duration value_of) (view_both (view_ptr un_duration value_of)
          (view_ptr un_duration value_of)))
      (foot_both (foot_ptr un_duration nothing) (foot_both (foot_ptr un_duration nothing)
       (foot_ptr un_duration nothing)))"
    by (intro copier_both copier_ptr plain.copier_axioms un_mk)
qed (auto simp: LeaseSettings_DeepCopyInto_def copy_both_def view_lease_def foot_lease_def)

text \<open>The values of type and component are copied with the struct.\<close>

definition view_spec ::
  "(('m, 'l, 's, 'x) mem \<Rightarrow> 's \<Rightarrow> strmap option) \<Rightarrow> ('m, 'l, 's, 'x) mem \<Rightarrow> spec_ref \<Rightarrow> lg_spec option" where
  "view_spec vs m r =
     map_option (\<lambda>(s, l, n, ty, c). \<lparr>SpecType = ty, SpecSelector = s, Component = c, SpecLease = l, Routing = n\<rparr>)
       (view_both (view_ptr un_selector vs) (view_both (view_ptr un_lease view_lease)
          (view_both (view_ptr un_routing value_of) value_of)) m
          (SelectorPtr r, LeasePtr r, RoutingPtr r, TypeField r, ComponentField r))"

definition foot_spec ::
  "(('m, 'l, 's, 'x) mem \<Rightarrow> 's \<Rightarrow> nat set) \<Rightarrow> ('m, 'l, 's, 'x) mem \<Rightarrow> spec_ref \<Rightarrow> nat set" where
  "foot_spec fs m r =
     foot_both (foot_ptr un_selector fs) (foot_both (foot_ptr un_lease foot_lease)
       (foot_both (foot_ptr un_routing nothing) nothing)) m
       (SelectorPtr r, LeasePtr r, RoutingPtr r, TypeField r, ComponentField r)"

lemma copier_spec:
  assumes "copier (CopyLabelSelector E) vs fs"
  shows "copier (LeaderGroupSpec_DeepCopyInto E) (view_spec vs) (foot_spec fs)"
proof (rule copier_struct[where to = "\<lambda>r. (SelectorPtr r, LeasePtr r, RoutingPtr r, TypeField r, ComponentField r)"
      and of' = "\<lambda>(s, l, n, ty, c). \<lparr>TypeField = ty, SelectorPtr = s, ComponentField = c, LeasePtr = l, RoutingPtr = n\<rparr>"])
  show "copier (copy_both (copy_ptr SelectorCell un_selector (CopyLabelSelector E))
      (copy_both (copy_ptr LeaseCell un_lease LeaseSettings_DeepCopyInto)
        (copy_both (copy_ptr RoutingCell un_routing ret) ret)))
      (view_both (view_ptr un_selector vs) (view_both (view_ptr un_lease view_lease)
          (view_both (view_ptr un_routing value_of) value_of)))
      (foot_both (foot_ptr un_selector fs) (foot_both (foot_ptr un_lease foot_lease)
       (foot_both (foot_ptr un_routing nothing) nothing)))"
    by (intro copier_both copier_ptr assms lease.copier_axioms plain.copier_axioms un_mk)
qed (auto simp: LeaderGroupSpec_DeepCopyInto_def RoutingSettings_DeepCopyInto_def[abs_def] copy_both_def
    view_spec_def foot_spec_def)

definition view_status :: "('m, 'l, 's, 'x) mem \<Rightarrow> status_ref \<Rightarrow> lg_status option" where
  "view_status m r =
     map_option (\<lambda>(t, d, f, c, h, ob). \<lparr>HolderIdentity = h, RenewTime = t, LeaseDurationSeconds = d,
         FencingToken = f, ObservedLeaseResourceVersion = ob,
         LgConditions = (case c of None \<Rightarrow> [] | Some cs \<Rightarrow> cs)\<rparr>)
       (view_both (view_ptr un_time value_of) (view_both (view_ptr un_int value_of)
          (view_both (view_ptr un_int value_of) (view_both (view_ptr un_conditions (view_list value_of))
            value_of))) m
          (RenewTimePtr r, DurationSecondsPtr r, FencingTokenPtr r, ConditionsArray r, HolderField r,
           ObservedField r))"

definition foot_status :: "('m, 'l, 's, 'x) mem \<Rightarrow> status_ref \<Rightarrow> nat set" where
  "foot_status m r =
     foot_both (foot_ptr un_time nothing) (foot_both (foot_ptr un_int nothing)
       (foot_both (foot_ptr un_int nothing) (foot_both (foot_ptr un_conditions (foot_list nothing))
         nothing))) m
       (RenewTimePtr r, DurationSecondsPtr r, FencingTokenPtr r, ConditionsArray r, HolderField r,
        ObservedField r)"

interpretation status: copier LeaderGroupStatus_DeepCopyInto view_status foot_status
proof (rule copier_struct[where to = "\<lambda>r. (RenewTimePtr r, DurationSecondsPtr r, FencingTokenPtr r,
        ConditionsArray r, HolderField r, ObservedField r)"
      and of' = "\<lambda>(t, d, f, c, h, ob). \<lparr>HolderField = h, RenewTimePtr = t, DurationSecondsPtr = d,
        FencingTokenPtr = f, ObservedField = ob, ConditionsArray = c\<rparr>"])
  show "copier (copy_both (copy_ptr TimeCell un_time ret) (copy_both (copy_ptr IntCell un_int ret)
        (copy_both (copy_ptr IntCell un_int ret)
          (copy_both (copy_ptr ConditionsCell un_conditions (copy_list ret)) ret))))
      (view_both (view_ptr un_time value_of) (view_both (view_ptr un_int value_of)
          (view_both (view_ptr un_int value_of) (view_both (view_ptr un_conditions (view_list value_of))
            value_of))))
      (foot_both (foot_ptr un_time nothing) (foot_both (foot_ptr un_int nothing)
       (foot_both (foot_ptr un_int nothing) (foot_both (foot_ptr un_conditions (foot_list nothing))
         nothing))))"
    by (intro copier_both copier_ptr copier_list plain.copier_axioms un_mk)
qed (auto simp: LeaderGroupStatus_DeepCopyInto_def copy_both_def view_status_def foot_status_def)

text \<open>The view of a LeaderGroup is the value the controller of theory LeaderGroup works on.\<close>

definition view_group ::
  "(('m, 'l, 's, 'x) mem \<Rightarrow> 'm \<Rightarrow> object_meta option) \<Rightarrow> (('m, 'l, 's, 'x) mem \<Rightarrow> 's \<Rightarrow> strmap option) \<Rightarrow>
   ('m, 'l, 's, 'x) mem \<Rightarrow> 'm group_ref \<Rightarrow> leader_group option" where
  "view_group vm vs m r =
     map_option (\<lambda>(om, sp, st, a, k). object_meta.extend om (leader_group.fields a k sp st))
       (view_both vm (view_both (view_spec vs) (view_both view_status value_of)) m
          (MetaField r, SpecField r, StatusField r, GroupAPIVersion r, GroupKind r))"

definition foot_group ::
  "(('m, 'l, 's, 'x) mem \<Rightarrow> 'm \<Rightarrow> nat set) \<Rightarrow> (('m, 'l, 's, 'x) mem \<Rightarrow> 's \<Rightarrow> nat set) \<Rightarrow>
   ('m, 'l, 's, 'x) mem \<Rightarrow> 'm group_ref \<Rightarrow> nat set" where
  "foot_group fm fs m r =
     foot_both fm (foot_both (foot_spec fs) (foot_both foot_status nothing)) m
       (MetaField r, SpecField r, StatusField r, GroupAPIVersion r, GroupKind r)"

lemma copier_group:
  assumes "copier (CopyObjectMeta E) vm fm" and "copier (CopyLabelSelector E) vs fs"
  shows "copier (LeaderGroup_DeepCopyInto E) (view_group vm vs) (foot_group fm fs)"
proof (rule copier_struct[where to = "\<lambda>r. (MetaField r, SpecField r, StatusField r, GroupAPIVersion r, GroupKind r)"
      and of' = "\<lambda>(om, sp, st, a, k). \<lparr>GroupAPIVersion = a, GroupKind = k, MetaField = om, SpecField = sp,
        StatusField = st\<rparr>"])
  show "copier (copy_both (CopyObjectMeta E) (copy_both (LeaderGroupSpec_DeepCopyInto E)
        (copy_both LeaderGroupStatus_DeepCopyInto ret)))
      (view_both vm (view_both (view_spec vs) (view_both view_status value_of)))
      (foot_both fm (foot_both (foot_spec fs) (foot_both foot_status nothing)))"
    by (intro copier_both assms copier_spec status.copier_axioms plain.copier_axioms)
qed (auto simp: LeaderGroup_DeepCopyInto_def copy_both_def view_group_def foot_group_def)

definition view_list_ref ::
  "(('m, 'l, 's, 'x) mem \<Rightarrow> 'm \<Rightarrow> object_meta option) \<Rightarrow> (('m, 'l, 's, 'x) mem \<Rightarrow> 's \<Rightarrow> strmap option) \<Rightarrow>
   (('m, 'l, 's, 'x) mem \<Rightarrow> 'l \<Rightarrow> 'v option) \<Rightarrow> ('m, 'l, 's, 'x) mem \<Rightarrow> ('m, 'l) list_ref \<Rightarrow>
   ('v \<times> leader_group list option \<times> string \<times> string) option" where
  "view_list_ref vm vs vl m r =
     view_both vl (view_both (view_ptr un_groups (view_list (view_group vm vs))) value_of) m
       (ListMetaField r, ItemsArray r, ListAPIVersion r, ListKind r)"

definition foot_list_ref ::
  "(('m, 'l, 's, 'x) mem \<Rightarrow> 'm \<Rightarrow> nat set) \<Rightarrow> (('m, 'l, 's, 'x) mem \<Rightarrow> 's \<Rightarrow> nat set) \<Rightarrow>
   (('m, 'l, 's, 'x) mem \<Rightarrow> 'l \<Rightarrow> nat set) \<Rightarrow> ('m, 'l, 's, 'x) mem \<Rightarrow> ('m, 'l) list_ref \<Rightarrow> nat set" where
  "foot_list_ref fm fs fl m r =
     foot_both fl (foot_both (foot_ptr un_groups (foot_list (foot_group fm fs))) nothing) m
       (ListMetaField r, ItemsArray r, ListAPIVersion r, ListKind r)"

lemma copier_list_ref:
  assumes "copier (CopyObjectMeta E) vm fm" and "copier (CopyLabelSelector E) vs fs"
    and "copier (CopyListMeta E) vl fl"
  shows "copier (LeaderGroupList_DeepCopyInto E) (view_list_ref vm vs vl) (foot_list_ref fm fs fl)"
proof (rule copier_struct[where to = "\<lambda>r. (ListMetaField r, ItemsArray r, ListAPIVersion r, ListKind r)"
      and of' = "\<lambda>(lm, is, a, k). \<lparr>ListAPIVersion = a, ListKind = k, ListMetaField = lm, ItemsArray = is\<rparr>"
      and g = "\<lambda>v. v"])
  show "copier (copy_both (CopyListMeta E)
        (copy_both (copy_ptr GroupsCell un_groups (copy_list (LeaderGroup_DeepCopyInto E))) ret))
      (view_both vl (view_both (view_ptr un_groups (view_list (view_group vm vs))) value_of))
      (foot_both fl (foot_both (foot_ptr un_groups (foot_list (foot_group fm fs))) nothing))"
    by (intro copier_both copier_ptr copier_list copier_group assms plain.copier_axioms un_mk)
qed (auto simp: LeaderGroupList_DeepCopyInto_def copy_both_def view_list_ref_def foot_list_ref_def
    option.map_ident)

lemma copier_pointers:
  "copier LeaseSettings_DeepCopy (view_ptr un_lease view_lease) (foot_ptr un_lease foot_lease)"
  "copier LeaderGroupStatus_DeepCopy (view_ptr un_status view_status) (foot_ptr un_status foot_status)"
  "copier (CopyLabelSelector E) vs fs \<Longrightarrow>
   copier (LeaderGroupSpec_DeepCopy E) (view_ptr un_spec (view_spec vs)) (foot_ptr un_spec (foot_spec fs))"
  "copier (CopyObjectMeta E) vm fm \<Longrightarrow> copier (CopyLabelSelector E) vs fs \<Longrightarrow>
   copier (LeaderGroup_DeepCopy E) (view_ptr un_group (view_group vm vs))
     (foot_ptr un_group (foot_group fm fs))"
  "copier (CopyObjectMeta E) vm fm \<Longrightarrow> copier (CopyLabelSelector E) vs fs \<Longrightarrow>
   copier (CopyListMeta E) vl fl \<Longrightarrow>
   copier (LeaderGroupList_DeepCopy E) (view_ptr un_list (view_list_ref vm vs vl))
     (foot_ptr un_list (foot_list_ref fm fs fl))"
  unfolding LeaseSettings_DeepCopy_def LeaderGroupStatus_DeepCopy_def LeaderGroupSpec_DeepCopy_def
    LeaderGroup_DeepCopy_def LeaderGroupList_DeepCopy_def
  by (intro copier_ptr lease.copier_axioms status.copier_axioms copier_spec copier_group
      copier_list_ref un_mk; assumption)+

subsection \<open>A sample memory\<close>

text \<open>The maps of labels are behind pointers, as in Go; a nil map reads like an empty one.\<close>

type_synonym sample_mem = "(object_meta \<times> nat option, string, nat option, strmap) mem"

definition un_other :: "('m, 'l, 's, 'x) cell \<Rightarrow> 'x option" where
  "un_other c = (case c of OtherCell x \<Rightarrow> Some x | _ \<Rightarrow> None)"

lemma un_other_mk [simp]: "un_other (OtherCell x) = Some x"
  by (simp add: un_other_def)

definition go_map :: "strmap option \<Rightarrow> strmap" where
  "go_map p = (case p of None \<Rightarrow> [] | Some m \<Rightarrow> m)"

definition sample_externals :: "(object_meta \<times> nat option, string, nat option, strmap) externals" where
  "sample_externals =
     \<lparr>CopyObjectMeta = copy_both ret (copy_ptr OtherCell un_other ret), CopyListMeta = ret,
      CopyLabelSelector = copy_ptr OtherCell un_other ret\<rparr>"

definition sample_view_map :: "sample_mem \<Rightarrow> nat option \<Rightarrow> strmap option" where
  "sample_view_map m p = map_option go_map (view_ptr un_other value_of m p)"

definition sample_view_meta :: "sample_mem \<Rightarrow> object_meta \<times> nat option \<Rightarrow> object_meta option" where
  "sample_view_meta m x =
     map_option (\<lambda>(om, l). om\<lparr>Labels := go_map l\<rparr>) (view_both value_of (view_ptr un_other value_of) m x)"

abbreviation sample_foot_map :: "sample_mem \<Rightarrow> nat option \<Rightarrow> nat set" where
  "sample_foot_map \<equiv> foot_ptr un_other nothing"

abbreviation sample_foot_meta :: "sample_mem \<Rightarrow> object_meta \<times> nat option \<Rightarrow> nat set" where
  "sample_foot_meta \<equiv> foot_both nothing sample_foot_map"

lemma sample_copiers:
  "copier (CopyLabelSelector sample_externals) sample_view_map sample_foot_map"
  "copier (CopyObjectMeta sample_externals) sample_view_meta sample_foot_meta"
proof -
  have map: "copier (copy_ptr OtherCell un_other ret) (view_ptr un_other value_of) sample_foot_map"
    by (intro copier_ptr plain.copier_axioms un_other_mk)
  show "copier (CopyLabelSelector sample_externals) sample_view_map sample_foot_map"
    by (rule copier_struct[OF map, where to = "\<lambda>x. x" and of' = "\<lambda>x. x" and g = go_map])
      (simp_all add: sample_externals_def sample_view_map_def)
  show "copier (CopyObjectMeta sample_externals) sample_view_meta sample_foot_meta"
    by (rule copier_struct[OF copier_both[OF plain.copier_axioms map], where to = "\<lambda>x. x" and
          of' = "\<lambda>x. x" and g = "\<lambda>(om, l). om\<lparr>Labels := go_map l\<rparr>"])
      (simp_all add: sample_externals_def sample_view_meta_def)
qed

definition sample_memory :: sample_mem where
  "sample_memory =
     \<lparr>cells = [0 \<mapsto> OtherCell [(''team'', ''data'')], 1 \<mapsto> OtherCell [(''app'', ''db'')],
        2 \<mapsto> SelectorCell (Some 1), 3 \<mapsto> DurationCell 15000000000,
        4 \<mapsto> LeaseCell \<lparr>DurationPtr = Some 3, RenewDeadlinePtr = None, RetryPeriodPtr = Some 3\<rparr>,
        5 \<mapsto> TimeCell 7, 6 \<mapsto> IntCell 1,
        7 \<mapsto> ConditionsCell [\<lparr>McType = ''Ready'', McStatus = ''True'', McReason = ''r'',
          McMessage = ''m'', McTime = 7\<rparr>],
        8 \<mapsto> GroupCell \<lparr>GroupAPIVersion = ''v1'', GroupKind = ''LeaderGroup'',
          MetaField = (\<lparr>Name = ''lg'', Namespace = ''prod'', UID = ''u'', ResourceVersion = ''1'', Labels = [],
            Annotations = [], OwnerReferences = [], CreationTimestamp = 1, DeletionTimestamp = None\<rparr>, Some 0),
          SpecField = \<lparr>TypeField = ''controller'', SelectorPtr = Some 2, ComponentField = ''c'',
            LeasePtr = Some 4, RoutingPtr = None\<rparr>,
          StatusField = \<lparr>HolderField = ''h'', RenewTimePtr = Some 5, DurationSecondsPtr = Some 6,
            FencingTokenPtr = Some 6, ObservedField = ''1'', ConditionsArray = Some 7\<rparr>\<rparr>],
      next_free = 9\<rparr>"

lemma sample_memory_ok: "mem_ok sample_memory"
  by (auto simp: mem_ok_def sample_memory_def)

abbreviation sample_view :: "sample_mem \<Rightarrow> nat option \<Rightarrow> leader_group option option" where
  "sample_view \<equiv> view_ptr un_group (view_group sample_view_meta sample_view_map)"

abbreviation sample_foot :: "sample_mem \<Rightarrow> nat option \<Rightarrow> nat set" where
  "sample_foot \<equiv> foot_ptr un_group (foot_group sample_foot_meta sample_foot_map)"

lemma sample_memory_group: "\<exists>g. sample_view sample_memory (Some 8) = Some (Some g)"
  by (simp add: view_ptr_def at_cell_def sample_memory_def un_group_def view_group_def view_both_def
      sample_view_meta_def un_other_def view_spec_def un_selector_def sample_view_map_def un_lease_def
      view_lease_def un_duration_def view_status_def un_time_def un_int_def un_conditions_def
      view_list_Cons split: option.splits)

end
