(* ===== verification/GroupStore.thy ===== *)
theory GroupStore
  imports LeaderGroup Store
begin

text \<open>
  LeaderGroups on an API server that is up and has no other writers: the locale \<open>group_server\<close>
  states what such a server does with LeaderGroups and Leases, over an abstract store. One run of
  the reconciler puts the Lease in place and shows it in the status, and later runs keep that. A
  \<^verbatim>\<open>metav1.Time\<close> is stored in whole seconds, the renew time of a Lease in microseconds: this
  decides whether later runs write the status again. A server in memory is an instance.
\<close>

subsection \<open>Contents and laws\<close>

record group_store =
  gs_groups :: "nsname \<Rightarrow> leader_group option"
  gs_leases :: "nsname \<Rightarrow> lease option"

abbreviation put_group_in :: "nsname \<Rightarrow> leader_group option \<Rightarrow> group_store \<Rightarrow> group_store" where
  "put_group_in k x v \<equiv> v\<lparr>gs_groups := (gs_groups v)(k := x)\<rparr>"

abbreviation put_lease_in :: "nsname \<Rightarrow> lease option \<Rightarrow> group_store \<Rightarrow> group_store" where
  "put_lease_in k x v \<equiv> v\<lparr>gs_leases := (gs_leases v)(k := x)\<rparr>"

text \<open>The text form of a \<^verbatim>\<open>metav1.Time\<close>, RFC 3339 without a fraction, and a status in that form.\<close>

definition whole :: "go_time \<Rightarrow> go_time" where
  "whole t = t - t mod second"

lemma whole_whole [simp]: "whole (whole t) = whole t"
  by (simp add: whole_def)

definition stored_status :: "lg_status \<Rightarrow> lg_status" where
  "stored_status st =
     st\<lparr>RenewTime := map_option whole (RenewTime st),
        LgConditions := map (\<lambda>c. c\<lparr>McTime := whole (McTime c)\<rparr>) (LgConditions st)\<rparr>"

lemma stored_status_idem [simp]: "stored_status (stored_status st) = stored_status st"
  by (simp add: stored_status_def option.map_comp comp_def)

lemma stored_renewal: "stored_status st = st \<Longrightarrow> RenewTime st = Some r \<Longrightarrow> whole r = r"
  by (cases st) (simp add: stored_status_def)

definition same_lease :: "lease \<Rightarrow> lease \<Rightarrow> bool" where
  "same_lease sent stored \<longleftrightarrow>
     object_key stored = object_key sent \<and> Labels stored = Labels sent \<and>
     OwnerReferences stored = OwnerReferences sent \<and> LeaseHolder stored = LeaseHolder sent \<and>
     LeaseRenewTime stored = LeaseRenewTime sent \<and> LeaseDuration stored = LeaseDuration sent \<and>
     LeaseTransitions stored = LeaseTransitions sent"

definition same_group :: "leader_group \<Rightarrow> leader_group \<Rightarrow> bool" where
  "same_group sent stored \<longleftrightarrow>
     (\<exists>rv st. stored = sent\<lparr>ResourceVersion := rv, Status := st\<rparr>)"

text \<open>
  \<open>accepts\<close> is the validation of Leases. \<open>Update\<close> and \<open>Status().Update\<close> need the version that is
  stored, and the latter changes nothing but the status.
\<close>

locale group_server =
  fixes K :: "'w lg_kube" and accepts :: "lease \<Rightarrow> bool" and holds :: "group_store \<Rightarrow> 'w \<Rightarrow> bool"
  assumes group_key: "holds v w \<Longrightarrow> gs_groups v k = Some g \<Longrightarrow> object_key g = k"
    and lease_key: "holds v w \<Longrightarrow> gs_leases v k = Some l \<Longrightarrow> object_key l = k"
    and stored: "holds v w \<Longrightarrow> gs_groups v k = Some g \<Longrightarrow> stored_status (Status g) = Status g"
    and accepted: "holds v w \<Longrightarrow> gs_leases v k = Some l \<Longrightarrow> accepts l"
    and clock: "holds v w \<Longrightarrow> holds v (snd (LgNow K w))"
    and get_group: "holds v w \<Longrightarrow> answers (holds v) (found (gs_groups v k)) (GetGroup K k w)"
    and get_lease: "holds v w \<Longrightarrow> answers (holds v) (found (gs_leases v k)) (GetLease K k w)"
    and create_lease: "holds v w \<Longrightarrow> gs_leases v (object_key l) = None \<Longrightarrow> accepts l \<Longrightarrow>
      \<exists>y. same_lease l y \<and>
        answers (holds (put_lease_in (object_key l) (Some y) v)) (Inr y) (CreateLease K l w)"
    and update_lease: "holds v w \<Longrightarrow> gs_leases v (object_key l) = Some old \<Longrightarrow>
      ResourceVersion l = ResourceVersion old \<Longrightarrow> accepts l \<Longrightarrow>
      \<exists>y. same_lease l y \<and>
        answers (holds (put_lease_in (object_key l) (Some y) v)) (Inr y) (UpdateLease K l w)"
    and delete_lease: "holds v w \<Longrightarrow> gs_leases v (object_key l) \<noteq> None \<Longrightarrow>
      answers (holds (put_lease_in (object_key l) None v)) (Inr ()) (DeleteLease K l w)"
    and update_status: "holds v w \<Longrightarrow> gs_groups v (object_key g) = Some old_group \<Longrightarrow>
      ResourceVersion g = ResourceVersion old_group \<Longrightarrow>
      \<exists>rv. answers (holds (put_group_in (object_key g)
          (Some (old_group\<lparr>ResourceVersion := rv, Status := stored_status (Status g)\<rparr>)) v))
        (Inr ()) (UpdateStatus K g w)"

subsection \<open>Groups and their Leases\<close>

definition wanted_lease :: "'w lg_kube \<Rightarrow> group_store \<Rightarrow> leader_group \<Rightarrow> lease" where
  "wanted_lease K v lg =
     (case gs_leases v (lease_key_of lg) of
        None \<Rightarrow> buildLease K lg (deriveLeaseName (Component (Spec lg)))
      | Some l0 \<Rightarrow> snd (lease_metadata l0 lg))"

text \<open>A stored controller group that is not being deleted and whose Lease the server takes.\<close>

definition group_ready ::
  "'w lg_kube \<Rightarrow> (lease \<Rightarrow> bool) \<Rightarrow> nsname \<Rightarrow> leader_group \<Rightarrow> group_store \<Rightarrow> bool" where
  "group_ready K accepts req lg v \<longleftrightarrow>
     gs_groups v req = Some lg \<and> DeletionTimestamp lg = None \<and>
     SpecType (Spec lg) = LeaderGroupTypeController \<and> Component (Spec lg) \<noteq> '''' \<and>
     accepts (wanted_lease K v lg)"

text \<open>What a stored status shows of a lease.\<close>

definition status_shows :: "lg_status \<Rightarrow> lease \<Rightarrow> bool" where
  "status_shows st l \<longleftrightarrow>
     HolderIdentity st = (case LeaseHolder l of Some h \<Rightarrow> h | None \<Rightarrow> '''') \<and>
     ObservedLeaseResourceVersion st = ResourceVersion l \<and>
     (\<forall>r. LeaseRenewTime l = Some r \<longrightarrow> RenewTime st = Some (whole r)) \<and>
     (\<forall>d. LeaseDuration l = Some d \<longrightarrow> LeaseDurationSeconds st = Some d)"

definition group_served :: "nsname \<Rightarrow> leader_group \<Rightarrow> lease \<Rightarrow> group_store \<Rightarrow> bool" where
  "group_served req lg l v \<longleftrightarrow>
     gs_groups v req = Some lg \<and> gs_leases v (lease_key_of lg) = Some l \<and>
     DeletionTimestamp lg = None \<and> SpecType (Spec lg) = LeaderGroupTypeController \<and>
     Component (Spec lg) \<noteq> '''' \<and> lease_metadata l lg = (False, l) \<and> status_shows (Status lg) l"

definition whole_renewal :: "lease \<Rightarrow> bool" where
  "whole_renewal l \<longleftrightarrow> (\<forall>r. LeaseRenewTime l = Some r \<longrightarrow> whole r = r)"

lemma written_shows: "status_shows (stored_status (status_from_lease t old l)) l"
  by (auto simp: status_shows_def stored_status_def status_from_lease_def)

lemma equal_shows:
  "stored_status st = st \<Longrightarrow> statusEqual st (status_from_lease t st l) \<Longrightarrow> status_shows st l"
  using stored_renewal[of st] by (auto simp: status_shows_def statusEqual_iff status_from_lease_def)

text \<open>A shown status compares equal exactly if the renew time survives being stored.\<close>

lemma shown_equal:
  "status_shows st l \<Longrightarrow> statusEqual st (status_from_lease t st l) \<longleftrightarrow> whole_renewal l"
  by (auto simp: status_shows_def statusEqual_iff status_from_lease_def whole_renewal_def
      split: option.splits)

subsection \<open>Runs on a calm server\<close>

lemma answers_pair: "answers P r x \<longleftrightarrow> (\<exists>w. x = (r, w) \<and> P w)"
  by (cases x) (auto simp: answers_def)

fun group_runs :: "'w lg_kube \<Rightarrow> nsname \<Rightarrow> nat \<Rightarrow> 'w lg_sys \<Rightarrow> 'w lg_sys" where
  "group_runs K req 0 s = s"
| "group_runs K req (Suc n) s = snd (run_state (ReconcileGroup K req) (group_runs K req n s))"

text \<open>What later runs call: the two reads, and the status only if the renew time has a fraction.\<close>

fun status_write :: "lg_call \<Rightarrow> bool" where
  "status_write (CallUpdateStatus g r) = (r = Inr ())"
| "status_write c = False"

fun group_read :: "lg_call \<Rightarrow> bool" where
  "group_read (CallGetGroup k r) = True"
| "group_read (CallGetLease k r) = True"
| "group_read c = False"

lemma same_group_refl [simp]: "same_group g g"
  unfolding same_group_def by (rule exI[of _ "ResourceVersion g"], rule exI[of _ "Status g"]) simp

lemma same_group_trans:
  assumes "same_group a b" and "same_group b c"
  shows "same_group a c"
proof -
  obtain rv st rv' st' where "b = a\<lparr>ResourceVersion := rv, Status := st\<rparr>"
    and "c = b\<lparr>ResourceVersion := rv', Status := st'\<rparr>"
    using assms unfolding same_group_def by blast
  then have "c = a\<lparr>ResourceVersion := rv', Status := st'\<rparr>" by simp
  then show ?thesis unfolding same_group_def by blast
qed

lemma same_groupD:
  assumes "same_group lg g"
  shows "Name g = Name lg" and "Namespace g = Namespace lg" and "Spec g = Spec lg"
    and "DeletionTimestamp g = DeletionTimestamp lg" and "lease_key_of g = lease_key_of lg"
    and "object_key g = object_key lg" and "lease_metadata l g = lease_metadata l lg"
proof -
  obtain rv st where g: "g = lg\<lparr>ResourceVersion := rv, Status := st\<rparr>"
    using assms unfolding same_group_def by blast
  then have "group_owner g = group_owner lg" and n: "Name g = Name lg"
    by (simp_all add: group_owner_def)
  then show "lease_metadata l g = lease_metadata l lg" by (simp only: lease_metadata_def)
  show "Name g = Name lg" by (rule n)
  show "Namespace g = Namespace lg" and "Spec g = Spec lg"
    and "DeletionTimestamp g = DeletionTimestamp lg" and "lease_key_of g = lease_key_of lg"
    and "object_key g = object_key lg"
    by (simp_all add: g lease_key_of_def object_key_def)
qed

context group_server
begin

lemma read_group:
  assumes "holds v w"
  obtains w' where "GetGroup K k w = (found (gs_groups v k), w')" and "holds v w'"
  using get_group[OF assms, of k] by (auto simp: answers_pair)

lemma read_lease:
  assumes "holds v w"
  obtains w' where "GetLease K k w = (found (gs_leases v k), w')" and "holds v w'"
  using get_lease[OF assms, of k] by (auto simp: answers_pair)

text \<open>The status after the Lease is known.\<close>

lemma status_run:
  assumes at: "holds v (lg_world s)" and g: "gs_groups v req = Some lg"
    and run: "run_state (updateStatusFromLease K lg l) s = (r, s')"
  shows "r = Inr (Some requeueInterval) \<and>
    (\<exists>g v' t. v' = put_group_in req (Some g) v \<and> holds v' (lg_world s') \<and> same_group lg g \<and>
       status_shows (Status g) l \<and>
       (if statusEqual (Status lg) (status_from_lease t (Status lg) l)
        then lg_calls s' = lg_calls s
        else \<exists>c. status_write c \<and> lg_calls s' = lg_calls s @ [c]))"
proof -
  let ?t = "fst (LgNow K (lg_world s))" and ?w = "snd (LgNow K (lg_world s))"
  let ?st = "status_from_lease ?t (Status lg) l"
  let ?sent = "lg\<lparr>Status := ?st\<rparr>"
  have w: "holds v ?w" using clock[OF at] .
  show ?thesis
  proof (cases "statusEqual (Status lg) ?st")
    case True
    with run have "r = Inr (Some requeueInterval)" and s': "s' = s\<lparr>lg_world := ?w\<rparr>"
      by (simp_all add: updateStatusFromLease_def Let_def)
    moreover have "put_group_in req (Some lg) v = v" using g by (simp add: fun_upd_idem)
    moreover have "status_shows (Status lg) l" using equal_shows[OF stored[OF at g] True] .
    ultimately show ?thesis using w True
      by (intro conjI exI[of _ lg] exI[of _ v] exI[of _ ?t]) simp_all
  next
    case False
    have key: "object_key ?sent = req" using group_key[OF at g] by (simp add: object_key_def)
    then obtain rv where
      rv: "answers (holds (put_group_in req
          (Some (lg\<lparr>ResourceVersion := rv, Status := stored_status ?st\<rparr>)) v)) (Inr ())
        (UpdateStatus K ?sent ?w)"
      using update_status[OF w, of ?sent lg] g by auto
    let ?g = "lg\<lparr>ResourceVersion := rv, Status := stored_status ?st\<rparr>"
    from run False have "r = Inr (Some requeueInterval)"
      and s': "s' = s\<lparr>lg_world := snd (UpdateStatus K ?sent ?w),
        lg_calls := lg_calls s @ [CallUpdateStatus ?sent (Inr ())]\<rparr>"
      using rv by (auto simp: updateStatusFromLease_def Let_def answers_def)
    moreover have "same_group lg ?g" unfolding same_group_def by blast
    moreover have "status_shows (Status ?g) l" by (simp add: written_shows)
    ultimately show ?thesis using rv False
      by (intro conjI exI[of _ ?g] exI[of _ "put_group_in req (Some ?g) v"] exI[of _ ?t])
        (simp_all add: answers_def)
  qed
qed

end

lemma same_lease_refl [simp]: "same_lease l l"
  by (simp add: same_lease_def)

lemma metadata_done:
  "OwnerReferences l \<noteq> [] \<Longrightarrow> map_get (Labels l) LabelManagedBy = LabelManagedByValue \<Longrightarrow>
   map_get (Labels l) LabelLeaderGroup = Name lg \<Longrightarrow> lease_metadata l lg = (False, l)"
  by (simp add: lease_metadata_def)

lemma built_metadata: "same_lease (buildLease K lg n) l \<Longrightarrow> lease_metadata l lg = (False, l)"
  by (rule metadata_done) (simp_all add: same_lease_def buildLease_def map_get_def)

lemma completed_metadata:
  assumes "same_lease (snd (lease_metadata l0 lg)) l"
  shows "lease_metadata l lg = (False, l)"
  using assms lease_metadata_labels[of l0 lg] lease_metadata_owner[of l0 lg]
  by (intro metadata_done) (auto simp: same_lease_def)

lemma lease_metadata_key:
  "object_key (snd (lease_metadata l lg)) = object_key l"
  "ResourceVersion (snd (lease_metadata l lg)) = ResourceVersion l"
  by (subst lease_metadata_frame, simp add: object_key_def)+

context group_server
begin

text \<open>The Lease, up to the status.\<close>

lemma lease_run:
  assumes at: "holds v (lg_world s)" and ready: "group_ready K accepts req lg v"
  shows "\<exists>l u. run_state (reconcileControllerType K lg) s = run_state (updateStatusFromLease K lg l) u \<and>
    holds (put_lease_in (lease_key_of lg) (Some l) v) (lg_world u) \<and>
    same_lease (wanted_lease K v lg) l \<and> lease_metadata l lg = (False, l) \<and>
    (\<forall>l0. gs_leases v (lease_key_of lg) = Some l0 \<and> lease_metadata l0 lg = (False, l0) \<longrightarrow>
       l = l0 \<and> lg_calls u = lg_calls s @ [CallGetLease (lease_key_of lg) (Inr l0)])"
proof -
  let ?key = "lease_key_of lg" and ?name = "deriveLeaseName (Component (Spec lg))"
  have comp: "Component (Spec lg) \<noteq> ''''" and ok: "accepts (wanted_lease K v lg)"
    using ready by (simp_all add: group_ready_def)
  let ?q = "found (gs_leases v ?key)"
  obtain w where get: "GetLease K ?key (lg_world s) = (?q, w)" and w: "holds v w"
    using read_lease[OF at] .
  let ?t = "s\<lparr>lg_world := w, lg_calls := lg_calls s @ [CallGetLease ?key ?q]\<rparr>"
  show ?thesis
  proof (cases "gs_leases v ?key")
    case None
    let ?l = "buildLease K lg ?name"
    have want: "wanted_lease K v lg = ?l" using None by (simp add: wanted_lease_def)
    have key: "object_key ?l = ?key" by (simp add: buildLease_def object_key_def lease_key_of_def)
    then obtain y w' where y: "same_lease ?l y" and c: "CreateLease K ?l w = (Inr y, w')"
      and w': "holds (put_lease_in ?key (Some y) v) w'"
      using create_lease[OF w, of ?l] None ok want by (auto simp: answers_pair)
    let ?u = "?t\<lparr>lg_world := w',
      lg_calls := lg_calls ?t @ [CallCreateLease ?l (Inr y)]\<rparr>"
    have "run_state (reconcileControllerType K lg) s = run_state (updateStatusFromLease K lg y) ?u"
      using comp get None c by (simp add: reconcileControllerType_def Let_def lease_key_of_def)
    then show ?thesis using y w' want None built_metadata[OF y]
      by (intro exI[of _ y] exI[of _ ?u]) simp
  next
    case (Some l0)
    let ?m = "snd (lease_metadata l0 lg)"
    have want: "wanted_lease K v lg = ?m" using Some by (simp add: wanted_lease_def)
    show ?thesis
    proof (cases "fst (lease_metadata l0 lg)")
      case False
      then have m: "lease_metadata l0 lg = (False, l0)"
        using lease_metadata_unchanged[of l0 lg] by (cases "lease_metadata l0 lg") simp
      have "run_state (reconcileControllerType K lg) s = run_state (updateStatusFromLease K lg l0) ?t"
        using comp get Some m
        by (simp add: reconcileControllerType_def Let_def lease_key_of_def updateLeaseMetadata_def)
      moreover have "put_lease_in ?key (Some l0) v = v" using Some by (simp add: fun_upd_idem)
      ultimately show ?thesis using want m w Some
        by (intro exI[of _ l0] exI[of _ ?t]) simp
    next
      case True
      have "object_key ?m = ?key" using lease_key[OF at Some] by (simp add: lease_metadata_key)
      then obtain y w' where y: "same_lease ?m y" and c: "UpdateLease K ?m w = (Inr y, w')"
        and w': "holds (put_lease_in ?key (Some y) v) w'"
        using update_lease[OF w, of ?m l0] Some ok want by (auto simp: lease_metadata_key answers_pair)
      let ?u = "?t\<lparr>lg_world := w',
        lg_calls := lg_calls ?t @ [CallUpdateLease ?m (Inr y)]\<rparr>"
      have m: "lease_metadata l0 lg = (True, ?m)" using True by (cases "lease_metadata l0 lg") simp
      have "run_state (updateLeaseMetadata K l0 lg) ?t = (Inr y, ?u)"
        unfolding updateLeaseMetadata_def by (subst m) (use c in simp)
      then have "run_state (reconcileControllerType K lg) s = run_state (updateStatusFromLease K lg y) ?u"
        using comp get Some by (simp add: reconcileControllerType_def Let_def lease_key_of_def)
      then show ?thesis using y w' want Some True completed_metadata[OF y]
        by (intro exI[of _ y] exI[of _ ?u]) auto
    qed
  qed
qed

end

context group_server
begin

lemma served_ready:
  assumes "holds v w" and "group_served req lg l v"
  shows "group_ready K accepts req lg v"
  using assms accepted[OF assms(1), of "lease_key_of lg" l]
  by (simp add: group_served_def group_ready_def wanted_lease_def)

text \<open>
  One run: the Lease is in place and shown. If that was so before, the run reads twice and writes
  the status exactly if the renew time of the Lease has a fraction of a second.
\<close>

lemma group_run:
  assumes at: "holds v (lg_world s)" and ready: "group_ready K accepts req lg v"
    and run: "run_state (ReconcileGroup K req) s = (r, s')"
  shows "r = Inr (Some requeueInterval) \<and>
    (\<exists>l g v'. v' = put_group_in req (Some g) (put_lease_in (lease_key_of lg) (Some l) v) \<and>
       holds v' (lg_world s') \<and> same_group lg g \<and> same_lease (wanted_lease K v lg) l \<and>
       group_served req g l v' \<and>
       (\<forall>l0. group_served req lg l0 v \<longrightarrow> l = l0 \<and>
          (\<exists>c. status_write c \<and> lg_calls s' = lg_calls s @
             [CallGetGroup req (Inr lg), CallGetLease (lease_key_of lg) (Inr l0)] @
             (if whole_renewal l0 then [] else [c]))))"
proof -
  have g: "gs_groups v req = Some lg" using ready by (simp add: group_ready_def)
  obtain w where w: "GetGroup K req (lg_world s) = (Inr lg, w)" "holds v w"
    using read_group[OF at, of req] g by auto
  let ?t = "s\<lparr>lg_world := w, lg_calls := lg_calls s @ [CallGetGroup req (Inr lg)]\<rparr>"
  have controller: "run_state (reconcileControllerType K lg) ?t = (r, s')"
    using run w ready by (simp add: ReconcileGroup_def group_ready_def)
  obtain l u where status: "run_state (updateStatusFromLease K lg l) u = (r, s')"
    and u: "holds (put_lease_in (lease_key_of lg) (Some l) v) (lg_world u)"
    and l: "same_lease (wanted_lease K v lg) l" "lease_metadata l lg = (False, l)"
    and kept: "\<And>l0. gs_leases v (lease_key_of lg) = Some l0 \<Longrightarrow> lease_metadata l0 lg = (False, l0) \<Longrightarrow>
      l = l0 \<and> lg_calls u = lg_calls ?t @ [CallGetLease (lease_key_of lg) (Inr l0)]"
    using lease_run[of v ?t, OF _ ready] w(2) controller by force
  have g': "gs_groups (put_lease_in (lease_key_of lg) (Some l) v) req = Some lg" using g by simp
  from status_run[OF u g' status] obtain h t where r: "r = Inr (Some requeueInterval)"
    and h: "same_group lg h" "status_shows (Status h) l"
    and at': "holds (put_group_in req (Some h) (put_lease_in (lease_key_of lg) (Some l) v)) (lg_world s')"
    and calls: "if statusEqual (Status lg) (status_from_lease t (Status lg) l)
      then lg_calls s' = lg_calls u else \<exists>c. status_write c \<and> lg_calls s' = lg_calls u @ [c]"
    by blast
  have served: "group_served req h l (put_group_in req (Some h) (put_lease_in (lease_key_of lg) (Some l) v))"
    using ready h l same_groupD[OF h(1)] by (simp add: group_served_def group_ready_def)
  have quiet: "l = l0 \<and> (\<exists>c. status_write c \<and> lg_calls s' = lg_calls s @
      [CallGetGroup req (Inr lg), CallGetLease (lease_key_of lg) (Inr l0)] @
      (if whole_renewal l0 then [] else [c]))" if "group_served req lg l0 v" for l0
  proof -
    have l0: "l = l0" and c: "lg_calls u = lg_calls ?t @ [CallGetLease (lease_key_of lg) (Inr l0)]"
      using kept that by (auto simp: group_served_def)
    have eq: "statusEqual (Status lg) (status_from_lease t (Status lg) l) \<longleftrightarrow> whole_renewal l0"
      using that l0 shown_equal by (simp add: group_served_def)
    show ?thesis
    proof (cases "whole_renewal l0")
      case True
      then show ?thesis using calls c l0 unfolding eq
        by (intro conjI exI[of _ "CallUpdateStatus lg (Inr ())"]) simp_all
    qed (use calls c l0 eq in auto)
  qed
  show ?thesis using r at' h(1) l(1) served quiet
    by (intro conjI exI[of _ l] exI[of _ h]) blast+
qed

text \<open>All later runs.\<close>

lemma group_runs_on:
  assumes "holds v (lg_world s)" and "group_served req lg l v"
  shows "\<exists>g new. same_group lg g \<and> holds (put_group_in req (Some g) v) (lg_world (group_runs K req n s)) \<and>
    group_served req g l (put_group_in req (Some g) v) \<and>
    lg_calls (group_runs K req n s) = lg_calls s @ new \<and>
    list_all (\<lambda>c. group_read c \<or> status_write c) new \<and>
    length (filter status_write new) = (if whole_renewal l then 0 else n)"
proof (induction n)
  case 0
  have "put_group_in req (Some lg) v = v" using assms(2) by (simp add: group_served_def fun_upd_idem)
  then show ?case using assms by (intro exI[of _ lg] exI[of _ "[]"]) (simp del: fun_upd_apply)
next
  case (Suc n)
  let ?s = "group_runs K req n s"
  obtain g new where g: "same_group lg g" and at: "holds (put_group_in req (Some g) v) (lg_world ?s)"
    and served: "group_served req g l (put_group_in req (Some g) v)"
    and new: "lg_calls ?s = lg_calls s @ new" "list_all (\<lambda>c. group_read c \<or> status_write c) new"
      "length (filter status_write new) = (if whole_renewal l then 0 else n)"
    using Suc.IH by blast
  obtain r s' where run: "run_state (ReconcileGroup K req) ?s = (r, s')" by (metis prod.exhaust)
  from group_run[OF at served_ready[OF at served] run] obtain l' h c where
    at': "holds (put_group_in req (Some h) (put_lease_in (lease_key_of g) (Some l') (put_group_in req (Some g) v)))
      (lg_world s')"
    and h: "same_group g h" and served': "group_served req h l'
      (put_group_in req (Some h) (put_lease_in (lease_key_of g) (Some l') (put_group_in req (Some g) v)))"
    and l: "l' = l" and c: "status_write c" "lg_calls s' = lg_calls ?s @
      [CallGetGroup req (Inr g), CallGetLease (lease_key_of g) (Inr l)] @ (if whole_renewal l then [] else [c])"
    using served by metis
  have idem: "put_group_in req (Some h) (put_lease_in (lease_key_of g) (Some l') (put_group_in req (Some g) v)) =
      put_group_in req (Some h) v"
    using served l by (simp add: group_served_def fun_upd_idem)
  let ?more = "[CallGetGroup req (Inr g), CallGetLease (lease_key_of g) (Inr l)] @
    (if whole_renewal l then [] else [c])"
  show ?case
    using at' served' same_group_trans[OF g h] l new c run unfolding idem
    by (intro exI[of _ h] exI[of _ "new @ ?more"]) (auto simp del: fun_upd_apply)
qed

end

context group_server
begin

text \<open>A group that is being deleted: one run leaves no Lease of its name, and touches nothing else.\<close>

lemma deleted_group_run:
  assumes at: "holds v (lg_world s)" and g: "gs_groups v req = Some lg"
    and del: "DeletionTimestamp lg \<noteq> None" and ty: "SpecType (Spec lg) = LeaderGroupTypeController"
    and run: "run_state (ReconcileGroup K req) s = (r, s')"
  shows "r = Inr None \<and> holds (put_lease_in (lease_key_of lg) None v) (lg_world s')"
proof -
  obtain w where w: "GetGroup K req (lg_world s) = (Inr lg, w)" "holds v w"
    using read_group[OF at, of req] g by auto
  obtain w' where w': "GetLease K (lease_key_of lg) w = (found (gs_leases v (lease_key_of lg)), w')"
    "holds v w'"
    using read_lease[OF w(2)] .
  note steps = ReconcileGroup_def cleanupLease_def Let_def lease_key_of_def
  show ?thesis
  proof (cases "gs_leases v (lease_key_of lg)")
    case None
    then have "put_lease_in (lease_key_of lg) None v = v" by (simp add: fun_upd_idem)
    then show ?thesis using run w w' None del ty by (auto simp: steps simp del: fun_upd_apply)
  next
    case (Some l)
    then have key: "object_key l = lease_key_of lg" using lease_key[OF at] by blast
    then obtain w'' where "DeleteLease K l w' = (Inr (), w'')"
      and "holds (put_lease_in (lease_key_of lg) None v) w''"
      using delete_lease[OF w'(2), of l] Some by (auto simp: answers_pair)
    then show ?thesis using run w w' Some del ty by (auto simp: steps simp del: fun_upd_apply)
  qed
qed

end

subsection \<open>Two groups of one component\<close>

text \<open>
  The name of the Lease comes from the component alone. So two groups of one component share a
  Lease and both label it: each finds the label of the other and writes its own.
\<close>

lemma groups_share_lease:
  "Namespace a = Namespace b \<Longrightarrow> Component (Spec a) = Component (Spec b) \<Longrightarrow>
   lease_key_of a = lease_key_of b"
  by (simp add: lease_key_of_def)

lemma groups_contend: "Name a \<noteq> Name b \<Longrightarrow> fst (lease_metadata (snd (lease_metadata l a)) b)"
  using lease_metadata_labels(2)[of l a] by (simp add: lease_metadata_cases)

subsection \<open>A server in memory\<close>

text \<open>
  An instance of \<open>group_server\<close>: lists of objects, a clock and a counter for UIDs and versions. A
  Lease is validated as the API does: its name and label values, its owners and its numbers.
\<close>

record group_cluster =
  gc_groups :: "leader_group list"
  gc_leases :: "lease list"
  gc_clock :: go_time
  gc_next :: nat

definition owner_named :: "owner_reference \<Rightarrow> bool" where
  "owner_named r \<longleftrightarrow> OwnerAPIVersion r \<noteq> '''' \<and> OwnerKind r \<noteq> '''' \<and> OwnerName r \<noteq> '''' \<and> OwnerUID r \<noteq> ''''"

definition lease_valid :: "lease \<Rightarrow> bool" where
  "lease_valid l \<longleftrightarrow>
     dns1123_subdomain (Name l) = [] \<and> list_all (\<lambda>(k, x). length x \<le> 63) (Labels l) \<and>
     list_all owner_named (OwnerReferences l) \<and>
     (case LeaseDuration l of None \<Rightarrow> True | Some d \<Rightarrow> 0 < d) \<and>
     (case LeaseTransitions l of None \<Rightarrow> True | Some n \<Rightarrow> 0 \<le> n)"

definition create_lease :: "lease \<Rightarrow> group_cluster \<Rightarrow> (api_err + lease) \<times> group_cluster" where
  "create_lease l w =
     (if object_key l \<in> object_key ` set (gc_leases w) then (Inl AlreadyExists, w)
      else if \<not> lease_valid l then (Inl (ApiFailure ''Invalid''), w)
      else let y = l\<lparr>UID := ''uid-'' @ decimal (gc_next w), ResourceVersion := decimal (gc_next w),
                     CreationTimestamp := whole (gc_clock w)\<rparr>
           in (Inr y, w\<lparr>gc_leases := gc_leases w @ [y], gc_next := gc_next w + 1\<rparr>))"

definition update_lease :: "lease \<Rightarrow> group_cluster \<Rightarrow> (api_err + lease) \<times> group_cluster" where
  "update_lease l w =
     (case find_key (gc_leases w) (object_key l) of
        None \<Rightarrow> (Inl NotFound, w)
      | Some old \<Rightarrow>
          if ResourceVersion l \<noteq> ResourceVersion old then (Inl Conflict, w)
          else if \<not> lease_valid l then (Inl (ApiFailure ''Invalid''), w)
          else let y = l\<lparr>ResourceVersion := decimal (gc_next w)\<rparr>
               in (Inr y, w\<lparr>gc_leases := replace y (gc_leases w), gc_next := gc_next w + 1\<rparr>))"

definition delete_lease :: "lease \<Rightarrow> group_cluster \<Rightarrow> (api_err + unit) \<times> group_cluster" where
  "delete_lease l w =
     (if object_key l \<in> object_key ` set (gc_leases w)
      then (Inr (), w\<lparr>gc_leases := remove (object_key l) (gc_leases w)\<rparr>) else (Inl NotFound, w))"

definition update_status :: "leader_group \<Rightarrow> group_cluster \<Rightarrow> (api_err + unit) \<times> group_cluster" where
  "update_status g w =
     (case find_key (gc_groups w) (object_key g) of
        None \<Rightarrow> (Inl NotFound, w)
      | Some old \<Rightarrow>
          if ResourceVersion g \<noteq> ResourceVersion old then (Inl Conflict, w)
          else let y = old\<lparr>ResourceVersion := decimal (gc_next w), Status := stored_status (Status g)\<rparr>
               in (Inr (), w\<lparr>gc_groups := replace y (gc_groups w), gc_next := gc_next w + 1\<rparr>))"

definition group_kube :: "group_cluster lg_kube" where
  "group_kube =
     \<lparr>GetGroup = (\<lambda>k w. (lookup_key (gc_groups w) k, w)),
      GetLease = (\<lambda>k w. (lookup_key (gc_leases w) k, w)),
      CreateLease = create_lease, UpdateLease = update_lease, DeleteLease = delete_lease,
      UpdateStatus = update_status,
      LgNow = (\<lambda>w. (gc_clock w, w\<lparr>gc_clock := gc_clock w + millisecond\<rparr>)),
      Seconds32 = (\<lambda>d. d div second)\<rparr>"

definition group_holds :: "group_store \<Rightarrow> group_cluster \<Rightarrow> bool" where
  "group_holds v w \<longleftrightarrow>
     v = \<lparr>gs_groups = find_key (gc_groups w), gs_leases = find_key (gc_leases w)\<rparr> \<and>
     (\<forall>g\<in>set (gc_groups w). stored_status (Status g) = Status g) \<and>
     (\<forall>l\<in>set (gc_leases w). lease_valid l)"

lemma group_holdsD:
  assumes "group_holds v w"
  shows "gs_groups v = find_key (gc_groups w)" and "gs_leases v = find_key (gc_leases w)"
    and "g \<in> set (gc_groups w) \<Longrightarrow> stored_status (Status g) = Status g"
    and "l \<in> set (gc_leases w) \<Longrightarrow> lease_valid l"
  using assms by (auto simp: group_holds_def)

lemma set_replace: "set (replace x obs) \<subseteq> insert x (set obs)"
  by (auto simp: replace_def)

lemma set_remove: "set (remove k obs) \<subseteq> set obs"
  by (auto simp: remove_def)

lemma lease_valid_meta [simp]:
  "lease_valid (l\<lparr>ResourceVersion := rv\<rparr>) = lease_valid l"
  "lease_valid (l\<lparr>UID := u\<rparr>) = lease_valid l"
  "lease_valid (l\<lparr>CreationTimestamp := t\<rparr>) = lease_valid l"
  by (simp_all add: lease_valid_def)

lemma key_meta [simp]:
  "object_key (ob\<lparr>ResourceVersion := rv\<rparr>) = object_key ob"
  "object_key (ob\<lparr>UID := u\<rparr>) = object_key ob"
  "object_key (ob\<lparr>CreationTimestamp := t\<rparr>) = object_key ob"
  by (simp_all add: object_key_def)

lemma key_status [simp]: "object_key (g\<lparr>Status := st\<rparr>) = object_key g"
  by (simp add: object_key_def)

lemma group_create:
  assumes "group_holds v w" and "gs_leases v (object_key l) = None" and "lease_valid l"
  shows "\<exists>y. same_lease l y \<and>
    answers (group_holds (put_lease_in (object_key l) (Some y) v)) (Inr y) (CreateLease group_kube l w)"
proof -
  note w = group_holdsD[OF assms(1)]
  let ?y = "l\<lparr>UID := ''uid-'' @ decimal (gc_next w), ResourceVersion := decimal (gc_next w),
    CreationTimestamp := whole (gc_clock w)\<rparr>"
  have fresh: "find_key (gc_leases w) (object_key l) = None" using assms(2) w(2) by simp
  then have append: "find_key (gc_leases w @ [?y]) = (find_key (gc_leases w))(object_key l := Some ?y)"
    using find_key_append[of "gc_leases w" ?y] by simp
  have "CreateLease group_kube l w =
      (Inr ?y, w\<lparr>gc_leases := gc_leases w @ [?y], gc_next := gc_next w + 1\<rparr>)"
    using fresh assms(3) by (simp add: group_kube_def create_lease_def find_key_None Let_def)
  moreover have "same_lease l ?y" by (simp add: same_lease_def)
  ultimately show ?thesis using append w assms(3)
    by (intro exI[of _ ?y]) (auto simp: answers_def group_holds_def)
qed

lemma group_update:
  assumes "group_holds v w" and "gs_leases v (object_key l) = Some old"
    and "ResourceVersion l = ResourceVersion old" and "lease_valid l"
  shows "\<exists>y. same_lease l y \<and>
    answers (group_holds (put_lease_in (object_key l) (Some y) v)) (Inr y) (UpdateLease group_kube l w)"
proof -
  note w = group_holdsD[OF assms(1)]
  let ?y = "l\<lparr>ResourceVersion := decimal (gc_next w)\<rparr>"
  have old: "find_key (gc_leases w) (object_key l) = Some old" using assms(2) w(2) by simp
  then have replaced: "find_key (replace ?y (gc_leases w)) = (find_key (gc_leases w))(object_key l := Some ?y)"
    using find_key_replace[of "gc_leases w" ?y] by simp
  have "UpdateLease group_kube l w =
      (Inr ?y, w\<lparr>gc_leases := replace ?y (gc_leases w), gc_next := gc_next w + 1\<rparr>)"
    using old assms(3,4) by (simp add: group_kube_def update_lease_def Let_def)
  moreover have "same_lease l ?y" by (simp add: same_lease_def)
  moreover have "\<forall>x\<in>set (replace ?y (gc_leases w)). lease_valid x"
    using set_replace[of ?y "gc_leases w"] w(4) assms(4) by auto
  ultimately show ?thesis using replaced w
    by (intro exI[of _ ?y]) (simp add: answers_def group_holds_def)
qed

lemma group_delete:
  assumes "group_holds v w" and "gs_leases v (object_key l) \<noteq> None"
  shows "answers (group_holds (put_lease_in (object_key l) None v)) (Inr ()) (DeleteLease group_kube l w)"
proof -
  note w = group_holdsD[OF assms(1)]
  have "object_key l \<in> object_key ` set (gc_leases w)"
    using assms(2) w(2) find_key_None[of "gc_leases w" "object_key l"] by auto
  then have "DeleteLease group_kube l w =
      (Inr (), w\<lparr>gc_leases := remove (object_key l) (gc_leases w)\<rparr>)"
    by (simp add: group_kube_def delete_lease_def)
  moreover have "\<forall>x\<in>set (remove (object_key l) (gc_leases w)). lease_valid x"
    using set_remove[of "object_key l" "gc_leases w"] w(4) by auto
  ultimately show ?thesis using w by (simp add: answers_def group_holds_def find_key_remove)
qed

lemma group_status:
  assumes "group_holds v w" and "gs_groups v (object_key g) = Some old"
    and "ResourceVersion g = ResourceVersion old"
  shows "\<exists>rv. answers (group_holds (put_group_in (object_key g)
      (Some (old\<lparr>ResourceVersion := rv, Status := stored_status (Status g)\<rparr>)) v))
    (Inr ()) (UpdateStatus group_kube g w)"
proof -
  note w = group_holdsD[OF assms(1)]
  let ?y = "old\<lparr>ResourceVersion := decimal (gc_next w), Status := stored_status (Status g)\<rparr>"
  have old: "find_key (gc_groups w) (object_key g) = Some old" using assms(2) w(1) by simp
  then have key: "object_key old = object_key g" using find_key_key by blast
  then have replaced: "find_key (replace ?y (gc_groups w)) = (find_key (gc_groups w))(object_key g := Some ?y)"
    using find_key_replace[of "gc_groups w" ?y] old by simp
  have "UpdateStatus group_kube g w =
      (Inr (), w\<lparr>gc_groups := replace ?y (gc_groups w), gc_next := gc_next w + 1\<rparr>)"
    using old assms(3) by (simp add: group_kube_def update_status_def Let_def)
  moreover have "\<forall>x\<in>set (replace ?y (gc_groups w)). stored_status (Status x) = Status x"
    using set_replace[of ?y "gc_groups w"] w(3) by auto
  ultimately show ?thesis using replaced w
    by (intro exI[of _ "decimal (gc_next w)"]) (simp add: answers_def group_holds_def)
qed

interpretation group_mem: group_server group_kube lease_valid group_holds
proof
  fix v w assume w: "group_holds v w"
  note d = group_holdsD[OF w]
  show "object_key g = k" and "stored_status (Status g) = Status g" if "gs_groups v k = Some g" for k g
    using that d(1,3) find_key_key[of "gc_groups w" k g] by auto
  show "object_key l = k" and "lease_valid l" if "gs_leases v k = Some l" for k l
    using that d(2,4) find_key_key[of "gc_leases w" k l] by auto
  show "group_holds v (snd (LgNow group_kube w))"
    using w by (simp add: group_holds_def group_kube_def)
  show "answers (group_holds v) (found (gs_groups v k)) (GetGroup group_kube k w)" for k
    using w d(1) by (simp add: answers_def group_kube_def lookup_found)
  show "answers (group_holds v) (found (gs_leases v k)) (GetLease group_kube k w)" for k
    using w d(2) by (simp add: answers_def group_kube_def lookup_found)
qed (fact group_create group_update group_delete group_status)+

subsection \<open>A sample\<close>

definition sample_group :: leader_group where
  "sample_group =
     \<lparr>Name = ''db'', Namespace = ''prod'', UID = ''u-1'', ResourceVersion = ''1'', Labels = [],
      Annotations = [], OwnerReferences = [], CreationTimestamp = 1000000000, DeletionTimestamp = None,
      APIVersion = ''leadership.kube-zen.io/v1alpha1'', Kind = ''LeaderGroup'',
      Spec = \<lparr>SpecType = ''controller'', SpecSelector = None, Component = ''db'',
        SpecLease = Some \<lparr>Duration = Some 15000000000, RenewDeadline = None, RetryPeriod = None\<rparr>,
        Routing = None\<rparr>,
      Status = \<lparr>HolderIdentity = '''', RenewTime = None, LeaseDurationSeconds = None,
        FencingToken = None, ObservedLeaseResourceVersion = '''', LgConditions = []\<rparr>\<rparr>"

definition sample_groups :: group_cluster where
  "sample_groups =
     \<lparr>gc_groups = [sample_group], gc_leases = [], gc_clock = 5000250000, gc_next = 2\<rparr>"

text \<open>The Lease of the group, held and renewed at a fraction of a second, and shown by the status.\<close>

definition sample_held :: lease where
  "sample_held = (buildLease group_kube sample_group ''db-lease'')\<lparr>ResourceVersion := ''7'',
     LeaseHolder := Some ''db-0'', LeaseRenewTime := Some 8000250000\<rparr>"

definition sample_shown :: leader_group where
  "sample_shown = sample_group\<lparr>
     Status := stored_status (status_from_lease 9000000000 (Status sample_group) sample_held)\<rparr>"

definition sample_held_groups :: group_cluster where
  "sample_held_groups =
     \<lparr>gc_groups = [sample_shown], gc_leases = [sample_held], gc_clock = 9000250000, gc_next = 8\<rparr>"

definition group_contents :: "group_cluster \<Rightarrow> group_store" where
  "group_contents w = \<lparr>gs_groups = find_key (gc_groups w), gs_leases = find_key (gc_leases w)\<rparr>"

lemma sample_groups_hold: "group_holds (group_contents sample_groups) sample_groups"
  by (simp add: group_holds_def group_contents_def sample_groups_def sample_group_def stored_status_def)

lemma sample_group_ready:
  "group_ready group_kube lease_valid (''prod'', ''db'') sample_group (group_contents sample_groups)"
proof -
  have "lease_valid (buildLease group_kube sample_group ''db-lease'')" by code_simp
  then show ?thesis
    by (simp add: group_ready_def wanted_lease_def group_contents_def sample_groups_def find_key_def
        deriveLeaseName_def lease_key_of_def)
      (simp add: sample_group_def object_key_def LeaderGroupTypeController_def)
qed

lemma sample_held_hold: "group_holds (group_contents sample_held_groups) sample_held_groups"
proof -
  have "lease_valid sample_held" by code_simp
  then show ?thesis
    by (simp add: group_holds_def group_contents_def sample_held_groups_def sample_shown_def)
qed

lemma sample_group_served:
  "group_served (''prod'', ''db'') sample_shown sample_held (group_contents sample_held_groups)"
proof -
  have "lease_metadata sample_held sample_shown = (False, sample_held)"
    by (rule metadata_done)
      (simp_all add: sample_held_def sample_shown_def buildLease_def map_get_def sample_group_def)
  moreover have "status_shows (Status sample_shown) sample_held"
    by (simp add: sample_shown_def written_shows)
  moreover have "object_key sample_shown = (''prod'', ''db'')"
    and "object_key sample_held = lease_key_of sample_shown" by code_simp+
  ultimately show ?thesis
    by (simp add: group_served_def group_contents_def sample_held_groups_def find_key_def)
      (simp add: sample_shown_def sample_group_def LeaderGroupTypeController_def)
qed

lemma sample_fraction: "\<not> whole_renewal sample_held"
  by (simp add: whole_renewal_def sample_held_def buildLease_def whole_def)

text \<open>A group that is being deleted, with its Lease.\<close>

definition sample_deleted_group :: leader_group where
  "sample_deleted_group = sample_shown\<lparr>DeletionTimestamp := Some 9000000000\<rparr>"

definition sample_deleted_groups :: group_cluster where
  "sample_deleted_groups = sample_held_groups\<lparr>gc_groups := [sample_deleted_group]\<rparr>"

lemma sample_deleted_hold: "group_holds (group_contents sample_deleted_groups) sample_deleted_groups"
  using sample_held_hold
  by (simp add: group_holds_def group_contents_def sample_deleted_groups_def sample_held_groups_def
      sample_deleted_group_def)

lemma sample_deleted_stored:
  "gs_groups (group_contents sample_deleted_groups) (''prod'', ''db'') = Some sample_deleted_group"
proof -
  have "object_key sample_deleted_group = (''prod'', ''db'')" by code_simp
  then show ?thesis
    by (simp add: group_contents_def sample_deleted_groups_def sample_held_groups_def find_key_def)
qed

lemma sample_deleted_kind:
  "SpecType (Spec sample_deleted_group) = LeaderGroupTypeController"
  "DeletionTimestamp sample_deleted_group \<noteq> None"
  "lease_key_of sample_deleted_group = (''prod'', ''db-lease'')"
  by (simp_all add: sample_deleted_group_def sample_shown_def sample_group_def lease_key_of_def
      LeaderGroupTypeController_def deriveLeaseName_def)

lemma sample_deleted_lease: "gs_leases (group_contents sample_deleted_groups) (''prod'', ''db-lease'') \<noteq> None"
proof -
  have "object_key sample_held = (''prod'', ''db-lease'')" by code_simp
  then show ?thesis
    by (simp add: group_contents_def sample_deleted_groups_def sample_held_groups_def find_key_def)
qed

end
