(* ===== verification/Health.thy ===== *)
theory Health
  imports Kube
begin

text \<open>
  \<^verbatim>\<open>pkg/director/health.go\<close>: the readiness, liveness and startup checks of the controller. A checker
  holds a reconciler that may be nil, and a reconciler a client and a recorder that may be nil.
  The probe of the API server (a list of namespaces limited to one) is a parameter.
\<close>

datatype health_error = ReconcilerNotInitialized | ClientNotInitialized | MetricsNotInitialized
  | ApiUnreachable api_err

record 'w checker =
  hc_client :: "('w \<Rightarrow> (api_err + unit) \<times> 'w) option"
  hc_metrics :: "metric_op list option"

definition NewControllerHealthChecker ::
  "('w \<Rightarrow> (api_err + unit) \<times> 'w) option \<Rightarrow> 'w sys \<Rightarrow> 'w checker option" where
  "NewControllerHealthChecker client reconciler = Some \<lparr>hc_client = client, hc_metrics = Metrics reconciler\<rparr>"

definition ReadinessCheck :: "'w checker option \<Rightarrow> 'w \<Rightarrow> (health_error + unit) \<times> 'w" where
  "ReadinessCheck c w =
     (case c of
        None \<Rightarrow> (Inl ReconcilerNotInitialized, w)
      | Some r \<Rightarrow>
          (case hc_client r of
             None \<Rightarrow> (Inl ClientNotInitialized, w)
           | Some listNamespaces \<Rightarrow>
               if hc_metrics r = None then (Inl MetricsNotInitialized, w)
               else case listNamespaces w of
                      (Inl err, w') \<Rightarrow> (Inl (ApiUnreachable err), w')
                    | (Inr done, w') \<Rightarrow> (Inr (), w')))"

definition LivenessCheck :: "'w checker option \<Rightarrow> health_error + unit" where
  "LivenessCheck c =
     (case c of
        None \<Rightarrow> Inl ReconcilerNotInitialized
      | Some r \<Rightarrow> if hc_client r = None then Inl ClientNotInitialized else Inr ())"

definition StartupCheck :: "'w checker option \<Rightarrow> health_error + unit" where
  "StartupCheck c = (if c = None then Inl ReconcilerNotInitialized else Inr ())"

definition Check :: "'w checker option \<Rightarrow> 'w \<Rightarrow> (health_error + unit) \<times> 'w" where
  "Check c w = ReadinessCheck c w"

text \<open>Ready implies alive, alive implies started: a probe never restarts a controller that is ready.\<close>

lemma ready_alive: "fst (ReadinessCheck c w) = Inr () \<Longrightarrow> LivenessCheck c = Inr ()"
  by (auto simp: ReadinessCheck_def LivenessCheck_def split: option.splits prod.splits sum.splits
      if_splits)

lemma alive_started: "LivenessCheck c = Inr () \<Longrightarrow> StartupCheck c = Inr ()"
  by (auto simp: LivenessCheck_def StartupCheck_def split: option.splits)

text \<open>When the checks of an initialised controller differ, the API server is to blame.\<close>

lemma alive_not_ready:
  assumes "LivenessCheck c = Inr ()" and "fst (ReadinessCheck c w) = Inl e"
  shows "e = MetricsNotInitialized \<or> (\<exists>err. e = ApiUnreachable err)"
  using assms
  by (auto simp: ReadinessCheck_def LivenessCheck_def split: option.splits prod.splits sum.splits
      if_splits)

text \<open>
  The checks are ordered. A ready controller is alive, an alive one has started, and an alive one
  that is not ready lacks its recorder or the API server.
\<close>

lemma health_checks_ordered:
  "case fst (Check c w) of
     Inr u \<Rightarrow> LivenessCheck c = Inr () \<and> StartupCheck c = Inr ()
   | Inl e \<Rightarrow> (case LivenessCheck c of
       Inr u \<Rightarrow> StartupCheck c = Inr () \<and> (e = MetricsNotInitialized \<or> (\<exists>err. e = ApiUnreachable err))
     | Inl e' \<Rightarrow> e = e')"
proof (cases "fst (Check c w)")
  case (Inl e)
  show ?thesis
  proof (cases "LivenessCheck c")
    case (Inl e')
    then show ?thesis using \<open>fst (Check c w) = Inl e\<close>
      by (auto simp: Check_def ReadinessCheck_def LivenessCheck_def
          split: option.splits prod.splits sum.splits if_splits)
  next
    case (Inr u)
    then show ?thesis using \<open>fst (Check c w) = Inl e\<close> alive_started[of c] alive_not_ready[of c w e]
      by (simp add: Check_def)
  qed
next
  case (Inr u)
  then show ?thesis using ready_alive[of c w] alive_started[of c] by (simp add: Check_def)
qed

text \<open>The checker of a running process fails only with the API server.\<close>

lemma running_checker:
  assumes "Metrics reconciler \<noteq> None"
  shows "fst (Check (NewControllerHealthChecker (Some probe) reconciler) w) =
    (case fst (probe w) of Inl err \<Rightarrow> Inl (ApiUnreachable err) | Inr done \<Rightarrow> Inr ())"
  using assms
  by (cases "probe w")
    (auto simp: Check_def ReadinessCheck_def NewControllerHealthChecker_def split: sum.splits)

end
