(* ===== verification/Strategy.thy ===== *)
theory Strategy
  imports Main
begin

text \<open>
  \<^verbatim>\<open>pkg/director/strategy.go\<close>: which strategy a kind of resource gets, by the name of the kind
  (\<^verbatim>\<open>DetectStrategy\<close>) or by the Go type of an object (\<^verbatim>\<open>DetectStrategyFromObject\<close>), and when a
  replica count asks for high availability.
\<close>

datatype strategy = TrafficDirector | StateGuard | NoStrategy

fun strategy_string :: "strategy \<Rightarrow> string" where
  "strategy_string TrafficDirector = ''TrafficDirector''"
| "strategy_string StateGuard = ''StateGuard''"
| "strategy_string NoStrategy = ''None''"

definition DetectStrategy :: "string \<Rightarrow> strategy" where
  "DetectStrategy resourceType =
     (if resourceType \<in> {''Deployment'', ''deployment'', ''apps/v1.Deployment''} then TrafficDirector
      else if resourceType \<in> {''StatefulSet'', ''statefulset'', ''apps/v1.StatefulSet''}
        then TrafficDirector
      else if resourceType \<in> {''Service'', ''service'', ''v1.Service''} then TrafficDirector
      else if resourceType \<in> {''Job'', ''job'', ''batch/v1.Job''} then StateGuard
      else if resourceType \<in> {''CronJob'', ''cronjob'', ''batch/v1.CronJob''} then StateGuard
      else NoStrategy)"

text \<open>The dynamic type of an \<^verbatim>\<open>interface{}\<close>, as far as the type switch tells types apart.\<close>

datatype object_type =
    DeploymentPtr | StatefulSetPtr | ServicePtr | JobPtr | CronJobPtr | OtherType string

fun DetectStrategyFromObject :: "object_type \<Rightarrow> strategy" where
  "DetectStrategyFromObject DeploymentPtr = TrafficDirector"
| "DetectStrategyFromObject StatefulSetPtr = TrafficDirector"
| "DetectStrategyFromObject ServicePtr = TrafficDirector"
| "DetectStrategyFromObject JobPtr = StateGuard"
| "DetectStrategyFromObject CronJobPtr = StateGuard"
| "DetectStrategyFromObject (OtherType t) = NoStrategy"

definition ShouldEnableHA :: "int \<Rightarrow> bool" where
  "ShouldEnableHA replicas \<longleftrightarrow> replicas > 1"

text \<open>
  The names under which a type is known: its kind, the kind in lower case, and the kind after its
  group and version. The two functions agree on all of them.
\<close>

fun type_names :: "object_type \<Rightarrow> string list" where
  "type_names DeploymentPtr = [''Deployment'', ''deployment'', ''apps/v1.Deployment'']"
| "type_names StatefulSetPtr = [''StatefulSet'', ''statefulset'', ''apps/v1.StatefulSet'']"
| "type_names ServicePtr = [''Service'', ''service'', ''v1.Service'']"
| "type_names JobPtr = [''Job'', ''job'', ''batch/v1.Job'']"
| "type_names CronJobPtr = [''CronJob'', ''cronjob'', ''batch/v1.CronJob'']"
| "type_names (OtherType t) = []"

lemma strategies_agree:
  "list_all (\<lambda>n. DetectStrategy n = DetectStrategyFromObject t) (type_names t)"
  by (cases t) (simp_all add: DetectStrategy_def)

lemma strategy_known:
  "DetectStrategy n \<noteq> NoStrategy \<longleftrightarrow>
   (\<exists>t \<in> {DeploymentPtr, StatefulSetPtr, ServicePtr, JobPtr, CronJobPtr}. n \<in> set (type_names t))"
  by (auto simp: DetectStrategy_def)

end
