(* ===== verification/Spec2Isabelle.thy ===== *)
theory Spec2Isabelle
  imports Controller CachePointers ClientSDK DeepCopy GroupStore Health Strategy
begin

text \<open>
  zen-lead is a Kubernetes controller. For every Service with the annotation
  \<^verbatim>\<open>zen-lead.io/enabled: "true"\<close> it picks one ready pod as the leader and publishes it: a second
  Service without a selector (by default \<^verbatim>\<open><name>-leader\<close>) and one EndpointSlice that points to the
  leader. For LeaderGroup objects it keeps a Lease and copies its holder to the status. A small
  client library lets a pod ask whether it holds a Lease.

  This development is a shallow embedding of the Go code under \<^verbatim>\<open>src/\<close>: records for structs,
  datatypes for errors (one constructor per \<^verbatim>\<open>fmt.Errorf\<close>, with the values it prints), and a state
  monad (\<^verbatim>\<open>HOL-Library.State_Monad\<close>) for handlers. A handler runs on the record \<open>sys\<close> of theory
  Kube, which holds the world outside the program, a log of all API calls with their answers, the
  events, the metric calls, and the two caches of the reconciler. Properties of a run are
  statements about the calls it appends to the log.

  Theories and the code they model, in the order of their imports.

    \<^item> Prelude: maps of strings, the monad's reader and writer, triples, and the locale
      \<open>evolution\<close> of relations between states that are closed under composition.
    \<^item> GoStd, GoNet: what the code uses of Go's standard library (\<^verbatim>\<open>time.Duration\<close>,
      \<^verbatim>\<open>time.ParseDuration\<close>, \<^verbatim>\<open>strings.TrimSpace\<close>, \<^verbatim>\<open>net.ParseIP\<close>, \<^verbatim>\<open>IP.To4\<close>).
    \<^item> Objects: Kubernetes objects with the fields the code reads and writes; the constants of
      \<^verbatim>\<open>service_director.go\<close>.
    \<^item> Metrics: \<^verbatim>\<open>pkg/metrics/metrics.go\<close>. A Record method is the list of calls of the Prometheus
      client it makes; the declared series are a table, and a call is well labelled when the table
      has its series with its kind and number of labels.
    \<^item> Kube: the API server, the clock and the helpers of other packages as the fields of the record
      \<open>kube\<close>, over an arbitrary type of worlds; the state of a run; background steps (reading the
      clock, waiting, recording) and the locale \<open>system_evolution\<close> of relations they respect.
    \<^item> Retry: \<^verbatim>\<open>pkg/director/retry_metrics.go\<close>.
    \<^item> Metadata: \<^verbatim>\<open>pkg/director/metadata.go\<close>, with the locale \<open>key_filter\<close> of both filters.
    \<^item> Strategy, Health: \<^verbatim>\<open>pkg/director/strategy.go\<close> and \<^verbatim>\<open>health.go\<close>.
    \<^item> Pods, Naming, Ports, Selection, LeaderCache, OptedCache, Slices, LeaderService, Director: the
      functions of \<^verbatim>\<open>pkg/director/service_director.go\<close>, from the leaves up to \<^verbatim>\<open>Reconcile\<close>. LeaderCache
      states the contract of a cache with expiring entries as the locales \<open>ttl_cache\<close> and
      \<open>ttl_cache_pruned\<close>; OptedCache states that of the registry of opted-in Services as the locale
      \<open>service_registry\<close>. Long Go functions are split where they return and at their comments.
    \<^item> Handlers: the locale \<open>handler_evolution\<close> of relations that hold across every handler whatever the
      server answers, with its instances for the metrics, for where the entries of the caches come
      from, and for the leader pod cache staying a map.
    \<^item> CachePointers: the opted-in cache as shared entries in memory, the critical sections of its lock,
      and \<^verbatim>\<open>mapPodToService\<close> with the critical sections of other goroutines in between.
    \<^item> LeaderGroup: \<^verbatim>\<open>pkg/apis/leadership.kube-zen.io/v1alpha1/leadergroup_types.go\<close> and
      \<^verbatim>\<open>pkg/controller/leadergroup_controller.go\<close>.
    \<^item> GroupStore: LeaderGroups and Leases on a calm API server, whose laws are the locale
      \<open>group_server\<close>; a group is \<open>served\<close> when its Lease is stored and its status shows it. A server in
      memory, \<open>group_kube\<close>, is an instance.
    \<^item> Memory, DeepCopy: the deep copies of \<^verbatim>\<open>leadergroup_types.go\<close> on a memory with pointers. The
      locale \<open>copier\<close> is the contract of a deep copy; structs, pointers and slices keep it.
    \<^item> ClientSDK: \<^verbatim>\<open>pkg/client/client.go\<close>; its cache is a second instance of \<open>ttl_cache\<close>.
    \<^item> Manager: \<^verbatim>\<open>cmd/manager/main.go\<close>, flags and start-up, and the registration of metrics.
    \<^item> Cluster: an in-memory API server, \<open>mem_kube\<close>, as an instance of \<open>kube\<close>. It can be told to fail
      calls and to validate objects strictly. The examples run the handlers on it.
    \<^item> Store, Convergence: what runs achieve on an API server that is up and has no other writers.
      The locale \<open>api_server\<close> has the laws of such a server over an abstract store (\<open>holds v w\<close>: the
      world \<open>w\<close> is one with the contents \<open>v\<close>), \<open>validating_server\<close> adds what it refuses; \<open>mem_kube\<close> is
      an instance of both. A Service is \<open>serviceable\<close> when a run can publish a leader for it, and
      \<open>settled\<close> when its traffic goes to one ready pod; it is \<open>stuck\<close> when the server refuses every
      slice the code can write, and \<open>unresolvable\<close> when no pod resolves its ports.
    \<^item> Controller: what both \<^verbatim>\<open>SetupWithManager\<close> functions register, the scheme they need, and the running process as the
      transition system \<open>process_step\<close>: the map functions, the reconciler and the clean-up routine run in
      any order and with any arguments, and the world outside changes at will in between.

  What is a parameter. The API server maps its arguments and the world to an answer and the next
  world, so it may answer anything: faults, stale reads and races with other writers included.
  \<^verbatim>\<open>retry.Do\<close> of the zen-sdk gets a configuration and a closure, of which it can only make calls and see
  whether they fail. It is therefore given as a program (\<open>RetryDo\<close>, of the type \<open>retrier\<close>) that calls
  the closure, looks at the world, waits, and in the end gives up; it returns nil exactly after a
  successful call. Nothing else is assumed of it: how often it calls, and when it stops, is up to
  it. Only on a calm server it is a law that it gives up with an error of one of its calls, so not
  before its first call.
  \<^verbatim>\<open>sort.Slice\<close> may leave elements that compare equal in any order; where that shows, in the cut of the
  opted-in cache, the order among them is the parameter \<open>SortTies\<close>.
  The deep copies of \<^verbatim>\<open>k8s.io/apimachinery\<close>, label selectors, the validation of names, RFC 3339
  formatting, the rounding of fractions in \<^verbatim>\<open>ParseDuration\<close> (which the code does in floating point),
  contexts running out of time and the Prometheus registry are parameters as well. The
  controller-runtime library is the source of the steps of a process, and nothing is assumed of when
  it takes which. Where a property relies on a law of a parameter, the law is a hypothesis and the
  property has an example on a concrete instance.

  What the lemmas show. Selection: the leader is the sticky one or the oldest eligible pod, and
  the choice does not depend on the order of the list. Caches: the leader pod cache and the
  client's cache are maps with expiring entries, whose clean-up no reader can see; the opted-in
  cache stands for a finite map. Writes: the calls of every part of a run are bounded by a
  predicate on calls (\<open>leader_write\<close>, \<open>slice_write\<close>, \<open>delete_of\<close>, \<open>group_call\<close>), which composes along
  the calls; the safety properties of published objects follow from it for any API server.
  Handlers: every elementary change a handler makes is listed once, and each relation that allows
  them all is kept by all handlers; so a process keeps its caches well formed and backed by what it
  has read, and makes only safe calls, in every state it can reach. CachePointers: the critical
  sections refine the list operations with which the handlers are modelled, so treating each as one
  step is right; what the unlocked reads may see is bounded by what was captured and by later
  updates. Convergence: each
  handler is followed through the store, with the retries of each call on the way; a run publishes a
  ready pod from any state of the caches and the store, later runs keep it, and clean-up removes the
  leader Service. LeaderGroups: one run on a calm server serves a group, and all later runs leave its
  Lease alone; a renew time with a fraction of a second, which a status cannot store, makes each of
  them write the status again. Deep copies: a copy and its original stand for the same value and share no memory,
  so the values of this development are what the code works on.

  Bounds. Loops over lists are structural, \<open>retrier\<close> is a datatype and so every program of it ends, and the
  parser of durations has the length of its input as fuel (every round consumes a character). The
  clean-up goroutine may run forever and is a \<open>partial_function\<close>; it is shown to return exactly if its
  context is done.

  Not modelled: log lines, tracing spans and the text of events and errors; metric help texts and
  histogram buckets; \<^verbatim>\<open>sync.Pool\<close>, which only saves allocations. The
  reconciler's runs are steps of the process as a whole: runs for other Services at the same time
  appear as changes of the world, not of the caches in the middle of a run; for the opted-in cache
  the critical sections are interleaved in theory CachePointers. Integers that the code keeps in
  \<^verbatim>\<open>int32\<close> come from API objects and are only copied and compared; products of flags with time units,
  which can wrap, are computed modulo \<open>2 ^ 64\<close>.
\<close>

section \<open>What a reconciliation writes\<close>

text \<open>
  C1: whatever the API server answers, the writes of one run of \<^verbatim>\<open>Reconcile\<close> are either only
  deletions of leader Services that the run has looked up or listed for its request, or the writes
  that publish one leader for the Service the run has read. In the second case the Service is
  opted in, and the leader, if there is one, is a ready pod of the list read in the run.
\<close>

theorem reconcile_run_writes:
  "case run_state (Reconcile K cfg req) s of
     (r, s') \<Rightarrow> \<exists>new. calls s' = calls s @ new \<and> run_writes K req new"
  by (cases "run_state (Reconcile K cfg req) s") (simp add: Reconcile_writes)

text \<open>
  C2: every EndpointSlice that a run writes has exactly one endpoint. The endpoint either has
  neither address nor target, or is the address and the reference (with the UID) of a ready pod
  from a pod list the run has read, marked ready. Traffic is never sent to a pod that was not seen
  ready in the same run.
\<close>

theorem slices_point_to_ready_pods:
  "case run_state (Reconcile K cfg req) s of
     (r, s') \<Rightarrow> \<exists>new. calls s' = calls s @ new \<and> list_all (slices_safe new) new"
  by (cases "run_state (Reconcile K cfg req) s") (simp add: Reconcile_safe)

text \<open>
  C3: every Service that a run writes has no selector and only numeric target ports. A Service
  that is created has the leader name of an opted-in Service read in the run; one that is patched
  keeps its name and UID.
\<close>

theorem leader_services_without_selector:
  "case run_state (Reconcile K cfg req) s of
     (r, s') \<Rightarrow> \<exists>new. calls s' = calls s @ new \<and> list_all (services_safe K new) new"
  by (cases "run_state (Reconcile K cfg req) s") (simp add: Reconcile_safe)

text \<open>
  C4: a run of \<^verbatim>\<open>reconcileLeaderService\<close> that reports no error has published the resolved leader, and
  the server has accepted both writes. One is of the leader Service: created under the leader name,
  or patched from what was read under it in the run, without a selector, with the resolved ports and
  annotations that name the leader and its UID. The other is of the EndpointSlice of that name, new
  or patched from what was read, with the endpoint of the leader and the same ports.
\<close>

theorem published_when_successful:
  "case run_state (reconcileLeaderService K cfg svc selected) s of
     (Inl err, s') \<Rightarrow> True
   | (Inr u, s') \<Rightarrow> \<exists>new. calls s' = calls s @ new \<and>
       service_published K svc (snd (resolved_leader svc selected)) (fst (resolved_leader svc selected))
         (set new) \<and>
       slice_published svc (getLeaderServiceName K svc) (snd (resolved_leader svc selected))
         (fst (resolved_leader svc selected)) (set new)"
  using reconcileLeaderService_success[of K cfg svc selected s]
  by (cases "run_state (reconcileLeaderService K cfg svc selected) s")
    (auto split: sum.splits)

section \<open>Runs on a calm server\<close>

text \<open>
  C5: on an API server that is up and has no other writers, one run of \<^verbatim>\<open>Reconcile\<close> serves a
  serviceable Service, whatever the caches of the controller hold and whatever an earlier, failed run
  has left behind. The run reports no error, the leader Service and its EndpointSlice are stored with
  the ports and the address of a ready pod, and nothing else is changed. Serviceable means: the
  Service is stored under valid names, is opted in, has a selector and asks for no minimum ready
  duration; its leader Service has another name, which is a DNS-1035 label, and is of type ClusterIP
  with at least one port and no fixed node ports; some pod that the selector matches is ready; and
  every such pod has an address, resolves all ports, and has the type of addresses of the others and
  of the stored EndpointSlice, if there is one.
\<close>

theorem reconcile_settles:
  assumes "api_server K holds" and "holds v (world s)" and "serviceable K req svc v"
  shows "case run_state (Reconcile K cfg req) s of
    (r, s') \<Rightarrow> \<exists>p v'. r = Inr () \<and> holds v' (world s') \<and> published K svc p v v' \<and> settled K req svc p v'"
proof -
  note at = at_holds[OF assms(1)]
  obtain r s' where run: "run_state (Reconcile K cfg req) s = (r, s')" by (metis prod.exhaust)
  from api_server.Reconcile_settles[OF assms(1) run, unfolded at, OF assms(2,3)] show ?thesis
    unfolding run by auto
qed

theorem reconcile_settles_witness:
  "case run_state (Reconcile mem_kube sample_config (''prod'', ''db''))
      (start_state sample_cluster) of
    (r, s') \<Rightarrow> \<exists>p v'. r = Inr () \<and> mem_holds v' (world s') \<and>
      published mem_kube sample_service p sample_contents v' \<and>
      settled mem_kube (''prod'', ''db'') sample_service p v'"
  by (rule reconcile_settles[OF mem.api_server_axioms sample_holds sample_serviceable])

text \<open>
  C6: the first run on a calm server picks a pod, and all later runs for the same Service keep it:
  after any positive number of runs the Service is served by that one pod. The leader does not flap,
  as long as the Service is sticky (the default), every ready pod that its selector matches has a UID
  and is not being deleted, and the Service is serviceable: it is stored under valid names, opted in,
  with a selector and no minimum ready duration; its leader Service has another name, a DNS-1035
  label, and is of type ClusterIP with at least one port and no fixed node ports; and some matching
  pod is ready, while every one that is has an address, resolves all ports, and has the type of
  addresses of the others and of the stored EndpointSlice, if there is one.
\<close>

theorem leader_is_kept:
  assumes "api_server K holds" and "holds v (world s)" and "serviceable K req svc v"
    and "is_sticky svc"
    and "\<And>p. p \<in> candidates K v svc \<Longrightarrow> UID p \<noteq> '''' \<and> DeletionTimestamp p = None"
  shows "\<exists>p. p \<in> candidates K v svc \<and>
    (\<forall>n. \<exists>v'. holds v' (world (reconciled K cfg req (Suc n) s)) \<and> settled K req svc p v')"
  using api_server.Reconcile_serves_on[OF assms(1), unfolded at_holds[OF assms(1)], OF assms(2-5)]
  by blast

theorem leader_is_kept_witness:
  "\<exists>p. p \<in> candidates mem_kube sample_contents sample_service \<and>
    (\<forall>n. \<exists>v'. mem_holds v' (world (reconciled mem_kube
        sample_config (''prod'', ''db'') (Suc n)
        (start_state sample_cluster))) \<and>
      settled mem_kube (''prod'', ''db'') sample_service p v')"
  by (rule leader_is_kept[OF mem.api_server_axioms sample_holds sample_serviceable])
    (simp add: is_sticky_def sample_service_def, rule sample_alive)

text \<open>
  C7: when a Service is no longer opted in, one run of \<^verbatim>\<open>Reconcile\<close> on a calm server deletes its
  leader Service and nothing else, and reports no error.
\<close>

theorem disabled_service_cleaned:
  assumes "api_server K holds" and "holds v (world s)"
    and "st_services v req = Some svc" and "\<not> zen_lead_enabled svc"
  shows "case run_state (Reconcile K cfg req) s of
    (r, s') \<Rightarrow> r = Inr () \<and>
      holds (put_service_in (fst req, getLeaderServiceName K svc) None v) (world s')"
proof -
  note at = at_holds[OF assms(1)]
  obtain r s' where run: "run_state (Reconcile K cfg req) s = (r, s')" by (metis prod.exhaust)
  from api_server.Reconcile_cleans_disabled[OF assms(1) run, unfolded at, OF assms(2-4)] show ?thesis
    unfolding run by auto
qed

theorem disabled_service_cleaned_witness:
  "case run_state (Reconcile mem_kube sample_config (''prod'', ''db''))
      (start_state sample_disabled_cluster) of
    (r, s') \<Rightarrow> r = Inr () \<and>
      mem_holds (put_service_in (''prod'', ''db-leader'') None (store_of sample_disabled_cluster)) (world s')"
proof -
  have name: "getLeaderServiceName mem_kube sample_disabled_service = ''db-leader''" by code_simp
  have "\<not> zen_lead_enabled sample_disabled_service" by code_simp
  from disabled_service_cleaned[OF mem.api_server_axioms sample_disabled_holds this]
  show ?thesis unfolding name by simp
qed

text \<open>
  C8: when a Service is gone, one run of \<^verbatim>\<open>Reconcile\<close> on a calm server deletes exactly the Services of
  its namespace that carry the labels of its leader Services, and reports no error.
\<close>

theorem deleted_service_cleaned:
  assumes "api_server K holds" and "holds v (world s)" and "st_services v req = None"
  shows "case run_state (Reconcile K cfg req) s of
    (r, s') \<Rightarrow> r = Inr () \<and> holds (v\<lparr>st_services := (\<lambda>k.
      if k \<in> object_key ` selected_services K v (fst req) (source_labels (snd req)) then None
      else st_services v k)\<rparr>) (world s')"
proof -
  note at = at_holds[OF assms(1)]
  obtain r s' where run: "run_state (Reconcile K cfg req) s = (r, s')" by (metis prod.exhaust)
  from api_server.Reconcile_cleans_gone[OF assms(1) run, unfolded at, OF assms(2,3)] show ?thesis
    unfolding run by auto
qed

theorem deleted_service_cleaned_witness:
  "case run_state (Reconcile mem_kube sample_config (''prod'', ''web''))
      (start_state sample_cluster) of
    (r, s') \<Rightarrow> r = Inr () \<and> mem_holds (sample_contents\<lparr>st_services := (\<lambda>k.
      if k \<in> object_key ` selected_services mem_kube sample_contents ''prod'' (source_labels ''web'')
      then None else st_services sample_contents k)\<rparr>) (world s')"
proof -
  have "st_services sample_contents (''prod'', ''web'') = None"
    by (simp add: store_of_def find_key_def sample_cluster_def sample_service_def object_key_def)
  from deleted_service_cleaned[OF mem.api_server_axioms sample_holds this] show ?thesis by simp
qed

text \<open>
  C9: with an API server that validates EndpointSlices, a Service with numeric target ports and
  without a ready pod keeps its old EndpointSlice: every run fails, however often it is repeated, and
  no slice and no pod is changed. Traffic goes on to the address of the last leader. The same holds
  when the ready pods have addresses of another type than the slice, since the type of a slice cannot
  be changed. The Service is stored under valid names, opted in, and has a selector; its leader
  Service has another name, which is a DNS-1035 label, and is of type ClusterIP with at least one
  port and no fixed node ports. (With named ports that no pod resolves the slice is deleted instead.)
\<close>

theorem no_leader_keeps_old_slice:
  assumes "validating_server K holds" and "holds v (world s)" and "stuck K req svc v"
  shows "(\<exists>err. fst (run_state (Reconcile K cfg req) (reconciled K cfg req n s)) = Inl err) \<and>
    (\<exists>v'. holds v' (world (reconciled K cfg req n s)) \<and> st_slices v' = st_slices v \<and>
       st_pods v' = st_pods v)"
proof -
  note server = validating_server.axioms(1)[OF assms(1)]
  note at = at_holds[OF server]
  from validating_server.Reconcile_stuck_running[OF assms(1), unfolded at, OF assms(2,3)]
  obtain v' where v': "holds v' (world (reconciled K cfg req n s))" "stuck K req svc v'"
    "st_slices v' = st_slices v" "st_pods v' = st_pods v" by blast
  obtain r s' where run: "run_state (Reconcile K cfg req) (reconciled K cfg req n s) = (r, s')"
    by (metis prod.exhaust)
  from validating_server.Reconcile_stuck[OF assms(1) run, unfolded at, OF v'(1,2)] run v' show ?thesis
    by auto
qed

theorem no_leader_keeps_old_slice_witness:
  "(\<exists>err. fst (run_state (Reconcile mem_kube sample_config
        (''prod'', ''db'')) (reconciled mem_kube sample_config
          (''prod'', ''db'') 7 (start_state sample_dead_cluster))) = Inl err) \<and>
    (\<exists>v'. mem_holds v' (world (reconciled mem_kube sample_config
        (''prod'', ''db'') 7 (start_state sample_dead_cluster))) \<and>
       st_slices v' = st_slices (store_of sample_dead_cluster) \<and>
       st_pods v' = st_pods (store_of sample_dead_cluster))"
  by (rule no_leader_keeps_old_slice[OF validating_mem.validating_server_axioms sample_dead_holds
        sample_stuck])



section \<open>The running process\<close>



text \<open>
  C12: in every state the process can reach both caches are well formed and say the truth about what
  was read. In the opted-in cache namespaces and names are unique, selectors are not empty, and
  each entry has the name and the selector of an opted-in Service that was read or listed under its
  namespace; in the leader pod cache keys are unique, every entry knows its key, and its pod was
  read or listed. The cache of leader pods is there exactly if the flag enables it, and no call of
  the metrics recorder could have panicked. (Names are unique in a list of Services of a namespace;
  this is a law of the API.)
\<close>

theorem process_caches_backed:
  assumes "director_of_flags w f = (cfg, s0)" and "SetupWithManager K cfg s0 mgr = Inr C"
    and "(process_step K C)\<^sup>*\<^sup>* s0 s" and "lists_distinct (calls s)"
  shows "opted_backed (calls s) (optedInServicesCache s) \<and>
    (case leaderPodCache s of
       None \<Rightarrow> \<not> enable_leader_pod_cache f
     | Some c \<Rightarrow> enable_leader_pod_cache f \<and> leaders_backed (calls s) c) \<and>
    (case Metrics s of None \<Rightarrow> True | Some ops \<Rightarrow> list_all well_labelled ops)"
  using process_reached_ok[OF assms(1-3)] assms(4)
  by (auto simp: process_ok_def caches_backed_def split: option.splits)

theorem process_caches_backed_witness:
  "opted_backed (calls sample_notified) (optedInServicesCache sample_notified) \<and>
   map (\<lambda>(ns, cached). (ns, map cs_name cached)) (optedInServicesCache sample_notified) = [(''prod'', [''db''])]"
proof
  have "lists_distinct (calls sample_notified)"
    by (simp add: sample_notified_calls lists_distinct_def)
  then show "opted_backed (calls sample_notified) (optedInServicesCache sample_notified)"
    by (rule process_caches_backed[OF sample_flags sample_setup sample_notified_run, THEN conjunct1])
qed (rule sample_notified_cache)

text \<open>
  C13: failover completes for a serviceable Service. When the health of a pod changes (it becomes or
  stops being ready, is being deleted, or gets or loses its address), the update passes the predicate
  of the Pod watch; the map function asks for every Service that is registered with a selector
  matching the pod; and on a calm server the run it asks for serves the Service by one ready pod and
  reports no error. Serviceable means: the Service is stored under valid names, opted in, with a
  selector and no minimum ready duration; its leader Service has another name, a DNS-1035 label, and
  is of type ClusterIP with at least one port and no fixed node ports; and some pod that the selector
  matches is ready, while every one that is has an address, resolves all ports, and has the type of
  addresses of the others and of the stored EndpointSlice, if there is one.
\<close>

theorem failover_completes:
  assumes "api_server K holds" and "holds v (world s)" and "serviceable K req svc v"
    and "SetupWithManager K cfg s0 mgr = Inr C"
    and "unhealthy oldPod \<noteq> unhealthy newPod" and "Namespace newPod = fst req"
    and "registry (opted_of (optedInServicesCache s) (fst req)) (snd req) = Some selector"
    and "SelectorMatches K selector (Labels newPod)"
  shows "\<exists>wt \<in> set (Watches (director C)). watch_kind wt = PodKind \<and>
    watch_predicate wt (UpdateEvent (PodObject oldPod) (PodObject newPod)) \<and>
    (case run_state (watch_map wt (PodObject newPod)) s of
       (reqs, t) \<Rightarrow> req \<in> set reqs \<and>
         (case run_state (reconciler (director C) req) t of
            (r, u) \<Rightarrow> \<exists>p v'. r = Inr () \<and> holds v' (world u) \<and> settled K req svc p v'))"
  using pod_event_settles[OF assms(1-3,6-8), of cfg] health_change_notified[OF assms(5)]
  by (intro bexI[OF _ pod_watch[of K cfg, folded installed_director[OF assms(4)]]])
    (simp add: pod_requests_def installed_director[OF assms(4)] director_controller_def)

theorem failover_completes_witness:
  "\<exists>wt \<in> set (Watches (director sample_installed)). watch_kind wt = PodKind \<and>
    watch_predicate wt (UpdateEvent (PodObject (sample_pod ''db-2'' ''uid-c'' 1 ''True'' ''10.0.0.13''))
      (PodObject (sample_pod ''db-2'' ''uid-c'' 1 ''False'' ''10.0.0.13''))) \<and>
    (case run_state (watch_map wt (PodObject (sample_pod ''db-2'' ''uid-c'' 1 ''False'' ''10.0.0.13'')))
        sample_observed of
       (reqs, t) \<Rightarrow> (''prod'', ''db'') \<in> set reqs \<and>
         (case run_state (reconciler (director sample_installed) (''prod'', ''db'')) t of
            (r, u) \<Rightarrow> \<exists>p v'. r = Inr () \<and> mem_holds v' (world u) \<and>
              settled mem_kube (''prod'', ''db'') sample_service p v'))"
proof (rule failover_completes[OF mem.api_server_axioms _ sample_serviceable sample_setup])
  show "mem_holds sample_contents (world sample_observed)"
    using sample_holds by (simp add: sample_observed_def)
  show "unhealthy (sample_pod ''db-2'' ''uid-c'' 1 ''True'' ''10.0.0.13'') \<noteq>
      unhealthy (sample_pod ''db-2'' ''uid-c'' 1 ''False'' ''10.0.0.13'')" by code_simp
  show "registry (opted_of (optedInServicesCache sample_observed) (fst (''prod'', ''db'')))
      (snd (''prod'', ''db'')) = Some [(''app'', ''db'')]"
    by (simp add: sample_observed_def opted_of_def registry_def)
  show "SelectorMatches mem_kube [(''app'', ''db'')]
      (Labels (sample_pod ''db-2'' ''uid-c'' 1 ''False'' ''10.0.0.13''))"
    by (simp add: mem_kube_def matches_def sample_pod_def)
qed (simp add: sample_pod_def)

text \<open>
  C14: the clean-up goroutine ends. It is installed exactly if the leader pod cache is enabled; then
  its ticker never panics, whatever the flags say, and whatever steps the rest of the process takes
  between its ticks, it returns if its context is ever done, and runs on forever otherwise.
\<close>

theorem cleanup_ends_with_context:
  assumes "director_of_flags w f = (cfg, s0)" and "SetupWithManager K cfg s0 mgr = Inr C"
    and "(process_step K C)\<^sup>*\<^sup>* s0 s" and "others_run K C others"
  shows "case cleanup_every C of
      None \<Rightarrow> \<not> enable_leader_pod_cache f
    | Some ttl \<Rightarrow> enable_leader_pod_cache f \<and>
        cleanupLeaderPodCache K others signals ttl s \<noteq> Some TickerPanic \<and>
        ((\<exists>t. cleanupLeaderPodCache K others signals ttl s = Some (Returned t)) \<longleftrightarrow> (\<exists>n. signals n = Done))"
  using installed_cleanup_ends[OF assms] cleanup_installed[OF assms(1,2)]
  by (auto split: option.splits if_splits)

theorem cleanup_ends_with_context_witness:
  "\<exists>ttl t. cleanup_every sample_installed = Some ttl \<and>
     cleanupLeaderPodCache mem_kube (\<lambda>i s. s) (\<lambda>i. if i < 3 then Tick else Done) ttl sample_reached =
       Some (Returned t)"
proof -
  have others: "others_run mem_kube sample_installed (\<lambda>i s. s)" by (simp add: others_run_def)
  have "\<exists>n. (if n < (3 :: nat) then Tick else Done) = Done" by (rule exI[of _ 3]) simp
  with cleanup_ends_with_context[OF sample_flags sample_setup sample_run others,
      of "\<lambda>i. if i < 3 then Tick else Done"]
  show ?thesis by (simp add: sample_installed_def)
qed

section \<open>The opted-in cache in memory\<close>

text \<open>
  C15: the critical sections on the opted-in cache, which write through shared pointers, implement the
  operations on lists of entries with which the handlers are modelled: no entry is ever shared or
  dangling, each operation shows as its list operation and touches no other namespace, and without
  interference \<^verbatim>\<open>mapPodToService\<close> asks for the same Services on both levels.
\<close>

theorem critical_sections_refine:
  assumes "heap_ok h"
  shows "heap_ok (fold apply_op ops h) \<and> view (fold apply_op ops h) = fold list_op ops (view h) \<and>
    shared_mapPodToService K (Namespace p) (Labels p) refill t (\<lambda>i. []) h =
      requests_for K p (if view h (Namespace p) = []
        then (case refill of None \<Rightarrow> [] | Some cached \<Rightarrow> cached) else view h (Namespace p))"
  using apply_ops_refine[OF assms] shared_mapPodToService_alone[OF assms] by blast

theorem critical_sections_refine_witness:
  "view (fold apply_op [Put ''prod'' ''db'' [(''app'', ''db'')] 1, Touch ''prod'' 2] empty_heap) ''prod'' =
     [\<lparr>cs_name = ''db'', cs_selector = [(''app'', ''db'')], cs_lastAccess = 2\<rparr>]"
  by (subst critical_sections_refine[OF empty_heap_ok, THEN conjunct2, THEN conjunct1])
    (simp add: view_empty)

text \<open>
  C16: \<^verbatim>\<open>mapPodToService\<close> reads the entries after it has released the lock. Whatever critical sections
  of other goroutines run in between, it asks only for Services that were in the slice it captured
  under the lock, each with a selector that matched then or by a later update of that Service; and
  it misses none whose selector matched and still matches after every later update. An entry is
  never taken for another Service.
\<close>

theorem requests_among_others:
  assumes "heap_ok h"
  shows "case captured ns refill t others h of
    (as, h2) \<Rightarrow>
      (\<forall>q \<in> set (shared_mapPodToService K ns podLabels refill t others h).
         \<exists>c \<in> set (view h2 ns). q = (ns, cs_name c) \<and>
           (SelectorMatches K (cs_selector c) podLabels \<or>
            (\<exists>i sel u. 1 \<le> i \<and> Put ns (cs_name c) sel u \<in> set (others i) \<and>
               SelectorMatches K sel podLabels))) \<and>
      (\<forall>c \<in> set (view h2 ns). SelectorMatches K (cs_selector c) podLabels \<longrightarrow>
         (\<forall>i sel u. 1 \<le> i \<longrightarrow> Put ns (cs_name c) sel u \<in> set (others i) \<longrightarrow>
            SelectorMatches K sel podLabels) \<longrightarrow>
         (ns, cs_name c) \<in> set (shared_mapPodToService K ns podLabels refill t others h))"
proof -
  obtain as h2 where cap: "captured ns refill t others h = (as, h2)" by (metis prod.exhaust)
  show ?thesis unfolding cap prod.case
    using shared_requests[OF assms cap refl, of _ K podLabels] by blast
qed

theorem requests_among_others_witness:
  "(''prod'', ''db'') \<in> set (shared_mapPodToService mem_kube ''prod'' [(''app'', ''db'')] None 5
      sample_others sample_heap)"
  using requests_among_others[OF sample_heap_ok, where ns = "''prod''" and refill = None and t = 5
      and others = sample_others and K = mem_kube and podLabels = "[(''app'', ''db'')]"]
    sample_captured[of None 5]
  by (cases "captured ''prod'' None 5 sample_others sample_heap")
    (simp add: mem_kube_def matches_def sample_others_def)

section \<open>The leader\<close>

text \<open>
  C17: what \<^verbatim>\<open>selectLeaderPod\<close> returns. If the Service is sticky and stickiness is not bypassed, it
  reads the EndpointSlice, and if one of its endpoints refers by UID to a ready pod of the list, such
  a pod is returned. Otherwise it is the oldest pod, by creation time and then by name, of those that
  are ready and have been for the minimum ready duration at the time that the clock shows after the
  read; none is returned exactly if no pod is ready for long enough. No other call is made.
\<close>

theorem leader_selection_sound:
  "case run_state (selectLeaderPod K svc pods bypassStickiness) s of
     (r, s') \<Rightarrow>
       if is_sticky svc \<and> \<not> bypassStickiness
       then case run_state (sticky_read K svc) s of
         (q, u) \<Rightarrow> calls s' = calls u \<and> leader_choice K svc (endpoints_read q) pods u r
       else calls s' = calls s \<and> leader_choice K svc [] pods s r"
proof -
  obtain r s' where run: "run_state (selectLeaderPod K svc pods bypassStickiness) s = (r, s')"
    by (metis prod.exhaust)
  show ?thesis unfolding run prod.case by (rule selectLeaderPod_choice[OF run])
qed

text \<open>
  C18: a run of \<^verbatim>\<open>selectLeaderPod\<close> does not depend on the order in which the server lists the pods, nor
  on repetitions: two lists of the same pods, which differ in name and UID as the pods of a namespace
  do, give the same pod and the same effects. Pods created at the same time are told apart by name.
\<close>

theorem selection_order_independent:
  assumes "set pods = set pods'" and "inj_on Name (set pods)" and "inj_on UID (set pods)"
  shows "run_state (selectLeaderPod K svc pods bypassStickiness) s =
    run_state (selectLeaderPod K svc pods' bypassStickiness) s"
  using assms by (rule selectLeaderPod_order)

theorem selection_order_independent_witness:
  "run_state (selectLeaderPod mem_kube sample_service (cl_pods sample_cluster) False)
     (start_state sample_cluster) =
   run_state (selectLeaderPod mem_kube sample_service (rev (cl_pods sample_cluster)) False)
     (start_state sample_cluster)"
proof (rule selection_order_independent)
  show "set (cl_pods sample_cluster) = set (rev (cl_pods sample_cluster))" by simp
  show "inj_on Name (set (cl_pods sample_cluster))" and "inj_on UID (set (cl_pods sample_cluster))"
    by (simp_all add: sample_cluster_def sample_pod_def)
qed

text \<open>
  C19: flap damping counts exactly. With the annotated duration \<open>d\<close> a pod is eligible at time \<open>t\<close>
  exactly if it is ready and, when \<open>d\<close> is positive, has been for at least \<open>d\<close>; the saturation of
  \<^verbatim>\<open>time.Sub\<close> and the range of the parsed duration never change the outcome.
\<close>

theorem flap_damping_exact:
  "eligible (getMinReadyDuration K svc) t p \<longleftrightarrow>
     isPodReady p \<and>
     (getMinReadyDuration K svc \<le> 0 \<or>
      (\<exists>u. getPodReadySince p = Some u \<and> getMinReadyDuration K svc \<le> t - u))"
proof -
  have "time_Sub t u < getMinReadyDuration K svc \<longleftrightarrow> t - u < getMinReadyDuration K svc"
    if "0 < getMinReadyDuration K svc" for u
    using that getMinReadyDuration_in_range[of K svc]
    by (intro time_Sub_less_iff) (auto simp: min_duration_def)
  then show ?thesis
    by (auto simp: eligible_def not_less split: option.splits)
qed

text \<open>
  C20: a pod that \<^verbatim>\<open>getCurrentLeaderPod\<close> returns was read from the server in the same call, and its
  UID is the remembered one, from the cache entry of the Service or from the EndpointSlice that the
  call has read. A pod recreated under the same name is never taken for the leader.
\<close>

theorem current_leader_confirmed:
  "case run_state (getCurrentLeaderPod K cfg svc) s of
     (None, s') \<Rightarrow> True
   | (Some p, s') \<Rightarrow> \<exists>new. calls s' = calls s @ new \<and>
       confirmed_leader K svc (leaderPodCache s) new p"
  using getCurrentLeaderPod_result[of K cfg svc s]
  by (cases "run_state (getCurrentLeaderPod K cfg svc) s") (auto split: option.splits)

text \<open>
  C21: the clean-up of the leader pod cache is invisible. Rounds of it at any times up to \<open>t\<close> keep
  the cache well formed and change no answer at time \<open>t\<close>.
\<close>

theorem leader_cache_pruning_invisible:
  assumes "leader_cache_ok c" and "list_all (\<lambda>u. u \<le> t) ticks"
  shows "leader_cache_ok (fold prune_leaders ticks c) \<and>
    valid_leader (fold prune_leaders ticks c) serviceKey t = valid_leader c serviceKey t"
  using assms by (rule leader_pods.valid_prunes)

theorem leader_cache_pruning_invisible_witness:
  "valid_leader (fold prune_leaders [40, 60] (put_leader ''prod/db'' (sample_pod ''db-0'' ''uid-a'' 1
     ''True'' ''10.0.0.11'') 70 [])) ''prod/db'' 60 \<noteq> None"
proof -
  let ?c = "put_leader ''prod/db'' (sample_pod ''db-0'' ''uid-a'' 1 ''True'' ''10.0.0.11'') 70 []"
  have "leader_cache_ok ?c" by (rule leader_cache_ok_put[OF leader_pods.inv_clear])
  moreover have "valid_leader ?c ''prod/db'' 60 \<noteq> None"
    by (simp add: leader_pods.valid_put)
  ultimately show ?thesis
    using leader_cache_pruning_invisible[of ?c 60 "[40, 60]" "''prod/db''"] by simp
qed

section \<open>Ports, names and metadata\<close>

text \<open>
  C22: \<^verbatim>\<open>resolveServicePorts\<close> is fail-closed and exact. Its result is the list of the Service's ports
  with every named target replaced by the number of the first container port of that name in the
  leader, and every other field unchanged; it fails exactly when some named target has no positive
  number, and then it has made no API call.
\<close>

theorem port_resolution_exact:
  "case run_state (resolveServicePorts svc leaderPod) s of
     (Inr rps, s') \<Rightarrow> list_all2 (resolves_to leaderPod) (Ports svc) rps \<and> s' = s
   | (Inl err, s') \<Rightarrow> (\<nexists>rps. list_all2 (resolves_to leaderPod) (Ports svc) rps) \<and>
       calls s' = calls s \<and> world s' = world s"
proof -
  obtain r s' where run: "run_state (resolveServicePorts svc leaderPod) s = (r, s')"
    by (metis prod.exhaust)
  show ?thesis
  proof (cases r)
    case (Inl err)
    from resolveServicePorts_failure[OF run[unfolded Inl]] show ?thesis
      by (simp add: run Inl flip: resolution_pointwise)
  next
    case (Inr rps)
    from resolveServicePorts_success[OF run[unfolded Inr]] show ?thesis
      by (simp add: run Inr flip: resolution_pointwise)
  qed
qed

text \<open>
  C23: the slice that \<^verbatim>\<open>reconcileEndpointSlice\<close> creates leads back to its source. The watch handler
  for EndpointSlices maps it to exactly one request, for the Service it was created for, whatever
  labels that Service has.
\<close>

theorem slice_maps_back:
  "mapEndpointSliceToService (new_slice svc leaderServiceName ownerUID leaderPod ports) =
     [object_key svc]"
  using slice_labels_get[of svc leaderServiceName]
  by (simp add: mapEndpointSliceToService_def new_slice_def map_get_def object_key_def)

text \<open>
  C24: no label by which a GitOps tool tracks the source Service reaches a generated object: on the
  created leader Service and on the created slice every tracked label is absent, except the one
  that names the manager, which names zen-lead; every other label of the source is copied.
\<close>

theorem copied_labels_clean:
  "map_of (Labels (new_leader_service svc n annotations ports)) k =
     (if k = LabelSourceService then Some (Name svc)
      else if k = LabelManagedBy then Some LabelManagedByValue
      else if k \<in> set gitOpsTrackingLabels then None
      else map_of (Labels svc) k) \<and>
   map_of (Labels (new_slice svc n uid leaderPod eports)) k =
     (if k = LabelEndpointSliceManagedBy then Some LabelEndpointSliceManagedByValue
      else if k = LabelServiceName then Some n
      else map_of (Labels (new_leader_service svc n annotations ports)) k)"
  using own_keys_tracked
  by (auto simp: new_leader_service_def new_slice_def slice_labels_def git_labels.map_of_drop
      label_keys)

text \<open>
  C25: the annotations of the leader Service follow the leader exactly. They name it and its UID,
  the switch time changes exactly when the UID differs from the recorded one, the event is emitted
  exactly when the name changes as well, and no annotation of anyone else is touched.
\<close>

theorem leader_annotations_exact:
  "case run_state (leader_annotations K svc (Some p) a) s of
     (a', s') \<Rightarrow>
       map_of a' AnnotationCurrentLeader = Some (Name p) \<and>
       map_of a' AnnotationLeaderPodName = Some (Name p) \<and>
       map_of a' AnnotationLeaderPodUID = Some (UID p) \<and>
       map_of a' AnnotationLeaderLastSwitchTime =
         (if map_get a AnnotationLeaderPodUID = UID p then map_of a AnnotationLeaderLastSwitchTime
          else Some (FormatRFC3339 K (fst (Now K (world s))))) \<and>
       map_of a' k = (if k \<in> set leader_keys then map_of a' k else map_of a k) \<and>
       events s' = events s @
         (if map_get a AnnotationLeaderPodUID \<noteq> UID p \<and> map_get a AnnotationLeaderPodName \<noteq> '''' \<and>
             map_get a AnnotationLeaderPodName \<noteq> Name p
          then [Event (object_key svc) EventTypeNormal ''LeaderChanged''] else [])"
proof -
  obtain a' s' where run: "run_state (leader_annotations K svc (Some p) a) s = (a', s')"
    by (metis prod.exhaust)
  show ?thesis unfolding run prod.case using leader_annotations_leader[OF run, of k] by auto
qed

section \<open>Retries\<close>

text \<open>
  C26: whatever \<^verbatim>\<open>retry.Do\<close> does with the function it gets, the metrics of a retried API call tell what
  happened. All its attempts but the last have failed, and the last has succeeded exactly if it
  reports no error. If there is a recorder, it gets one mark for each attempt with its number, or
  \<^verbatim>\<open>max\<close> from \<^verbatim>\<open>MaxAttempts\<close> on (none for a success at the first attempt); the time from the start to the
  end with the outcome; a mark for a success after retries; and another \<^verbatim>\<open>max\<close> for a failure after
  \<^verbatim>\<open>MaxAttempts\<close> attempts or more.
\<close>

theorem retry_metered:
  fixes c :: "api_err + 'a \<Rightarrow> api_call"
  shows "case run_state (retryDoWithMetrics K cfg (perform f (\<lambda>r. [c r])) ns service operation) s of
     (r, s') \<Rightarrow> \<exists>answers. calls s' = calls s @ map c answers \<and> attempts_of r answers \<and>
       (case Metrics s of
          None \<Rightarrow> Metrics s' = None
        | Some ops \<Rightarrow> \<exists>w. world s' = snd (Now K w) \<and> Metrics s' = Some (ops @
            retry_metrics cfg ns service operation (is_error r) (length answers)
              (time_Sub (fst (Now K w)) (fst (Now K (world s))))))"
proof -
  obtain r s' where run: "run_state (retryDoWithMetrics K cfg (perform f (\<lambda>r. [c r])) ns service
      operation) s = (r, s')"
    by (metis prod.exhaust)
  show ?thesis unfolding run prod.case by (rule retry_metrics_run[OF run])
qed

section \<open>Opted-in Services and the watches\<close>

text \<open>
  C27: observing a Service brings the cache in step with it. The cache of a namespace stands for a
  finite map from names to selectors; the update sets the entry of the Service to its selector if
  it is opted in and has one, removes it otherwise, changes no other entry and no other namespace,
  and keeps names distinct and selectors non-empty.
\<close>

theorem observed_service_registered:
  assumes "cached_ok (opted_of (optedInServicesCache s) (Namespace svc))"
    and "run_state (updateOptedInServicesCacheForService K svc) s = (u, s')"
  shows "cached_ok (opted_of (optedInServicesCache s') (Namespace svc)) \<and>
    registry (opted_of (optedInServicesCache s') (Namespace svc)) =
      (registry (opted_of (optedInServicesCache s) (Namespace svc)))
        (Name svc := if watched svc then Some (Selector svc) else None) \<and>
    (ns \<noteq> Namespace svc \<longrightarrow>
       opted_of (optedInServicesCache s') ns = opted_of (optedInServicesCache s) ns)"
proof -
  obtain t where "opted_of (optedInServicesCache s') =
      (opted_of (optedInServicesCache s))(Namespace svc :=
         opted.sync svc t (opted_of (optedInServicesCache s) (Namespace svc)))"
    by (rule run_updateForService[OF assms(2)])
  with updateForService_registry[OF assms(2,1)] show ?thesis by simp
qed

theorem observed_service_registered_witness:
  "registry (opted_of (optedInServicesCache (snd (run_state
     (updateOptedInServicesCacheForService mem_kube sample_service) (start_state sample_cluster))))
     ''prod'') ''db'' = Some [(''app'', ''db'')]"
proof -
  let ?m = "updateOptedInServicesCacheForService mem_kube sample_service"
  let ?s = "start_state sample_cluster"
  have ok: "cached_ok (opted_of (optedInServicesCache ?s) (Namespace sample_service))"
    by (simp add: start_state_def opted_of_def cached_ok_def)
  have run: "run_state ?m ?s = (fst (run_state ?m ?s), snd (run_state ?m ?s))"
    by (rule prod.collapse[symmetric])
  have "watched sample_service" by code_simp
  with observed_service_registered[OF ok run] show ?thesis
    by (simp add: sample_service_def)
qed

text \<open>
  C28: when the cache holds something for the pod's namespace, a pod event asks for exactly the
  cached Services of that namespace whose cached selector matches the pod's labels, each once, and
  without asking the server. A Service that such a cache misses, because it was left out by the size
  limit or not observed yet, gets no request.
\<close>

theorem pod_requests_exact:
  assumes "cached_ok (opted_of (optedInServicesCache s) (Namespace p))"
    and "opted_of (optedInServicesCache s) (Namespace p) \<noteq> []"
    and "run_state (mapPodToService K cfg p) s = (requests, s')"
  shows "calls s' = calls s \<and> distinct requests \<and>
    (req \<in> set requests \<longleftrightarrow> fst req = Namespace p \<and>
      (\<exists>selector. registry (opted_of (optedInServicesCache s) (Namespace p)) (snd req) = Some selector \<and>
         SelectorMatches K selector (Labels p)))"
proof -
  let ?c = "opted_of (optedInServicesCache s) (Namespace p)"
  note hit = mapPodToService_hit[OF assms(3,2)]
  have "distinct (requests_for K p ?c)"
    using assms(1) by (auto simp: requests_for_def cached_ok_def distinct_map inj_on_def)
  with hit requests_for_iff[OF assms(1)] show ?thesis by simp
qed

theorem pod_requests_exact_witness:
  "(''prod'', ''db'') \<in> set (fst (run_state (mapPodToService mem_kube undefined
      (sample_pod ''db-0'' ''uid-a'' 1 ''True'' ''10.0.0.11''))
      ((start_state sample_cluster)\<lparr>optedInServicesCache :=
         [(''prod'', [\<lparr>cs_name = ''db'', cs_selector = [(''app'', ''db'')], cs_lastAccess = 3\<rparr>])]\<rparr>)))"
proof -
  let ?p = "sample_pod ''db-0'' ''uid-a'' 1 ''True'' ''10.0.0.11''"
  let ?s = "(start_state sample_cluster)\<lparr>optedInServicesCache :=
     [(''prod'', [\<lparr>cs_name = ''db'', cs_selector = [(''app'', ''db'')], cs_lastAccess = 3\<rparr>])]\<rparr>"
  let ?m = "mapPodToService mem_kube undefined ?p"
  have cache: "opted_of (optedInServicesCache ?s) (Namespace ?p) =
      [\<lparr>cs_name = ''db'', cs_selector = [(''app'', ''db'')], cs_lastAccess = 3\<rparr>]"
    by (simp add: opted_of_def sample_pod_def)
  have "run_state ?m ?s = (fst (run_state ?m ?s), snd (run_state ?m ?s))" by simp
  from pod_requests_exact[OF _ _ this, of "(''prod'', ''db'')"] show ?thesis
    unfolding cache
    by (simp add: cached_ok_def registry_def sample_pod_def mem_kube_def matches_def)
qed

text \<open>
  C29: when the cache holds nothing for the pod's namespace and the server is calm, a pod event asks
  for exactly the stored Services of the namespace that are opted in and have a selector matching the
  pod's labels, provided that the cache may hold all opted-in Services of the namespace. The empty
  selector is the one that matches everything.
\<close>

theorem first_pod_event_complete:
  assumes "api_server K holds" and "holds v (world s)" and "\<And>ls. SelectorMatches K [] ls"
    and "opted_of (optedInServicesCache s) (Namespace p) = []"
    and "int (card {k. \<exists>svc. st_services v k = Some svc \<and> Namespace svc = Namespace p \<and> watched svc})
      \<le> maxCacheSizePerNamespace cfg"
    and "run_state (mapPodToService K cfg p) s = (requests, s')"
  shows "req \<in> set requests \<longleftrightarrow> fst req = Namespace p \<and>
    (\<exists>svc. st_services v req = Some svc \<and> watched svc \<and> SelectorMatches K (Selector svc) (Labels p))"
  using assms by (rule first_pod_event)

theorem first_pod_event_complete_witness:
  "(''prod'', ''db'') \<in> set (fst (run_state (mapPodToService mem_kube sample_config
      (sample_pod ''db-0'' ''uid-a'' 1 ''True'' ''10.0.0.11'')) (start_state sample_cluster)))"
proof -
  let ?p = "sample_pod ''db-0'' ''uid-a'' 1 ''True'' ''10.0.0.11''"
  let ?m = "mapPodToService mem_kube sample_config ?p"
  have run: "run_state ?m (start_state sample_cluster) =
      (fst (run_state ?m (start_state sample_cluster)), snd (run_state ?m (start_state sample_cluster)))"
    by simp
  have all: "\<And>ls. SelectorMatches mem_kube [] ls" by (simp add: mem_kube_def matches_def)
  have empty: "opted_of (optedInServicesCache (start_state sample_cluster)) (Namespace ?p) = []"
    by (simp add: opted_of_def start_state_def)
  have stored: "st_services sample_contents (''prod'', ''db'') = Some sample_service"
    and one: "st_services sample_contents k = Some svc \<Longrightarrow> k = (''prod'', ''db'')" for k svc
    by (simp_all add: store_of_def find_key_def sample_cluster_def sample_service_def object_key_def
        split: if_splits)
  let ?keys = "{k. \<exists>svc. st_services sample_contents k = Some svc \<and> Namespace svc = Namespace ?p \<and> watched svc}"
  have "?keys \<subseteq> {(''prod'', ''db'')}" using one by auto
  then have "card ?keys \<le> 1" using card_mono[of "{(''prod'', ''db'')}" ?keys] by simp
  then have size: "int (card ?keys) \<le> maxCacheSizePerNamespace sample_config"
    by (simp add: sample_config_def NewServiceDirectorReconciler_def positive_or_def)
  have "watched sample_service" by code_simp
  moreover have "SelectorMatches mem_kube (Selector sample_service) (Labels ?p)" by code_simp
  ultimately show ?thesis
    using first_pod_event_complete[OF mem.api_server_axioms sample_holds all empty size run,
      of "(''prod'', ''db'')"] stored
    by (auto simp: sample_pod_def)
qed

section \<open>LeaderGroups\<close>

text \<open>
  C30: the calls of a LeaderGroup run are its own. After the read of the group there is no call when
  it cannot be read; otherwise only the Lease named after the component is touched. It is created
  only if the run has not found it, and as the group wants it; updated only from what the run has
  read, and only if that had to be completed; deleted only for a group being deleted, and as it was
  read. The status is written only with what the Lease in hand says.
\<close>

theorem leader_group_calls:
  "case run_state (ReconcileGroup K req) s of
     (r, s') \<Rightarrow> \<exists>q new. lg_calls s' = lg_calls s @ CallGetGroup req q # new \<and>
       (case q of Inl err \<Rightarrow> new = [] | Inr lg \<Rightarrow> group_calls K lg new)"
proof -
  obtain r s' where run: "run_state (ReconcileGroup K req) s = (r, s')" by (metis prod.exhaust)
  show ?thesis unfolding run prod.case by (rule ReconcileGroup_calls[OF run])
qed

text \<open>
  C31: a controller group that reconciles without error has its Lease in place (created, completed,
  or found with owner and labels right), its status in step with that Lease, and comes back after
  ten seconds.
\<close>

theorem leader_group_in_step:
  "case run_state (reconcileControllerType K lg) s of
     (Inl err, s') \<Rightarrow> True
   | (Inr requeue, s') \<Rightarrow> requeue = Some requeueInterval \<and> Component (Spec lg) \<noteq> '''' \<and>
       (\<exists>new l. lg_calls s' = lg_calls s @ new \<and> lease_in_place K lg l new \<and> in_step lg l new)"
proof -
  obtain r s' where run: "run_state (reconcileControllerType K lg) s = (r, s')"
    by (metis prod.exhaust)
  show ?thesis
  proof (cases r)
    case (Inr q)
    from reconcileControllerType_success[OF run[unfolded Inr]] show ?thesis
      unfolding run Inr by simp
  qed (simp add: run)
qed

text \<open>
  C32: on an API server that is up and has no other writers, one run serves a controller group
  whose Lease the server takes. The run reports no error and comes back after ten seconds; the Lease
  is stored with the owner, labels and numbers wanted, or kept with its holder; the stored status
  shows it; and only that Lease and the status of the group were changed.
\<close>

theorem leader_group_settles:
  assumes "group_server K accepts holds" and "holds v (lg_world s)"
    and "group_ready K accepts req lg v"
  shows "case run_state (ReconcileGroup K req) s of (r, s') \<Rightarrow>
    r = Inr (Some requeueInterval) \<and>
    (\<exists>l g v'. v' = put_group_in req (Some g) (put_lease_in (lease_key_of lg) (Some l) v) \<and>
       holds v' (lg_world s') \<and> same_group lg g \<and> same_lease (wanted_lease K v lg) l \<and>
       group_served req g l v')"
proof -
  obtain r s' where run: "run_state (ReconcileGroup K req) s = (r, s')" by (metis prod.exhaust)
  from group_server.group_run[OF assms run] show ?thesis unfolding run prod.case by blast
qed

theorem leader_group_settles_witness:
  "case run_state (ReconcileGroup group_kube (''prod'', ''db''))
      \<lparr>lg_world = sample_groups, lg_calls = []\<rparr> of (r, s') \<Rightarrow>
    r = Inr (Some requeueInterval) \<and>
    (\<exists>l g v'. group_holds v' (lg_world s') \<and> group_served (''prod'', ''db'') g l v')"
proof -
  let ?s = "\<lparr>lg_world = sample_groups, lg_calls = []\<rparr>"
  have "group_holds (group_contents sample_groups) (lg_world ?s)" by (simp add: sample_groups_hold)
  from leader_group_settles[OF group_mem.group_server_axioms this sample_group_ready] show ?thesis
    by (cases "run_state (ReconcileGroup group_kube (''prod'', ''db'')) ?s") auto
qed

text \<open>
  C33: a served group stays served, on the same Lease, and all later runs together make no writes
  but to the status. They make none if the renew time of the Lease is in whole seconds, and else
  one per run: the stored time of the status has lost the fraction, so it never compares equal.
\<close>

theorem leader_group_stays:
  assumes "group_server K accepts holds" and "holds v (lg_world s)" and "group_served req lg l v"
  shows "\<exists>g new. same_group lg g \<and> holds (put_group_in req (Some g) v) (lg_world (group_runs K req n s)) \<and>
    group_served req g l (put_group_in req (Some g) v) \<and>
    lg_calls (group_runs K req n s) = lg_calls s @ new \<and>
    list_all (\<lambda>c. group_read c \<or> status_write c) new \<and>
    length (filter status_write new) = (if whole_renewal l then 0 else n)"
  using assms by (rule group_server.group_runs_on)

theorem leader_group_stays_witness:
  "\<exists>new. lg_calls (group_runs group_kube (''prod'', ''db'') 1000
        \<lparr>lg_world = sample_held_groups, lg_calls = []\<rparr>) = new \<and>
      length (filter status_write new) = 1000"
proof -
  let ?s = "\<lparr>lg_world = sample_held_groups, lg_calls = []\<rparr>"
  have "group_holds (group_contents sample_held_groups) (lg_world ?s)" by (simp add: sample_held_hold)
  from leader_group_stays[OF group_mem.group_server_axioms this sample_group_served, of 1000]
  show ?thesis using sample_fraction by auto
qed

text \<open>
  C34: when a controller group is being deleted, one run on a calm server deletes the Lease named after
  its component and nothing else, reports no error and does not come back.
\<close>

theorem deleted_group_cleaned:
  assumes "group_server K accepts holds" and "holds v (lg_world s)" and "gs_groups v req = Some lg"
    and "DeletionTimestamp lg \<noteq> None" and "SpecType (Spec lg) = LeaderGroupTypeController"
  shows "case run_state (ReconcileGroup K req) s of (r, s') \<Rightarrow>
    r = Inr None \<and> holds (put_lease_in (lease_key_of lg) None v) (lg_world s')"
proof -
  obtain r s' where run: "run_state (ReconcileGroup K req) s = (r, s')" by (metis prod.exhaust)
  from group_server.deleted_group_run[OF assms run] show ?thesis unfolding run prod.case .
qed

theorem deleted_group_cleaned_witness:
  "gs_leases (group_contents sample_deleted_groups) (''prod'', ''db-lease'') \<noteq> None \<and>
   (case run_state (ReconcileGroup group_kube (''prod'', ''db''))
      \<lparr>lg_world = sample_deleted_groups, lg_calls = []\<rparr> of (r, s') \<Rightarrow>
     r = Inr None \<and> group_holds (put_lease_in (''prod'', ''db-lease'') None
       (group_contents sample_deleted_groups)) (lg_world s'))"
proof -
  let ?s = "\<lparr>lg_world = sample_deleted_groups, lg_calls = []\<rparr>"
  have "group_holds (group_contents sample_deleted_groups) (lg_world ?s)" by (simp add: sample_deleted_hold)
  from deleted_group_cleaned[OF group_mem.group_server_axioms this sample_deleted_stored
      sample_deleted_kind(2,1)] sample_deleted_lease
  show ?thesis unfolding sample_deleted_kind(3) by simp
qed

text \<open>
  C35: leaving the fencing token and the conditions out of \<^verbatim>\<open>statusEqual\<close> loses no update. If the
  stored status mirrors the Lease it was made from, and a resource version names one state of the
  Lease, then a status that compares equal to the new one mirrors the new Lease in every field.
\<close>

theorem status_comparison_enough:
  assumes "status_mirrors s l0" and "statusEqual s (status_from_lease t s l)"
    and "ResourceVersion l = ResourceVersion l0 \<Longrightarrow> l = l0"
  shows "status_mirrors s l"
  using assms by (rule statusEqual_enough)

theorem status_comparison_enough_witness:
  "\<exists>s l. status_mirrors s l \<and> FencingToken s = Some 3"
proof -
  let ?old = "\<lparr>HolderIdentity = '''', RenewTime = None, LeaseDurationSeconds = None,
    FencingToken = None, ObservedLeaseResourceVersion = '''', LgConditions = []\<rparr>"
  let ?l = "\<lparr>Name = ''db-lease'', Namespace = ''prod'', UID = ''u'', ResourceVersion = ''7'',
    Labels = [], Annotations = [], OwnerReferences = [], CreationTimestamp = 1,
    DeletionTimestamp = None, LeaseHolder = Some ''db-0'', LeaseRenewTime = Some 5,
    LeaseDuration = Some 15, LeaseTransitions = Some 3\<rparr>"
  let ?s = "status_from_lease 6 ?old ?l"
  have "status_mirrors ?s ?l"
    by (rule status_comparison_enough[of ?s ?l 9 ?l])
      (simp_all add: status_from_lease_mirrors, simp add: statusEqual_def status_from_lease_def)
  moreover have "FencingToken ?s = Some 3" by (simp add: status_from_lease_def)
  ultimately show ?thesis by blast
qed

text \<open>
  C36: completing the metadata of a Lease is idempotent and never steals it. The labels name
  zen-lead and the group, an owner that is present stays, no other field changes, and a second pass
  finds nothing to do.
\<close>

theorem lease_metadata_exact:
  "case lease_metadata l lg of
     (needsUpdate, l') \<Rightarrow>
       map_get (Labels l') LabelManagedBy = LabelManagedByValue \<and>
       map_get (Labels l') LabelLeaderGroup = Name lg \<and>
       OwnerReferences l' =
         (if OwnerReferences l = [] then [group_owner lg] else OwnerReferences l) \<and>
       l' = l\<lparr>OwnerReferences := OwnerReferences l', Labels := Labels l'\<rparr> \<and>
       (needsUpdate \<or> l' = l) \<and> lease_metadata l' lg = (False, l')"
  using lease_metadata_labels[of l lg] lease_metadata_owner[of l lg] lease_metadata_frame[of l lg]
    lease_metadata_stable[of l lg] lease_metadata_unchanged[of l lg]
  by (cases "lease_metadata l lg") auto

text \<open>
  C37: the deep copy of a LeaderGroup stands for the same value as the original, and the two are
  independent: no matter what is written to the memory that the copy reaches, the original keeps its
  value, and the other way round. So handlers may treat LeaderGroups as values, as this development
  does. The deep copies of the object metadata and the selector, from another package, are assumed
  to keep the same contract.
\<close>

theorem deep_copy_independent:
  assumes "copier (CopyObjectMeta E) vm fm" and "copier (CopyLabelSelector E) vs fs"
    and "mem_ok m" and "view_ptr un_group (view_group vm vs) m p = Some v"
  shows "case run_state (LeaderGroup_DeepCopy E p) m of
    (q, m') \<Rightarrow>
      view_ptr un_group (view_group vm vs) m' q = Some v \<and>
      (\<forall>m''. (\<forall>a. a \<notin> foot_ptr un_group (foot_group fm fs) m' q \<longrightarrow> cells m'' a = cells m' a) \<longrightarrow>
         view_ptr un_group (view_group vm vs) m'' p = Some v) \<and>
      (\<forall>m''. (\<forall>a. a \<notin> foot_ptr un_group (foot_group fm fs) m' p \<longrightarrow> cells m'' a = cells m' a) \<longrightarrow>
         view_ptr un_group (view_group vm vs) m'' q = Some v)"
proof -
  note deep = copier_pointers(4)[OF assms(1,2)]
  obtain q m' where run: "run_state (LeaderGroup_DeepCopy E p) m = (q, m')" by (metis prod.exhaust)
  from copier.deep[OF deep assms(4,3) run] copier.independent[OF deep assms(4,3) run]
  show ?thesis unfolding run by blast
qed

theorem deep_copy_independent_witness:
  "\<exists>g. case run_state (LeaderGroup_DeepCopy sample_externals (Some 8)) sample_memory of
    (q, m') \<Rightarrow>
      sample_view m' q = Some (Some g) \<and>
      (\<forall>m''. (\<forall>a. a \<notin> sample_foot m' q \<longrightarrow> cells m'' a = cells m' a) \<longrightarrow>
         sample_view m'' (Some 8) = Some (Some g)) \<and>
      (\<forall>m''. (\<forall>a. a \<notin> sample_foot m' (Some 8) \<longrightarrow> cells m'' a = cells m' a) \<longrightarrow>
         sample_view m'' q = Some (Some g))"
proof -
  obtain g where "sample_view sample_memory (Some 8) = Some (Some g)" using sample_memory_group by blast
  from deep_copy_independent[OF sample_copiers(2,1) sample_memory_ok this] show ?thesis by (rule exI)
qed

section \<open>The client SDK\<close>

text \<open>
  C38: every answer of \<^verbatim>\<open>IsLeader\<close> and \<^verbatim>\<open>IsLeaderWithNamespace\<close> rests on a Lease the client has read: the Lease of the pool the
  cache key stands for, compared with the identity of the client, at most the time to live before
  the last reading of the clock. The call keeps this true of every entry of the cache.
\<close>

theorem client_answers_fresh:
  assumes "cache_backed c s"
  shows "(case run_state (IsLeader K c env pool) s of
     (r, s') \<Rightarrow> cache_backed c s' \<and>
       (case r of Inl err \<Rightarrow> True | Inr b \<Rightarrow> fresh_answer c (sdk_log s') pool b)) \<and>
    (case run_state (IsLeaderWithNamespace K c pool ns) s of
     (r, s') \<Rightarrow> cache_backed c s' \<and>
       (case r of Inl err \<Rightarrow> True
        | Inr b \<Rightarrow> fresh_answer c (sdk_log s') (service_key (TrimSpace ns) pool) b))"
proof -
  obtain r s' where run: "run_state (IsLeader K c env pool) s = (r, s')" by (metis prod.exhaust)
  obtain q t where run': "run_state (IsLeaderWithNamespace K c pool ns) s = (q, t)"
    by (metis prod.exhaust)
  from IsLeader_result[OF assms run] IsLeaderWithNamespace_result[OF assms run'] show ?thesis
    unfolding run run' by (auto split: sum.splits)
qed

theorem client_answers_fresh_witness:
  "fresh_answer sample_client
     (sdk_log (snd (run_state (IsLeader sample_sdk sample_client sample_environment ''db'')
        sample_sdk_sys))) ''db'' True"
proof -
  let ?run = "run_state (IsLeader sample_sdk sample_client sample_environment ''db'') sample_sdk_sys"
  have ok: "cache_backed sample_client sample_sdk_sys"
    by (simp add: cache_backed_def sample_sdk_sys_def)
  have "fst ?run = Inr True" by code_simp
  with client_answers_fresh[OF ok, where K = sample_sdk and env = sample_environment and
      pool = "''db''", THEN conjunct1]
  show ?thesis by (cases ?run) auto
qed

section \<open>Start-up\<close>

text \<open>
  C39: whatever the flags say (negative values and products that wrap included), every limit, delay
  and timeout of the reconciler is positive.
\<close>

theorem configuration_positive:
  "case fst (director_of_flags w f) of cfg \<Rightarrow>
     0 < maxCacheSizePerNamespace cfg \<and> 0 < maxConcurrentReconciles cfg \<and>
     0 < cacheUpdateTimeout cfg \<and> 0 < metricsCollectionTimeout cfg \<and>
     0 < MaxAttempts (fastRetryConfig cfg) \<and> 0 < InitialDelay (fastRetryConfig cfg) \<and>
     0 < MaxDelay (fastRetryConfig cfg) \<and> 0 < leaderPodCacheTTL cfg"
  using director_config_positive[of w f] by simp

text \<open>
  C40: the start-up never gets as far as starting the manager, on any registry that keeps the
  documented laws: the recorder has registered the build information series by the time
  \<^verbatim>\<open>main\<close> registers it again. When every step before succeeds, the process panics.
\<close>

theorem start_up_panics:
  assumes "registry_laws P" and "\<not> globalRecorder m"
  shows "main P f st m \<noteq> Finished m' \<and> main P f st m \<noteq> ExitOne ''MANAGER_RUN_ERROR'' \<and>
    (has_namespace st \<and> has_config st \<and> manager_ok st \<and> director_setup_ok st \<and>
     groups_setup_ok st \<and> healthz_ok st \<and> readyz_ok st \<longrightarrow> (\<exists>why. main P f st m = Panic why))"
  using main_never_starts[OF assms] main_panics[OF assms] by blast

theorem start_up_panics_witness:
  "\<exists>why. main list_registry default_flags \<lparr>tracing_ok = True, has_namespace = True, has_config = True,
       manager_ok = True, director_setup_ok = True, groups_setup_ok = True, healthz_ok = True,
       readyz_ok = True, run_ok = True\<rparr> \<lparr>registry_of = [], globalRecorder = False\<rparr> = Panic why"
  by (rule start_up_panics[THEN conjunct2, THEN conjunct2, rule_format, OF list_registry_laws]) simp_all

end
